(* ===== verification/Prelude.thy ===== *)
theory Prelude
  imports Main "HOL-Library.Word" "HOL-Library.Multiset"
begin

text \<open>
  Shared ground of the PulseQueue development: the names of the model's basic types, Go's
  fixed-width integer arithmetic on \<open>int\<close>, SQL's \<open>ORDER BY\<close> as a stable insertion sort by
  an arbitrary row order (with the locale \<open>row_order\<close> for what a query may rely on), and the
  facts about \<open>UPDATE ... WHERE\<close> on a table held as a list of rows.
\<close>

named_theorems row_orders \<open>composition rules for ORDER BY clauses\<close>
named_theorems table_simps \<open>how the SQL statements act on lists of rows\<close>

section \<open>Basic types\<close>

text \<open>
  A UUID is 16 bytes. An instant is a number of nanoseconds since the Unix epoch (UTC), which is
  what both Go's \<open>time.Time\<close> and PostgreSQL's \<open>timestamptz\<close> are read as here. A duration is
  Go's \<open>time.Duration\<close>, a signed 64-bit count of nanoseconds kept as an \<open>int\<close>.
\<close>

type_synonym uuid = "128 word"
type_synonym instant = int
type_synonym duration = int

abbreviation (input) second :: duration where "second \<equiv> 1000000000"
abbreviation (input) minute_ns :: duration where "minute_ns \<equiv> 60000000000"
abbreviation (input) hour_ns :: duration where "hour_ns \<equiv> 3600000000000"
abbreviation (input) day_ns :: duration where "day_ns \<equiv> 86400000000000"

section \<open>Go's fixed-width integers\<close>

text \<open>Two's complement wrap-around at 32 and 64 bits, and Go's division, which truncates towards zero.\<close>

definition wrap32 :: "int \<Rightarrow> int" where
  "wrap32 x = (x + 2 ^ 31) mod 2 ^ 32 - 2 ^ 31"

definition wrap64 :: "int \<Rightarrow> int" where
  "wrap64 x = (x + 2 ^ 63) mod 2 ^ 64 - 2 ^ 63"

definition int32 :: "int \<Rightarrow> bool" where
  "int32 x \<longleftrightarrow> - (2 ^ 31) \<le> x \<and> x < 2 ^ 31"

definition int64 :: "int \<Rightarrow> bool" where
  "int64 x \<longleftrightarrow> - (2 ^ 63) \<le> x \<and> x < 2 ^ 63"

definition quot :: "int \<Rightarrow> int \<Rightarrow> int" where
  "quot a b = sgn a * sgn b * (\<bar>a\<bar> div \<bar>b\<bar>)"

lemma wrap64_id [simp]: "int64 x \<Longrightarrow> wrap64 x = x"
  by (simp add: wrap64_def int64_def)

lemma wrap32_id [simp]: "int32 x \<Longrightarrow> wrap32 x = x"
  by (simp add: wrap32_def int32_def)

lemma int64_wrap64: "int64 (wrap64 x)"
  by (simp add: wrap64_def int64_def)

lemma int32_wrap32: "int32 (wrap32 x)"
  by (simp add: wrap32_def int32_def)

lemma wrap64_high:
  assumes "2 ^ 63 \<le> x" and "x < 2 ^ 63 + 2 ^ 64"
  shows "wrap64 x = x - 2 ^ 64"
proof -
  have "(x + 2 ^ 63) mod 2 ^ 64 = (x + 2 ^ 63 - 2 ^ 64) mod 2 ^ 64"
    by (rule minus_mod_self2 [symmetric])
  also have "\<dots> = x + 2 ^ 63 - 2 ^ 64"
    by (rule mod_pos_pos_trivial) (use assms in simp_all)
  finally show ?thesis by (simp add: wrap64_def)
qed

lemma quot_nonneg: "0 \<le> a \<Longrightarrow> 0 < b \<Longrightarrow> quot a b = a div b"
  by (cases "a = 0") (simp_all add: quot_def)

section \<open>ORDER BY\<close>

text \<open>
  A row order is a relation \<open>le\<close> on rows; \<open>ORDER BY\<close> is a stable sort by it. Rows that the
  clause does not distinguish keep the table's order, which stands for PostgreSQL's unspecified
  choice: the table is an arbitrary list.
\<close>

fun insert_by :: "('r \<Rightarrow> 'r \<Rightarrow> bool) \<Rightarrow> 'r \<Rightarrow> 'r list \<Rightarrow> 'r list" where
  "insert_by le x [] = [x]"
| "insert_by le x (y # ys) = (if le x y then x # y # ys else y # insert_by le x ys)"

fun order_by :: "('r \<Rightarrow> 'r \<Rightarrow> bool) \<Rightarrow> 'r list \<Rightarrow> 'r list" where
  "order_by le [] = []"
| "order_by le (x # xs) = insert_by le x (order_by le xs)"

definition asc :: "('r \<Rightarrow> 'k::linorder) \<Rightarrow> ('r \<Rightarrow> 'r \<Rightarrow> bool) \<Rightarrow> 'r \<Rightarrow> 'r \<Rightarrow> bool" where
  "asc f le x y \<longleftrightarrow> f x < f y \<or> (f x = f y \<and> le x y)"

definition desc :: "('r \<Rightarrow> 'k::linorder) \<Rightarrow> ('r \<Rightarrow> 'r \<Rightarrow> bool) \<Rightarrow> 'r \<Rightarrow> 'r \<Rightarrow> bool" where
  "desc f le x y \<longleftrightarrow> f x > f y \<or> (f x = f y \<and> le x y)"

definition ties :: "'r \<Rightarrow> 'r \<Rightarrow> bool" where
  "ties x y \<longleftrightarrow> True"

text \<open>A text column is ordered by the database's collation, a total preorder on strings.\<close>

definition asc_text :: "(string \<Rightarrow> string \<Rightarrow> bool) \<Rightarrow> ('r \<Rightarrow> string) \<Rightarrow> ('r \<Rightarrow> 'r \<Rightarrow> bool) \<Rightarrow> 'r \<Rightarrow> 'r \<Rightarrow> bool" where
  "asc_text coll f le x y \<longleftrightarrow>
     (coll (f x) (f y) \<and> (\<not> coll (f y) (f x) \<or> le x y))"

lemma mset_insert_by [simp]: "mset (insert_by le x xs) = add_mset x (mset xs)"
  by (induction xs) auto

lemma set_insert_by [simp]: "set (insert_by le x xs) = insert x (set xs)"
  by (induction xs) auto

lemma mset_order_by [simp]: "mset (order_by le xs) = mset xs"
  by (induction xs) auto

lemma set_order_by [simp]: "set (order_by le xs) = set xs"
  by (induction xs) auto

lemma length_order_by [simp]: "length (order_by le xs) = length xs"
  by (metis mset_order_by size_mset)

lemma distinct_order_by [simp]: "distinct (order_by le xs) = distinct xs"
  by (metis distinct_count_atmost_1 mset_order_by set_order_by)

lemma distinct_map_order_by [simp]: "distinct (map f (order_by le xs)) = distinct (map f xs)"
proof -
  have "mset (map f (order_by le xs)) = mset (map f xs)" by simp
  then show ?thesis by (metis mset_eq_setD distinct_count_atmost_1)
qed

lemma order_by_Nil_iff [simp]: "order_by le xs = [] \<longleftrightarrow> xs = []"
  by (metis length_0_conv length_order_by)

lemma set_take_order_by: "x \<in> set (take n (order_by le xs)) \<Longrightarrow> x \<in> set xs"
  by (metis in_set_takeD set_order_by)

locale row_order =
  fixes le :: "'r \<Rightarrow> 'r \<Rightarrow> bool"
  assumes le_total: "le x y \<or> le y x"
    and le_trans: "le x y \<Longrightarrow> le y z \<Longrightarrow> le x z"
begin

lemma le_refl: "le x x"
  using le_total by blast

lemma sorted_insert_by: "sorted_wrt le xs \<Longrightarrow> sorted_wrt le (insert_by le x xs)"
proof (induction xs)
  case Nil
  then show ?case by simp
next
  case (Cons y ys)
  show ?case
  proof (cases "le x y")
    case True
    with Cons.prems show ?thesis by (auto intro: le_trans)
  next
    case False
    then have "le y x" using le_total by blast
    moreover have "set (insert_by le x ys) = insert x (set ys)"
      by (rule set_insert_by)
    ultimately show ?thesis using False Cons by auto
  qed
qed

lemma sorted_order_by: "sorted_wrt le (order_by le xs)"
  by (induction xs) (auto intro: sorted_insert_by)

lemma hd_order_by_least:
  assumes "order_by le xs = y # ys" and "x \<in> set xs"
  shows "le y x"
proof -
  have "sorted_wrt le (y # ys)" using sorted_order_by [of xs] assms(1) by simp
  moreover have "x \<in> set (y # ys)" using assms set_order_by by metis
  ultimately show ?thesis using le_refl by auto
qed

text \<open>\<open>LIMIT n\<close> keeps rows that come no later than any row it cuts off.\<close>

lemma limit_least:
  assumes "x \<in> set (take n (order_by le xs))" and "y \<in> set (drop n (order_by le xs))"
  shows "le x y"
proof -
  have "sorted_wrt le (take n (order_by le xs) @ drop n (order_by le xs))"
    using sorted_order_by by simp
  with assms show ?thesis unfolding sorted_wrt_append by blast
qed

end

lemma ties_row_order [row_orders, intro]: "row_order ties"
  by unfold_locales (auto simp: ties_def)

lemma asc_row_order [row_orders, intro]:
  assumes "row_order le"
  shows "row_order (asc f le)"
proof
  fix x y z
  show "asc f le x y \<or> asc f le y x"
    using row_order.le_total [OF assms, of x y] by (auto simp: asc_def)
  show "asc f le x y \<Longrightarrow> asc f le y z \<Longrightarrow> asc f le x z"
    using row_order.le_trans [OF assms, of x y z] by (auto simp: asc_def)
qed

lemma desc_row_order [row_orders, intro]:
  assumes "row_order le"
  shows "row_order (desc f le)"
proof
  fix x y z
  show "desc f le x y \<or> desc f le y x"
    using row_order.le_total [OF assms, of x y] by (auto simp: desc_def)
  show "desc f le x y \<Longrightarrow> desc f le y z \<Longrightarrow> desc f le x z"
    using row_order.le_trans [OF assms, of x y z] by (auto simp: desc_def)
qed

lemma asc_text_row_order [row_orders, intro]:
  "row_order coll \<Longrightarrow> row_order le \<Longrightarrow> row_order (asc_text coll f le)"
  unfolding row_order_def asc_text_def by blast

section \<open>Tables as lists of rows\<close>

text \<open>
  \<open>UPDATE t SET f WHERE p\<close> rewrites the rows that satisfy \<open>p\<close>; \<open>affected\<close> is the command tag's
  \<open>RowsAffected()\<close>; \<open>find_row\<close> is a look-up by primary key.
\<close>

definition update_rows :: "('r \<Rightarrow> bool) \<Rightarrow> ('r \<Rightarrow> 'r) \<Rightarrow> 'r list \<Rightarrow> 'r list" where
  "update_rows p f rs = map (\<lambda>r. if p r then f r else r) rs"

definition affected :: "('r \<Rightarrow> bool) \<Rightarrow> 'r list \<Rightarrow> nat" where
  "affected p rs = length (filter p rs)"

definition find_row :: "('r \<Rightarrow> 'k) \<Rightarrow> 'k \<Rightarrow> 'r list \<Rightarrow> 'r option" where
  "find_row key k rs = find (\<lambda>r. key r = k) rs"

lemma update_rows_Nil [table_simps, simp]: "update_rows p f [] = []"
  by (simp add: update_rows_def)

lemma update_rows_Cons [table_simps, simp]:
  "update_rows p f (r # rs) = (if p r then f r else r) # update_rows p f rs"
  by (simp add: update_rows_def)

lemma update_rows_append [table_simps]:
  "update_rows p f (rs @ qs) = update_rows p f rs @ update_rows p f qs"
  by (simp add: update_rows_def)

lemma length_update_rows [simp]: "length (update_rows p f rs) = length rs"
  by (simp add: update_rows_def)

lemma set_update_rows: "set (update_rows p f rs) = (\<lambda>r. if p r then f r else r) ` set rs"
  by (simp add: update_rows_def)

lemma map_update_rows: "(\<And>r. p r \<Longrightarrow> g (f r) = g r) \<Longrightarrow> map g (update_rows p f rs) = map g rs"
  by (simp add: update_rows_def)

lemma update_rows_none: "\<forall>r \<in> set rs. \<not> p r \<Longrightarrow> update_rows p f rs = rs"
  unfolding update_rows_def by (rule map_idI) simp

lemma filter_update_rows:
  "(\<And>r. p r \<Longrightarrow> q (f r) = q r) \<Longrightarrow> filter q (update_rows p f rs) = update_rows p f (filter q rs)"
  by (induction rs) auto

lemma update_rows_cong:
  "(\<And>r. r \<in> set rs \<Longrightarrow> p r = q r) \<Longrightarrow> update_rows p f rs = update_rows q f rs"
  by (simp add: update_rows_def)

lemma find_row_Some:
  "find_row key k rs = Some r \<Longrightarrow> r \<in> set rs \<and> key r = k"
  by (induction rs) (auto simp: find_row_def split: if_splits)

lemma find_row_None: "find_row key k rs = None \<longleftrightarrow> k \<notin> key ` set rs"
  by (induction rs) (auto simp: find_row_def)

lemma find_row_unique:
  "distinct (map key rs) \<Longrightarrow> r \<in> set rs \<Longrightarrow> find_row key (key r) rs = Some r"
  by (induction rs) (auto simp: find_row_def)

lemma key_unique:
  "distinct (map key rs) \<Longrightarrow> r \<in> set rs \<Longrightarrow> q \<in> set rs \<Longrightarrow> key r = key q \<Longrightarrow> r = q"
  by (metis find_row_unique option.inject)

lemma find_row_update_rows:
  assumes "\<And>r. p r \<Longrightarrow> key (f r) = key r"
  shows "find_row key k (update_rows p f rs) =
    map_option (\<lambda>r. if p r then f r else r) (find_row key k rs)"
  using assms by (induction rs) (auto simp: find_row_def)

lemma affected_key_le_1:
  assumes "distinct (map key rs)" and "\<And>r. p r \<Longrightarrow> key r = k"
  shows "affected p rs \<le> 1"
proof -
  have "distinct (map key (filter p rs))" using assms(1) by (rule distinct_map_filter)
  moreover have "set (map key (filter p rs)) \<subseteq> {k}" using assms(2) by auto
  ultimately have "length (map key (filter p rs)) \<le> card {k}"
    by (metis card_mono distinct_card finite.emptyI finite.insertI)
  then show ?thesis by (simp add: affected_def)
qed

lemma affected_pos: "affected p rs \<noteq> 0 \<longleftrightarrow> (\<exists>r \<in> set rs. p r)"
  by (induction rs) (auto simp: affected_def)

lemma affected_eq_1:
  assumes "affected p rs = 1"
  obtains r where "r \<in> set rs" "p r" "filter p rs = [r]"
proof -
  from assms obtain r where r: "filter p rs = [r]"
    by (auto simp: affected_def length_Suc_conv)
  then have "r \<in> set (filter p rs)" by simp
  then have "r \<in> set rs" "p r" by auto
  then show ?thesis using r by (rule that)
qed

end
