(* ===== verification/GoText.thy ===== *)
theory GoText
  imports Prelude
begin

text \<open>
  The parts of Go's \<open>strings\<close> and \<open>strconv\<close> packages that the program uses, on byte strings:
  a \<open>string\<close> is the list of a Go string's bytes. White space is Unicode's, in its UTF-8
  encoding, as \<open>strings.TrimSpace\<close> and \<open>strings.Fields\<close> have it. No white-space encoding starts
  with a continuation byte, so looking for the encodings byte by byte agrees with Go's decoding
  of runes, in invalid UTF-8 too.
\<close>

section \<open>White space\<close>

definition space_runes :: "string list" where
  "space_runes =
     [[CHR 0x20], [CHR 0x09], [CHR 0x0A], [CHR 0x0B], [CHR 0x0C], [CHR 0x0D],
      [CHR 0xC2, CHR 0x85], [CHR 0xC2, CHR 0xA0], [CHR 0xE1, CHR 0x9A, CHR 0x80],
      [CHR 0xE2, CHR 0x80, CHR 0x80], [CHR 0xE2, CHR 0x80, CHR 0x81], [CHR 0xE2, CHR 0x80, CHR 0x82],
      [CHR 0xE2, CHR 0x80, CHR 0x83], [CHR 0xE2, CHR 0x80, CHR 0x84], [CHR 0xE2, CHR 0x80, CHR 0x85],
      [CHR 0xE2, CHR 0x80, CHR 0x86], [CHR 0xE2, CHR 0x80, CHR 0x87], [CHR 0xE2, CHR 0x80, CHR 0x88],
      [CHR 0xE2, CHR 0x80, CHR 0x89], [CHR 0xE2, CHR 0x80, CHR 0x8A], [CHR 0xE2, CHR 0x80, CHR 0xA8],
      [CHR 0xE2, CHR 0x80, CHR 0xA9], [CHR 0xE2, CHR 0x80, CHR 0xAF], [CHR 0xE2, CHR 0x81, CHR 0x9F],
      [CHR 0xE3, CHR 0x80, CHR 0x80]]"

text \<open>The length of the first of the words \<open>ws\<close> that the string starts with, 0 if there is none.\<close>

definition head_match :: "string list \<Rightarrow> string \<Rightarrow> nat" where
  "head_match ws s = (case find (\<lambda>w. take (length w) s = w) ws of None \<Rightarrow> 0 | Some w \<Rightarrow> length w)"

function strip :: "string list \<Rightarrow> string \<Rightarrow> string" where
  "strip ws s = (if s = [] \<or> head_match ws s = 0 then s else strip ws (drop (head_match ws s) s))"
  by pat_completeness auto
termination
  by (relation "measure (\<lambda>(ws, s). length s)") auto

declare strip.simps [simp del]

definition trim_left :: "string \<Rightarrow> string" where
  "trim_left s = strip space_runes s"

definition trim_right :: "string \<Rightarrow> string" where
  "trim_right s = rev (strip (map rev space_runes) (rev s))"

definition TrimSpace :: "string \<Rightarrow> string" where
  "TrimSpace s = trim_right (trim_left s)"

function fields_from :: "string \<Rightarrow> string \<Rightarrow> string list" where
  "fields_from word [] = (if word = [] then [] else [rev word])"
| "fields_from word (c # s) =
     (let n = head_match space_runes (c # s)
      in if n = 0 then fields_from (c # word) s
         else (if word = [] then [] else [rev word]) @ fields_from [] (drop n (c # s)))"
  by pat_completeness auto
termination
  by (relation "measure (\<lambda>(w, s). length s)") auto

definition Fields :: "string \<Rightarrow> string list" where
  "Fields s = fields_from [] s"

section \<open>Splitting, prefixes and suffixes\<close>

fun split_on :: "char \<Rightarrow> string \<Rightarrow> string list" where
  "split_on c [] = [[]]"
| "split_on c (x # xs) =
     (if x = c then [] # split_on c xs
      else (case split_on c xs of [] \<Rightarrow> [[x]] | y # ys \<Rightarrow> (x # y) # ys))"

fun join :: "string \<Rightarrow> string list \<Rightarrow> string" where
  "join sep [] = []"
| "join sep [x] = x"
| "join sep (x # y # ys) = x @ sep @ join sep (y # ys)"

definition HasPrefix :: "string \<Rightarrow> string \<Rightarrow> bool" where
  "HasPrefix s p \<longleftrightarrow> take (length p) s = p"

definition TrimPrefix :: "string \<Rightarrow> string \<Rightarrow> string" where
  "TrimPrefix s p = (if HasPrefix s p then drop (length p) s else s)"

definition TrimSuffix :: "string \<Rightarrow> string \<Rightarrow> string" where
  "TrimSuffix s p = rev (TrimPrefix (rev s) (rev p))"

definition TrimRight1 :: "string \<Rightarrow> char \<Rightarrow> string" where
  "TrimRight1 s c = rev (dropWhile (\<lambda>x. x = c) (rev s))"

text \<open>
  \<open>strings.ToLower\<close> as far as its one use can tell: the result is compared with ASCII words, and
  besides the ASCII capitals only U+0130 and U+212A have an ASCII lower case.
\<close>

definition lower_char :: "char \<Rightarrow> char" where
  "lower_char c = (if 65 \<le> (of_char c :: nat) \<and> (of_char c :: nat) \<le> 90
     then char_of ((of_char c :: nat) + 32) else c)"

fun ToLower :: "string \<Rightarrow> string" where
  "ToLower [] = []"
| "ToLower (c # s) =
     (if c = CHR 0xC4 \<and> take 1 s = [CHR 0xB0] then CHR ''i'' # ToLower (drop 1 s)
      else if c = CHR 0xE2 \<and> take 2 s = [CHR 0x84, CHR 0xAA] then CHR ''k'' # ToLower (drop 2 s)
      else lower_char c # ToLower s)"

section \<open>Numbers\<close>

definition digit_value :: "char \<Rightarrow> int option" where
  "digit_value c = (let n = (of_char c :: int) in if 48 \<le> n \<and> n \<le> 57 then Some (n - 48) else None)"

fun digits_value :: "int \<Rightarrow> string \<Rightarrow> int option" where
  "digits_value acc [] = Some acc"
| "digits_value acc (c # s) =
     (case digit_value c of None \<Rightarrow> None | Some d \<Rightarrow> digits_value (10 * acc + d) s)"

text \<open>
  \<open>strconv.Atoi\<close>: an optional sign and decimal digits, an error (\<open>None\<close>) on a syntax error and
  on a value that does not fit the 64-bit \<open>int\<close>.
\<close>

definition unsigned_Atoi :: "int \<Rightarrow> string \<Rightarrow> int option" where
  "unsigned_Atoi sign ds =
     (if ds = [] then None
      else (case digits_value 0 ds of
          None \<Rightarrow> None
        | Some n \<Rightarrow> if int64 (sign * n) then Some (sign * n) else None))"

fun Atoi :: "string \<Rightarrow> int option" where
  "Atoi [] = None"
| "Atoi (c # s) =
     (if c = CHR ''-'' then unsigned_Atoi (- 1) s
      else if c = CHR ''+'' then unsigned_Atoi 1 s
      else unsigned_Atoi 1 (c # s))"

text \<open>Decimal digits, at least \<open>w\<close> of them, as \<open>time.Time.Format\<close> pads its fields.\<close>

fun pad_digits :: "nat \<Rightarrow> nat \<Rightarrow> string" where
  "pad_digits 0 n = (if n = 0 then [] else pad_digits 0 (n div 10) @ [char_of (48 + n mod 10)])"
| "pad_digits (Suc w) n = pad_digits w (n div 10) @ [char_of (48 + n mod 10)]"

section \<open>Facts\<close>

definition starts_none :: "string list \<Rightarrow> string \<Rightarrow> bool" where
  "starts_none ws s \<longleftrightarrow> (\<forall>w \<in> set ws. take (length w) s \<noteq> w)"

lemma head_match_0:
  assumes "[] \<notin> set ws"
  shows "head_match ws s = 0 \<longleftrightarrow> starts_none ws s"
proof (cases "find (\<lambda>w. take (length w) s = w) ws")
  case None
  from None have "starts_none ws s" by (auto simp: starts_none_def find_None_iff)
  then show ?thesis using None by (simp add: head_match_def)
next
  case (Some w)
  then have "w \<in> set ws" "take (length w) s = w"
    by (auto simp: find_Some_iff)
  then show ?thesis using assms Some by (auto simp: head_match_def starts_none_def)
qed

lemma strip_starts_none: "[] \<notin> set ws \<Longrightarrow> starts_none ws (strip ws s)"
proof (induction ws s rule: strip.induct)
  case (1 ws s)
  show ?case
  proof (cases "s = [] \<or> head_match ws s = 0")
    case True
    then have "strip ws s = s" by (simp add: strip.simps [of ws s])
    moreover have "starts_none ws s"
      using True 1(2) head_match_0 [OF 1(2), of s] by (auto simp: starts_none_def)
    ultimately show ?thesis by simp
  next
    case False
    then show ?thesis using 1 by (simp add: strip.simps [of ws s])
  qed
qed

lemma strip_starts_none_id: "[] \<notin> set ws \<Longrightarrow> starts_none ws s \<Longrightarrow> strip ws s = s"
  by (simp add: strip.simps [of ws s] head_match_0)

lemma strip_suffix: "\<exists>p. s = p @ strip ws s"
proof (induction ws s rule: strip.induct)
  case (1 ws s)
  show ?case
  proof (cases "s = [] \<or> head_match ws s = 0")
    case True
    then show ?thesis by (simp add: strip.simps [of ws s])
  next
    case False
    then obtain p where "drop (head_match ws s) s = p @ strip ws (drop (head_match ws s) s)"
      using 1 by auto
    then have "s = (take (head_match ws s) s @ p) @ strip ws s"
      using False by (metis append.assoc append_take_drop_id strip.simps)
    then show ?thesis by blast
  qed
qed

lemma starts_none_prefix: "starts_none ws (p @ q) \<Longrightarrow> starts_none ws p"
proof -
  have "take (length w) (p @ q) = w" if "take (length w) p = w" for w
  proof -
    have "length w \<le> length p" using that by (metis length_take min.cobounded1)
    with that show ?thesis by simp
  qed
  then show "starts_none ws (p @ q) \<Longrightarrow> starts_none ws p" by (auto simp: starts_none_def)
qed

lemma Nil_notin_space_runes: "[] \<notin> set space_runes" "[] \<notin> set (map rev space_runes)"
  by (simp_all add: space_runes_def)

lemma TrimSpace_idem [simp]: "TrimSpace (TrimSpace s) = TrimSpace s"
proof -
  define l where "l = trim_left s"
  define r where "r = trim_right l"
  obtain p where p: "rev l = p @ strip (map rev space_runes) (rev l)"
    using strip_suffix by blast
  then have "l = r @ rev p"
    unfolding r_def trim_right_def by (metis rev_append rev_rev_ident)
  moreover have "starts_none space_runes l"
    unfolding l_def trim_left_def by (rule strip_starts_none [OF Nil_notin_space_runes(1)])
  ultimately have "starts_none space_runes r" by (metis starts_none_prefix)
  then have "trim_left r = r"
    unfolding trim_left_def by (rule strip_starts_none_id [OF Nil_notin_space_runes(1)])
  moreover have "trim_right r = r"
    unfolding r_def trim_right_def rev_rev_ident
    by (simp only: strip_starts_none_id [OF Nil_notin_space_runes(2)
          strip_starts_none [OF Nil_notin_space_runes(2)]])
  ultimately show ?thesis by (simp add: TrimSpace_def l_def r_def)
qed

lemma TrimSpace_Nil [simp]: "TrimSpace [] = []"
  by (simp add: TrimSpace_def trim_left_def trim_right_def strip.simps)

lemma unsigned_Atoi_int64: "unsigned_Atoi sg ds = Some n \<Longrightarrow> int64 n"
  by (auto simp: unsigned_Atoi_def split: if_splits option.splits)

lemma Atoi_int64: "Atoi s = Some n \<Longrightarrow> int64 n"
  by (cases s) (auto dest: unsigned_Atoi_int64 split: if_splits)

lemma split_on_nonempty [simp]: "split_on c s \<noteq> []"
  by (cases s) (auto split: list.splits)

end
