(* ===== verification/GoTime.thy ===== *)
theory GoTime
  imports GoText
begin

text \<open>
  The parts of Go's \<open>time\<close> package that the program uses, for instants in UTC: the proleptic
  Gregorian calendar, the clock fields, \<open>Truncate(time.Minute)\<close>, \<open>AddDate\<close> by years and the
  RFC 3339 format. Days are counted from 0001-01-01 (day 0) inside the calendar and from
  1970-01-01 outside it.
\<close>

section \<open>The calendar\<close>

definition leap_year :: "int \<Rightarrow> bool" where
  "leap_year y \<longleftrightarrow> y mod 4 = 0 \<and> (y mod 100 \<noteq> 0 \<or> y mod 400 = 0)"

definition days_before_year :: "int \<Rightarrow> int" where
  "days_before_year y = 365 * (y - 1) + (y - 1) div 4 - (y - 1) div 100 + (y - 1) div 400"

definition year_of_day :: "int \<Rightarrow> int" where
  "year_of_day d =
     (let y = 400 * d div 146097 + 1
      in if d < days_before_year y then y - 1
         else if days_before_year (y + 1) \<le> d then y + 1 else y)"

definition days_before_month :: "int \<Rightarrow> int \<Rightarrow> int" where
  "days_before_month y m =
     (if m \<le> 1 then 0 else if m = 2 then 31
      else (if leap_year y then 1 else 0) +
        (if m = 3 then 59 else if m = 4 then 90 else if m = 5 then 120 else if m = 6 then 151
         else if m = 7 then 181 else if m = 8 then 212 else if m = 9 then 243
         else if m = 10 then 273 else if m = 11 then 304 else if m = 12 then 334 else 365))"

definition month_of_yday :: "int \<Rightarrow> int \<Rightarrow> int" where
  "month_of_yday y yd =
     (if yd < days_before_month y 2 then 1 else if yd < days_before_month y 3 then 2
      else if yd < days_before_month y 4 then 3 else if yd < days_before_month y 5 then 4
      else if yd < days_before_month y 6 then 5 else if yd < days_before_month y 7 then 6
      else if yd < days_before_month y 8 then 7 else if yd < days_before_month y 9 then 8
      else if yd < days_before_month y 10 then 9 else if yd < days_before_month y 11 then 10
      else if yd < days_before_month y 12 then 11 else 12)"

text \<open>Day 0 of the Unix epoch is day 719162 since 0001-01-01.\<close>

definition date_to_days :: "int \<Rightarrow> int \<Rightarrow> int \<Rightarrow> int" where
  "date_to_days y m d = days_before_year y + days_before_month y m + (d - 1) - 719162"

definition days_to_date :: "int \<Rightarrow> int \<times> int \<times> int" where
  "days_to_date n =
     (let d = n + 719162; y = year_of_day d; yd = d - days_before_year y; m = month_of_yday y yd
      in (y, m, yd - days_before_month y m + 1))"

section \<open>Fields of an instant\<close>

definition Year :: "instant \<Rightarrow> int" where
  "Year t = fst (days_to_date (t div day_ns))"

definition Month :: "instant \<Rightarrow> int" where
  "Month t = fst (snd (days_to_date (t div day_ns)))"

definition Day :: "instant \<Rightarrow> int" where
  "Day t = snd (snd (days_to_date (t div day_ns)))"

definition Hour :: "instant \<Rightarrow> int" where
  "Hour t = t div hour_ns mod 24"

definition Minute :: "instant \<Rightarrow> int" where
  "Minute t = t div minute_ns mod 60"

definition Second :: "instant \<Rightarrow> int" where
  "Second t = t div second mod 60"

text \<open>Sunday is 0; 1970-01-01 was a Thursday.\<close>

definition Weekday :: "instant \<Rightarrow> int" where
  "Weekday t = (t div day_ns + 4) mod 7"

definition truncate_minute :: "instant \<Rightarrow> instant" where
  "truncate_minute t = t - t mod minute_ns"

text \<open>\<open>AddDate(k, 0, 0)\<close>: the same day \<open>k\<close> years later, 29 February becoming 1 March.\<close>

definition add_years :: "int \<Rightarrow> instant \<Rightarrow> instant" where
  "add_years k t = date_to_days (Year t + k) (Month t) (Day t) * day_ns + t mod day_ns"

definition format_year :: "int \<Rightarrow> string" where
  "format_year y = (if y < 0 then CHR ''-'' # pad_digits 4 (nat (- y)) else pad_digits 4 (nat y))"

text \<open>The layout \<open>time.RFC3339\<close> of an instant in UTC.\<close>

definition format_RFC3339 :: "instant \<Rightarrow> string" where
  "format_RFC3339 t =
     format_year (Year t) @ ''-'' @ pad_digits 2 (nat (Month t)) @ ''-'' @ pad_digits 2 (nat (Day t)) @
     ''T'' @ pad_digits 2 (nat (Hour t)) @ '':'' @ pad_digits 2 (nat (Minute t)) @ '':'' @
     pad_digits 2 (nat (Second t)) @ ''Z''"

section \<open>Correctness of the calendar\<close>

lemma div_pred:
  fixes y k :: int
  assumes "0 < k"
  shows "y div k = (y - 1) div k + (if y mod k = 0 then 1 else 0)"
proof (cases "y mod k = 0")
  case True
  have "(y - 1) div k = y div k - 1"
    by (rule int_div_pos_eq [where r = "k - 1"])
      (use True assms div_mult_mod_eq [of y k] in \<open>simp_all add: algebra_simps\<close>)
  then show ?thesis using True by simp
next
  case False
  have "0 \<le> y mod k" "y mod k < k" using assms by simp_all
  then have "(y - 1) div k = y div k"
    by (intro int_div_pos_eq [where r = "y mod k - 1"])
      (use False div_mult_mod_eq [of y k] in \<open>simp_all add: algebra_simps\<close>)
  then show ?thesis using False by simp
qed

lemma leap_year_mods: "(y::int) mod 100 = 0 \<Longrightarrow> y mod 4 = 0" "(y::int) mod 400 = 0 \<Longrightarrow> y mod 100 = 0"
  using mod_mod_cancel [of 4 100 y] mod_mod_cancel [of 100 400 y] by simp_all

lemma days_before_year_next:
  "days_before_year (y + 1) = days_before_year y + (if leap_year y then 366 else 365)"
proof -
  have d: "y div 4 = (y - 1) div 4 + (if y mod 4 = 0 then 1 else 0)"
    "y div 100 = (y - 1) div 100 + (if y mod 100 = 0 then 1 else 0)"
    "y div 400 = (y - 1) div 400 + (if y mod 400 = 0 then 1 else 0)"
    by (rule div_pred, simp)+
  have "days_before_year (y + 1) = 365 * y + y div 4 - y div 100 + y div 400"
    by (simp add: days_before_year_def)
  also have "\<dots> = days_before_year y + 365 + (if y mod 4 = 0 then 1 else 0) -
      (if y mod 100 = 0 then 1 else 0) + (if y mod 400 = 0 then 1 else 0)"
    unfolding d days_before_year_def by simp
  also have "\<dots> = days_before_year y + (if leap_year y then 366 else 365)"
    using leap_year_mods [of y] unfolding leap_year_def
    by (cases "y mod 4 = 0"; cases "y mod 100 = 0"; cases "y mod 400 = 0") simp_all
  finally show ?thesis .
qed

lemma div_bounds:
  fixes z k :: int
  assumes "0 < k"
  shows "k * (z div k) \<le> z" "z < k * (z div k) + k"
proof -
  have "0 \<le> z mod k" "z mod k < k" using assms by simp_all
  then show "k * (z div k) \<le> z" "z < k * (z div k) + k"
    using mult_div_mod_eq [of k z] by linarith+
qed

lemma days_before_year_bounds:
  "146097 * (y - 1) - 700 \<le> 400 * days_before_year y"
  "400 * days_before_year y \<le> 146097 * (y - 1) + 400"
proof -
  define z where "z = y - 1"
  have b: "4 * (z div 4) \<le> z" "z < 4 * (z div 4) + 4" "100 * (z div 100) \<le> z"
    "z < 100 * (z div 100) + 100" "400 * (z div 400) \<le> z" "z < 400 * (z div 400) + 400"
    by (rule div_bounds, simp)+
  have e: "days_before_year y = 365 * z + z div 4 - z div 100 + z div 400"
    by (simp add: days_before_year_def z_def)
  have "146097 * z - 700 \<le> 400 * days_before_year y" using b unfolding e by (simp add: algebra_simps)
  then show "146097 * (y - 1) - 700 \<le> 400 * days_before_year y" by (simp add: z_def)
  have "400 * days_before_year y \<le> 146097 * z + 400" using b unfolding e by (simp add: algebra_simps)
  then show "400 * days_before_year y \<le> 146097 * (y - 1) + 400" by (simp add: z_def)
qed

lemma year_of_day_bounds:
  "days_before_year (year_of_day d) \<le> d" "d < days_before_year (year_of_day d + 1)"
proof -
  define y where "y = 400 * d div 146097 + 1"
  have y: "146097 * (y - 1) \<le> 400 * d" "400 * d < 146097 * (y - 1) + 146097"
    using div_bounds [of 146097 "400 * d"] by (simp_all add: y_def)
  have "days_before_year (y - 1) \<le> d"
    using y days_before_year_bounds(2) [of "y - 1"] by (simp add: algebra_simps)
  moreover have "d < days_before_year (y + 2)"
    using y days_before_year_bounds(1) [of "y + 2"] by (simp add: algebra_simps)
  ultimately show "days_before_year (year_of_day d) \<le> d" "d < days_before_year (year_of_day d + 1)"
    unfolding year_of_day_def Let_def y_def [symmetric] by (auto simp: add.commute)
qed

lemma date_to_days_to_date:
  "(case days_to_date n of (y, m, d) \<Rightarrow> date_to_days y m d) = n"
  by (simp add: days_to_date_def Let_def date_to_days_def)

lemma days_to_date_inj: "days_to_date n = days_to_date k \<Longrightarrow> n = k"
  by (metis date_to_days_to_date)

lemma month_of_yday_bounds: "1 \<le> month_of_yday y yd" "month_of_yday y yd \<le> 12"
  by (simp_all add: month_of_yday_def)

lemma days_before_month_eqs:
  "days_before_month y 1 = 0" "days_before_month y 2 = 31"
  "days_before_month y 3 = (if leap_year y then 60 else 59)"
  "days_before_month y 4 = (if leap_year y then 91 else 90)"
  "days_before_month y 5 = (if leap_year y then 121 else 120)"
  "days_before_month y 6 = (if leap_year y then 152 else 151)"
  "days_before_month y 7 = (if leap_year y then 182 else 181)"
  "days_before_month y 8 = (if leap_year y then 213 else 212)"
  "days_before_month y 9 = (if leap_year y then 244 else 243)"
  "days_before_month y 10 = (if leap_year y then 274 else 273)"
  "days_before_month y 11 = (if leap_year y then 305 else 304)"
  "days_before_month y 12 = (if leap_year y then 335 else 334)"
  by (simp_all add: days_before_month_def)

lemma day_of_month_bounds:
  assumes "0 \<le> yd" and "yd < (if leap_year y then 366 else 365)"
  shows "0 \<le> yd - days_before_month y (month_of_yday y yd)"
    and "yd - days_before_month y (month_of_yday y yd) < 31"
  using assms by (cases "leap_year y"; simp add: month_of_yday_def days_before_month_eqs)+

lemma Month_bounds: "1 \<le> Month t" "Month t \<le> 12"
  by (simp_all add: Month_def days_to_date_def Let_def month_of_yday_bounds)

lemma Day_bounds: "1 \<le> Day t" "Day t \<le> 31"
proof -
  define d where "d = t div day_ns + 719162"
  define yd where "yd = d - days_before_year (year_of_day d)"
  have "0 \<le> yd" "yd < (if leap_year (year_of_day d) then 366 else 365)"
    using year_of_day_bounds [of d] days_before_year_next [of "year_of_day d"]
    by (auto simp: yd_def)
  note b = day_of_month_bounds [OF this]
  have "Day t = yd - days_before_month (year_of_day d) (month_of_yday (year_of_day d) yd) + 1"
    by (simp add: Day_def days_to_date_def Let_def d_def yd_def)
  with b show "1 \<le> Day t" "Day t \<le> 31" by simp_all
qed

lemma clock_bounds:
  "0 \<le> Hour t" "Hour t < 24" "0 \<le> Minute t" "Minute t < 60" "0 \<le> Second t" "Second t < 60"
  "0 \<le> Weekday t" "Weekday t < 7"
  by (simp_all add: Hour_def Minute_def Second_def Weekday_def)

section \<open>Minute arithmetic\<close>

lemma truncate_minute_dvd: "minute_ns dvd truncate_minute t"
  by (simp add: truncate_minute_def)

lemma truncate_minute_bounds: "truncate_minute t \<le> t" "t < truncate_minute t + minute_ns"
  using pos_mod_bound [of minute_ns t] by (simp_all add: truncate_minute_def)

lemma truncate_minute_id [simp]: "minute_ns dvd t \<Longrightarrow> truncate_minute t = t"
  by (simp add: truncate_minute_def)

section \<open>The RFC 3339 format determines the instant\<close>

fun read_digits :: "string \<Rightarrow> nat" where
  "read_digits s = foldl (\<lambda>n c. 10 * n + (of_char c - 48)) 0 s"

lemma read_pad_digits: "read_digits (pad_digits w n) = n"
proof (induction w n rule: pad_digits.induct)
  case (1 n)
  have "n mod 10 < 256 - 48" by simp
  then show ?case using 1 by (cases "n = 0") (simp_all add: of_char_of take_bit_nat_eq_self)
next
  case (2 w n)
  then show ?case by (simp add: of_char_of take_bit_nat_eq_self)
qed

lemma pad_digits_inj: "pad_digits w n = pad_digits v k \<Longrightarrow> n = k"
  by (metis read_pad_digits)

lemma length_pad_digits_2: "n < 100 \<Longrightarrow> length (pad_digits 2 n) = 2"
  by (simp add: numeral_2_eq_2)

definition seconds_of :: "instant \<Rightarrow> int" where
  "seconds_of t = t div second"

lemma clock_of_seconds:
  "t div day_ns = seconds_of t div 60 div 60 div 24"
  "Hour t = seconds_of t div 60 div 60 mod 24"
  "Minute t = seconds_of t div 60 mod 60"
  "Second t = seconds_of t mod 60"
  unfolding seconds_of_def Hour_def Minute_def Second_def
  by (simp_all flip: zdiv_zmult2_eq)

lemma seconds_of_clock:
  "seconds_of t = ((t div day_ns * 24 + Hour t) * 60 + Minute t) * 60 + Second t"
  unfolding clock_of_seconds by simp

lemma format_RFC3339_inj:
  assumes "format_RFC3339 t = format_RFC3339 u" and "0 \<le> Year t" and "0 \<le> Year u"
  shows "seconds_of t = seconds_of u"
proof -
  define tail where "tail v = ''-'' @ pad_digits 2 (nat (Month v)) @ ''-'' @ pad_digits 2 (nat (Day v)) @
     ''T'' @ pad_digits 2 (nat (Hour v)) @ '':'' @ pad_digits 2 (nat (Minute v)) @ '':'' @
     pad_digits 2 (nat (Second v)) @ ''Z''" for v
  have len: "length (pad_digits 2 (nat (Month v))) = 2" "length (pad_digits 2 (nat (Day v))) = 2"
    "length (pad_digits 2 (nat (Hour v))) = 2" "length (pad_digits 2 (nat (Minute v))) = 2"
    "length (pad_digits 2 (nat (Second v))) = 2" for v
    using Month_bounds [of v] Day_bounds [of v] clock_bounds [of v]
    by (simp_all add: length_pad_digits_2)
  have "format_year (Year t) @ tail t = format_year (Year u) @ tail u"
    using assms(1) by (simp add: format_RFC3339_def tail_def)
  moreover have "length (tail t) = length (tail u)"
    by (simp add: tail_def len)
  ultimately have y: "format_year (Year t) = format_year (Year u)" and tl: "tail t = tail u"
    by simp_all
  have "Year t = Year u"
    using y assms(2,3) pad_digits_inj by (fastforce simp: format_year_def)
  moreover have nats: "nat (Month t) = nat (Month u)" "nat (Day t) = nat (Day u)"
    "nat (Hour t) = nat (Hour u)" "nat (Minute t) = nat (Minute u)" "nat (Second t) = nat (Second u)"
    using tl by (simp_all add: tail_def len) (blast dest: pad_digits_inj)+
  moreover have "0 \<le> Month v" "0 \<le> Day v" for v
    using Month_bounds(1) [of v] Day_bounds(1) [of v] by simp_all
  then have "Month t = Month u" "Day t = Day u" "Hour t = Hour u" "Minute t = Minute u"
    "Second t = Second u"
    using nats by (simp_all add: eq_nat_nat_iff clock_bounds)
  moreover have "t div day_ns = u div day_ns"
    using \<open>Year t = Year u\<close> \<open>Month t = Month u\<close> \<open>Day t = Day u\<close>
    by (intro days_to_date_inj) (simp add: Year_def Month_def Day_def prod_eq_iff)
  ultimately show ?thesis by (simp add: seconds_of_clock)
qed

end
