(* ===== verification/Cronexpr.thy ===== *)
theory Cronexpr
  imports GoTime
begin

text \<open>
  \<open>internal/cronexpr/cronexpr.go\<close>: parsing of 5-field cron expressions and the search for the
  next matching minute. The counting loop of \<open>parseField\<close> works on Go's 64-bit \<open>int\<close>, so
  \<open>value += step\<close> is written with its wrap-around; since such a loop may run for ever, it is a
  partial function and \<open>None\<close> means that it does not return. \<open>Parse_returns\<close> shows that it
  always does on what the program passes. Errors keep the data that the source prints.
\<close>

section \<open>Definitions\<close>

datatype cron_error =
    FieldCount
  | InField string cron_error
  | EmptyField
  | EmptyListItem
  | BadStepSyntax string
  | BadStep string
  | BadRange string
  | RangeBackwards string
  | BadValue string
  | OutsideRange int int int
  | NoValues
  | NoMatchingTime

record field =
  f_values :: "int set"
  f_all :: bool

record schedule =
  s_minute :: field
  s_hour :: field
  s_dom :: field
  s_month :: field
  s_dow :: field

definition identity :: "int \<Rightarrow> cron_error + int" where
  "identity val = Inr val"

definition normalizeDOW :: "int \<Rightarrow> cron_error + int" where
  "normalizeDOW val = (if val = 7 then Inr 0 else Inr val)"

definition parseBound :: "string \<Rightarrow> int \<Rightarrow> int \<Rightarrow> cron_error + int" where
  "parseBound raw minValue maxValue =
     (case Atoi raw of
        None \<Rightarrow> Inl (BadValue raw)
      | Some val \<Rightarrow>
          if val < minValue \<or> val > maxValue then Inl (OutsideRange val minValue maxValue)
          else Inr val)"

definition parseRange :: "string \<Rightarrow> int \<Rightarrow> int \<Rightarrow> cron_error + int \<times> int" where
  "parseRange raw minValue maxValue =
     (if raw = ''*'' then Inr (minValue, maxValue)
      else if CHR ''-'' \<in> set raw then
        (case split_on (CHR ''-'') raw of
           [a, b] \<Rightarrow>
             if a = [] \<or> b = [] then Inl (BadRange raw)
             else (case parseBound a minValue maxValue of
                 Inl e \<Rightarrow> Inl e
               | Inr start \<Rightarrow>
                   (case parseBound b minValue maxValue of
                      Inl e \<Rightarrow> Inl e
                    | Inr end \<Rightarrow> if end < start then Inl (RangeBackwards raw) else Inr (start, end)))
         | _ \<Rightarrow> Inl (BadRange raw))
      else (case parseBound raw minValue maxValue of Inl e \<Rightarrow> Inl e | Inr val \<Rightarrow> Inr (val, val)))"

text \<open>The part of \<open>parseField\<close>'s loop body that separates the range from the step.\<close>

definition parseStep :: "string \<Rightarrow> cron_error + string \<times> int" where
  "parseStep part =
     (if CHR ''/'' \<in> set part then
        (case split_on (CHR ''/'') part of
           [a, b] \<Rightarrow>
             if a = [] \<or> b = [] then Inl (BadStepSyntax part)
             else (case Atoi b of
                 None \<Rightarrow> Inl (BadStep b)
               | Some parsedStep \<Rightarrow> if parsedStep \<le> 0 then Inl (BadStep b) else Inr (a, parsedStep))
         | _ \<Rightarrow> Inl (BadStepSyntax part))
      else Inr (part, 1))"

partial_function (option) fill_values ::
  "(int \<Rightarrow> cron_error + int) \<Rightarrow> int \<Rightarrow> int \<Rightarrow> int \<Rightarrow> int set \<Rightarrow> (cron_error + int set) option" where
  "fill_values nrm val end step vs =
     (if val \<le> end then
        (case nrm val of
           Inl e \<Rightarrow> Some (Inl e)
         | Inr n \<Rightarrow> fill_values nrm (wrap64 (val + step)) end step (insert n vs))
      else Some (Inr vs))"

declare fill_values.simps [code]

fun parse_items ::
  "(int \<Rightarrow> cron_error + int) \<Rightarrow> int \<Rightarrow> int \<Rightarrow> string list \<Rightarrow> int set \<Rightarrow> (cron_error + int set) option" where
  "parse_items nrm minValue maxValue [] vs = Some (Inr vs)"
| "parse_items nrm minValue maxValue (part # parts) vs =
     (if part = [] then Some (Inl EmptyListItem)
      else (case parseStep part of
          Inl e \<Rightarrow> Some (Inl e)
        | Inr (rangePart, step) \<Rightarrow>
            (case parseRange rangePart minValue maxValue of
               Inl e \<Rightarrow> Some (Inl e)
             | Inr (start, end) \<Rightarrow>
                 (case fill_values nrm start end step vs of
                    None \<Rightarrow> None
                  | Some (Inl e) \<Rightarrow> Some (Inl e)
                  | Some (Inr vs') \<Rightarrow> parse_items nrm minValue maxValue parts vs'))))"

definition parseField ::
  "string \<Rightarrow> int \<Rightarrow> int \<Rightarrow> (int \<Rightarrow> cron_error + int) \<Rightarrow> (cron_error + field) option" where
  "parseField raw minValue maxValue nrm =
     (if raw = [] then Some (Inl EmptyField)
      else (case parse_items nrm minValue maxValue (split_on (CHR '','') raw) {} of
          None \<Rightarrow> None
        | Some (Inl e) \<Rightarrow> Some (Inl e)
        | Some (Inr vs) \<Rightarrow>
            if vs = {} then Some (Inl NoValues)
            else Some (Inr \<lparr>f_values = vs, f_all = (raw = ''*'')\<rparr>)))"

text \<open>\<open>Parse\<close> checks one field after the other; \<open>in_field\<close> is its repeated early return.\<close>

definition in_field ::
  "string \<Rightarrow> (cron_error + field) option \<Rightarrow> (field \<Rightarrow> (cron_error + 'a) option) \<Rightarrow> (cron_error + 'a) option" where
  "in_field name r k =
     (case r of None \<Rightarrow> None | Some (Inl e) \<Rightarrow> Some (Inl (InField name e)) | Some (Inr f) \<Rightarrow> k f)"

definition Parse :: "string \<Rightarrow> (cron_error + schedule) option" where
  "Parse expr =
     (case Fields expr of
        [p0, p1, p2, p3, p4] \<Rightarrow>
          in_field ''minute field'' (parseField p0 0 59 identity) (\<lambda>minute.
          in_field ''hour field'' (parseField p1 0 23 identity) (\<lambda>hour.
          in_field ''day-of-month field'' (parseField p2 1 31 identity) (\<lambda>dom.
          in_field ''month field'' (parseField p3 1 12 identity) (\<lambda>month.
          in_field ''day-of-week field'' (parseField p4 0 7 normalizeDOW) (\<lambda>dow.
            Some (Inr \<lparr>s_minute = minute, s_hour = hour, s_dom = dom, s_month = month, s_dow = dow\<rparr>))))))
      | _ \<Rightarrow> Some (Inl FieldCount))"

definition field_matches :: "field \<Rightarrow> int \<Rightarrow> bool" where
  "field_matches f val \<longleftrightarrow> val \<in> f_values f"

definition matches :: "schedule \<Rightarrow> instant \<Rightarrow> bool" where
  "matches s t =
     (if \<not> field_matches (s_minute s) (Minute t) \<or> \<not> field_matches (s_hour s) (Hour t) \<or>
         \<not> field_matches (s_month s) (Month t) then False
      else
        (let domMatches = field_matches (s_dom s) (Day t);
             dowMatches = field_matches (s_dow s) (Weekday t)
         in if f_all (s_dom s) \<and> f_all (s_dow s) then True
            else if f_all (s_dom s) then dowMatches
            else if f_all (s_dow s) then domMatches
            else domMatches \<or> dowMatches))"

function first_match :: "schedule \<Rightarrow> instant \<Rightarrow> instant \<Rightarrow> instant option" where
  "first_match s candidate deadline =
     (if candidate \<le> deadline then
        if matches s candidate then Some candidate
        else first_match s (candidate + minute_ns) deadline
      else None)"
  by pat_completeness auto
termination
  by (relation "measure (\<lambda>(s, candidate, deadline). nat (deadline - candidate + 1))") auto

declare first_match.simps [simp del]

definition schedule_Next :: "schedule \<Rightarrow> instant \<Rightarrow> cron_error + instant" where
  "schedule_Next s after =
     (let start = truncate_minute after + minute_ns;
          deadline = add_years 5 start
      in case first_match s start deadline of
           Some candidate \<Rightarrow> Inr candidate
         | None \<Rightarrow> Inl NoMatchingTime)"

definition Next :: "string \<Rightarrow> instant \<Rightarrow> (cron_error + instant) option" where
  "Next expr after =
     (case Parse expr of
        None \<Rightarrow> None
      | Some (Inl e) \<Rightarrow> Some (Inl e)
      | Some (Inr s) \<Rightarrow> Some (schedule_Next s after))"

section \<open>The counting loop returns\<close>

text \<open>
  A step \<open>s\<close> below \<open>2 ^ 63 - end\<close> never overflows, and the loop counts up to \<open>end\<close>. A larger step
  wraps around to a negative value and comes back \<open>2 * (2 ^ 63 - s)\<close> below where it was, so the
  loop counts down until the next addition stays positive.
\<close>

lemma fill_values_no_overflow:
  assumes "\<And>v. nrm v = Inr (g v)" and "1 \<le> step" and "step < 2 ^ 63 - end" and "end < 2 ^ 62"
    and "- (2 ^ 62) \<le> val"
  shows "fill_values nrm val end step vs =
    Some (Inr (vs \<union> g ` {v. val \<le> v \<and> v \<le> end \<and> step dvd (v - val)}))"
  using assms(5)
proof (induction "nat (end - val + 1)" arbitrary: val vs rule: less_induct)
  case less
  show ?case
  proof (cases "val \<le> end")
    case False
    then show ?thesis by (auto simp: fill_values.simps [of nrm val])
  next
    case True
    have w: "wrap64 (val + step) = val + step"
      by (rule wrap64_id) (use True less.prems assms in \<open>simp add: int64_def\<close>)
    have split: "{v. val \<le> v \<and> v \<le> end \<and> step dvd (v - val)} =
      insert val {v. val + step \<le> v \<and> v \<le> end \<and> step dvd (v - (val + step))}"
      (is "?A = insert val ?B")
    proof (intro set_eqI iffI)
      fix v assume v: "v \<in> ?A"
      have d: "step dvd (v - (val + step))" using v dvd_diff [of step "v - val" step] by (simp add: algebra_simps)
      have "v = val \<or> val + step \<le> v" using v zdvd_imp_le [of step "v - val"] by (cases "v = val") auto
      with v d show "v \<in> insert val ?B" by auto
    next
      fix v assume v: "v \<in> insert val ?B"
      have "step dvd (v - val)" if "v \<in> ?B"
        using that dvd_add [of step "v - (val + step)" step] by (simp add: algebra_simps)
      with v True assms(2) show "v \<in> ?A" by auto
    qed
    have "fill_values nrm val end step vs =
        fill_values nrm (val + step) end step (insert (g val) vs)"
      using True w assms(1) by (simp add: fill_values.simps [of nrm val])
    also have "\<dots> = Some (Inr (insert (g val) vs \<union>
        g ` {v. val + step \<le> v \<and> v \<le> end \<and> step dvd (v - (val + step))}))"
      by (rule less.hyps) (use True assms(2) less.prems in simp_all)
    also have "insert (g val) vs \<union> g ` ?B = vs \<union> g ` ?A" unfolding split by auto
    finally show ?thesis .
  qed
qed

lemma fill_values_overflow:
  assumes "\<And>v. nrm v = Inr (g v)" and "0 \<le> end" and "end < 2 ^ 60"
    and "2 ^ 63 - end \<le> step" and "step < 2 ^ 63"
    and "- (2 ^ 63 - step) \<le> val" and "val \<le> end"
  shows "\<exists>vs'. fill_values nrm val end step vs = Some (Inr vs')"
  using assms(6,7)
proof (induction "nat (val + 2 ^ 63)" arbitrary: val vs rule: less_induct)
  case less
  show ?case
  proof (cases "val + step < 2 ^ 63")
    case True
    then have "wrap64 (val + step) = val + step"
      by (intro wrap64_id) (use less.prems assms in \<open>simp add: int64_def\<close>)
    moreover have "end < val + step" using less.prems assms by simp
    ultimately show ?thesis
      using less.prems assms(1)
      by (simp add: fill_values.simps [of nrm val] fill_values.simps [of nrm "val + step"])
  next
    case False
    define low where "low = val + step - 2 ^ 64"
    have w1: "wrap64 (val + step) = low"
      unfolding low_def by (rule wrap64_high) (use False less.prems assms in simp_all)
    have w2: "wrap64 (low + step) = low + step"
      unfolding low_def by (rule wrap64_id) (use False less.prems assms in \<open>simp add: int64_def\<close>)
    have "low \<le> end" unfolding low_def using less.prems assms by simp
    then have step2: "fill_values nrm val end step vs =
        fill_values nrm (low + step) end step (insert (g low) (insert (g val) vs))"
      using less.prems assms(1) w1 w2
      by (simp add: fill_values.simps [of nrm val] fill_values.simps [of nrm low])
    show ?thesis
      unfolding step2
      by (rule less.hyps) (use False less.prems assms in \<open>simp_all add: low_def\<close>)
  qed
qed

lemma fill_values_returns:
  assumes "\<And>v. nrm v = Inr (g v)" and "0 \<le> end" and "end < 2 ^ 60" and "0 \<le> val"
    and "1 \<le> step" and "step < 2 ^ 63"
  shows "\<exists>vs'. fill_values nrm val end step vs = Some (Inr vs')"
proof (cases "step < 2 ^ 63 - end")
  case True
  then show ?thesis using assms by (simp add: fill_values_no_overflow)
next
  case False
  show ?thesis
  proof (cases "val \<le> end")
    case True
    then show ?thesis using False assms by (intro fill_values_overflow) simp_all
  next
    case gt: False
    then show ?thesis by (simp add: fill_values.simps)
  qed
qed

section \<open>Parsing returns\<close>

lemma parseBound_range:
  "parseBound raw lo hi = Inr v \<Longrightarrow> lo \<le> v \<and> v \<le> hi"
  by (auto simp: parseBound_def split: option.splits if_splits)

lemma parseRange_range:
  "parseRange raw lo hi = Inr (a, b) \<Longrightarrow> lo \<le> hi \<Longrightarrow> lo \<le> a \<and> a \<le> b \<and> b \<le> hi"
  by (auto simp: parseRange_def dest!: parseBound_range split: list.splits sum.splits if_splits)

lemma parseStep_range:
  "parseStep part = Inr (r, step) \<Longrightarrow> 1 \<le> step \<and> step < 2 ^ 63"
  by (auto simp: parseStep_def int64_def dest!: Atoi_int64 split: list.splits option.splits if_splits)

text \<open>The two normalisations never fail; \<open>total_normalize\<close> is what the loop lemmas need of them.\<close>

definition total_normalize :: "(int \<Rightarrow> cron_error + int) \<Rightarrow> (int \<Rightarrow> int) \<Rightarrow> bool" where
  "total_normalize nrm g \<longleftrightarrow> (\<forall>v. nrm v = Inr (g v))"

lemma total_identity: "total_normalize identity (\<lambda>v. v)"
  by (simp add: total_normalize_def identity_def)

lemma total_normalizeDOW: "total_normalize normalizeDOW (\<lambda>v. if v = 7 then 0 else v)"
  by (simp add: total_normalize_def normalizeDOW_def)

lemma parse_items_returns:
  assumes "total_normalize nrm g" and "0 \<le> lo" and "lo \<le> hi" and "hi < 2 ^ 60"
  shows "\<exists>r. parse_items nrm lo hi parts vs = Some r"
proof (induction parts arbitrary: vs)
  case Nil
  then show ?case by simp
next
  case (Cons part parts)
  show ?case
  proof (cases "parseStep part")
    case (Inr a)
    obtain r step where a: "a = (r, step)" by (cases a)
    have st: "1 \<le> step" "step < 2 ^ 63" using Inr a parseStep_range by auto
    show ?thesis
    proof (cases "parseRange r lo hi")
      case range: (Inr b)
      obtain x y where b: "b = (x, y)" by (cases b)
      have xy: "lo \<le> x" "x \<le> y" "y \<le> hi" using range b parseRange_range assms(3) by blast+
      obtain vs' where "fill_values nrm x y step vs = Some (Inr vs')"
        using fill_values_returns [of nrm g y x step vs] assms xy st
        by (auto simp: total_normalize_def)
      then show ?thesis using Inr a range b Cons by simp
    qed (use Inr a in simp)
  qed simp
qed

lemma parseField_returns:
  assumes "total_normalize nrm g" and "0 \<le> lo" and "lo \<le> hi" and "hi < 2 ^ 60"
  shows "\<exists>r. parseField raw lo hi nrm = Some r"
  using parse_items_returns [OF assms, of "split_on (CHR '','') raw" "{}"]
  by (auto simp: parseField_def split: sum.splits)

lemma in_field_returns:
  assumes "\<exists>r. p = Some r" and "\<And>f. \<exists>r. k f = Some r"
  shows "\<exists>r. in_field name p k = Some r"
  using assms by (auto simp: in_field_def split: sum.splits)

lemma Parse_returns_aux: "\<exists>r. Parse expr = Some r"
proof -
  note fields = in_field_returns [OF parseField_returns [OF total_identity]]
    in_field_returns [OF parseField_returns [OF total_normalizeDOW]]
  show ?thesis
    unfolding Parse_def
    by (auto split: list.split intro!: fields)
qed

text \<open>
  \<open>cron_next\<close> is \<open>Next\<close> as the store sees it, a value or an error: by \<open>Parse_returns_aux\<close> the
  default is never used.
\<close>

definition cron_next :: "string \<Rightarrow> instant \<Rightarrow> cron_error + instant" where
  "cron_next expr after = (case Next expr after of Some r \<Rightarrow> r | None \<Rightarrow> Inl FieldCount)"

lemma Next_cron_next: "Next expr after = Some (cron_next expr after)"
  using Parse_returns_aux [of expr]
  by (auto simp: Next_def cron_next_def split: sum.splits option.splits)

section \<open>The parsed sets\<close>

text \<open>The specification of one list item: the values from \<open>a\<close> to \<open>b\<close> in steps of \<open>step\<close>.\<close>

definition stepped :: "int \<Rightarrow> int \<Rightarrow> int \<Rightarrow> int set" where
  "stepped a b step = {v. a \<le> v \<and> v \<le> b \<and> step dvd (v - a)}"

fun item_values :: "int \<Rightarrow> int \<Rightarrow> string \<Rightarrow> (cron_error + int set)" where
  "item_values lo hi part =
     (if part = [] then Inl EmptyListItem
      else (case parseStep part of
          Inl e \<Rightarrow> Inl e
        | Inr (r, step) \<Rightarrow>
            (case parseRange r lo hi of Inl e \<Rightarrow> Inl e | Inr (a, b) \<Rightarrow> Inr (stepped a b step))))"

text \<open>Steps that cannot overflow: every one below \<open>2 ^ 63 - hi\<close>.\<close>

definition small_step :: "int \<Rightarrow> string \<Rightarrow> bool" where
  "small_step hi part \<longleftrightarrow> (\<forall>r step. parseStep part = Inr (r, step) \<longrightarrow> step < 2 ^ 63 - hi)"

lemma parse_items_values:
  assumes "total_normalize nrm g" and "0 \<le> lo" and "lo \<le> hi" and "hi < 2 ^ 60"
    and "\<forall>part \<in> set parts. small_step hi part"
    and "\<forall>part \<in> set parts. \<exists>s. item_values lo hi part = Inr s"
  shows "parse_items nrm lo hi parts vs =
    Some (Inr (vs \<union> g ` (\<Union>part \<in> set parts. projr (item_values lo hi part))))"
  using assms(5,6)
proof (induction parts arbitrary: vs)
  case Nil
  then show ?case by simp
next
  case (Cons part parts)
  then obtain r step a b where p: "part \<noteq> []" "parseStep part = Inr (r, step)"
      "parseRange r lo hi = Inr (a, b)"
    by (auto split: if_splits sum.splits prod.splits)
  have st: "1 \<le> step" "step < 2 ^ 63 - hi"
    using p(2) parseStep_range Cons.prems(1) by (auto simp: small_step_def)
  have ab: "lo \<le> a" "a \<le> b" "b \<le> hi" using p(3) parseRange_range assms(3) by blast+
  have "fill_values nrm a b step vs = Some (Inr (vs \<union> g ` stepped a b step))"
    unfolding stepped_def
    by (rule fill_values_no_overflow)
      (use assms(1) st ab assms(2,4) in \<open>simp_all add: total_normalize_def\<close>)
  then show ?case using p Cons by (simp add: image_Un Un_assoc)
qed

lemma stepped_range: "stepped a b step \<subseteq> {a..b}"
  by (auto simp: stepped_def)

lemma item_values_range:
  "item_values lo hi part = Inr s \<Longrightarrow> lo \<le> hi \<Longrightarrow> s \<subseteq> {lo..hi}"
  using stepped_range by (fastforce dest: parseRange_range split: if_splits sum.splits prod.splits)

section \<open>The search\<close>

lemma minute_dvd_shift: "minute_ns dvd (u - (c + minute_ns)) \<longleftrightarrow> minute_ns dvd (u - c)"
  using dvd_add [of minute_ns "u - (c + minute_ns)" minute_ns] dvd_diff [of minute_ns "u - c" minute_ns]
  by (auto simp: algebra_simps)

lemma first_match_Some:
  "first_match s c d = Some t \<Longrightarrow>
    c \<le> t \<and> t \<le> d \<and> matches s t \<and> minute_ns dvd (t - c) \<and>
    (\<forall>u. c \<le> u \<and> u < t \<and> minute_ns dvd (u - c) \<longrightarrow> \<not> matches s u)"
proof (induction s c d rule: first_match.induct)
  case (1 s c d)
  show ?case
  proof (cases "c \<le> d \<and> \<not> matches s c")
    case False
    then show ?thesis using 1(2) by (auto simp: first_match.simps [of s c d] split: if_splits)
  next
    case True
    with 1 have IH: "c + minute_ns \<le> t" "t \<le> d" "matches s t" "minute_ns dvd (t - (c + minute_ns))"
      "\<And>u. c + minute_ns \<le> u \<Longrightarrow> u < t \<Longrightarrow> minute_ns dvd (u - (c + minute_ns)) \<Longrightarrow> \<not> matches s u"
      by (simp_all add: first_match.simps [of s c d])
    have shift: "minute_ns dvd (u - (c + minute_ns)) \<longleftrightarrow> minute_ns dvd (u - c)" for u :: int
      by (rule minute_dvd_shift)
    have "\<not> matches s u" if "c \<le> u" "u < t" "minute_ns dvd (u - c)" for u
    proof (cases "u = c")
      case True
      then show ?thesis using \<open>c \<le> d \<and> \<not> matches s c\<close> by simp
    next
      case False
      then have "c + minute_ns \<le> u" using that zdvd_imp_le [of minute_ns "u - c"] by simp
      then show ?thesis using IH(5) that shift by blast
    qed
    then show ?thesis using IH shift by simp
  qed
qed

lemma first_match_None:
  "first_match s c d = None \<Longrightarrow> c \<le> u \<Longrightarrow> u \<le> d \<Longrightarrow> minute_ns dvd (u - c) \<Longrightarrow> \<not> matches s u"
proof (induction s c d rule: first_match.induct)
  case (1 s c d)
  then have c: "c \<le> d" "\<not> matches s c" "first_match s (c + minute_ns) d = None"
    by (auto simp: first_match.simps [of s c d] split: if_splits)
  show ?case
  proof (cases "u = c")
    case False
    then have "c + minute_ns \<le> u" using 1(3,5) zdvd_imp_le [of minute_ns "u - c"] by simp
    moreover have "minute_ns dvd (u - (c + minute_ns))"
      using dvd_diff [OF 1(5) dvd_refl] by (simp add: algebra_simps)
    ultimately show ?thesis using 1 c by blast
  qed (use c in simp)
qed

lemma truncate_next:
  assumes "minute_ns dvd u" and "after < u"
  shows "truncate_minute after + minute_ns \<le> u"
proof -
  have "truncate_minute after < u" using truncate_minute_bounds(1) [of after] assms(2) by simp
  then show ?thesis
    using zdvd_imp_le [OF dvd_diff [OF assms(1) truncate_minute_dvd [of after]]] by simp
qed

lemma minute_dvd_diff: "minute_ns dvd u \<Longrightarrow> minute_ns dvd (u - (truncate_minute after + minute_ns))"
  by (intro dvd_diff dvd_add truncate_minute_dvd) simp_all

section \<open>Properties\<close>

text \<open>
  What \<open>Next\<close> promises: the first matching minute strictly after \<open>after\<close>, or an error when there
  is none in the next five years.
\<close>

definition next_minute_spec :: "schedule \<Rightarrow> instant \<Rightarrow> cron_error + instant \<Rightarrow> bool" where
  "next_minute_spec s after r \<longleftrightarrow>
     (let deadline = add_years 5 (truncate_minute after + minute_ns)
      in case r of
           Inr t \<Rightarrow> after < t \<and> t \<le> deadline \<and> minute_ns dvd t \<and> matches s t \<and>
             (\<forall>u. after < u \<and> u < t \<and> minute_ns dvd u \<longrightarrow> \<not> matches s u)
         | Inl e \<Rightarrow> e = NoMatchingTime \<and>
             (\<forall>u. after < u \<and> u \<le> deadline \<and> minute_ns dvd u \<longrightarrow> \<not> matches s u))"

text \<open>
  C20. The search returns the least whole minute after the given instant that the schedule matches,
  and reports an error exactly when no minute of the five-year window matches.
\<close>

theorem schedule_Next_least: "next_minute_spec s after (schedule_Next s after)"
proof (cases "first_match s (truncate_minute after + minute_ns) (add_years 5 (truncate_minute after + minute_ns))")
  case (Some t)
  note f = first_match_Some [OF Some]
  have "minute_ns dvd t"
    using f dvd_add [of minute_ns "t - (truncate_minute after + minute_ns)" "truncate_minute after + minute_ns"]
      dvd_add [OF truncate_minute_dvd dvd_refl] by simp
  moreover have "after < t" using f truncate_minute_bounds(2) [of after] by simp
  moreover have "\<not> matches s u" if "after < u" "u < t" "minute_ns dvd u" for u
    using f that truncate_next minute_dvd_diff by blast
  ultimately show ?thesis
    using Some f by (auto simp: next_minute_spec_def schedule_Next_def Let_def)
next
  case None
  have "\<not> matches s u" if "after < u" "minute_ns dvd u"
      "u \<le> add_years 5 (truncate_minute after + minute_ns)" for u
    using first_match_None [OF None] that truncate_next minute_dvd_diff by blast
  then show ?thesis
    using None by (auto simp: next_minute_spec_def schedule_Next_def Let_def)
qed

text \<open>
  C31. Parsing and searching return for every expression, the 64-bit overflow of the step counter
  in \<open>parseField\<close> included: no expression makes the API server or the scheduler hang.
\<close>

theorem Next_returns: "\<exists>r. Next expr after = Some r"
  using Next_cron_next by blast

text \<open>
  A field whose steps are small enough not to overflow is parsed to exactly the union of its
  list items, each the values from the start to the end of its range in steps, after the
  normalisation (7 is Sunday), and \<open>all\<close> is set for \<open>*\<close> alone.
\<close>

lemma parseField_values:
  assumes "total_normalize nrm g" and "0 \<le> lo" and "lo \<le> hi" and "hi < 2 ^ 60" and "raw \<noteq> []"
    and "\<forall>part \<in> set (split_on (CHR '','') raw). small_step hi part"
    and "\<forall>part \<in> set (split_on (CHR '','') raw). \<exists>s. item_values lo hi part = Inr s"
  shows "parseField raw lo hi nrm =
    (let vs = g ` (\<Union>part \<in> set (split_on (CHR '','') raw). projr (item_values lo hi part))
     in Some (if vs = {} then Inl NoValues else Inr \<lparr>f_values = vs, f_all = (raw = ''*'')\<rparr>))"
  using parse_items_values [OF assms(1-4,6,7), of "{}"] assms(5)
  by (simp add: parseField_def Let_def)

lemma parseField_values_witness:
  "parseField ''1-9/4,30'' 0 59 identity = Some (Inr \<lparr>f_values = {1, 5, 9, 30}, f_all = False\<rparr>)"
proof -
  have parts: "split_on (CHR '','') ''1-9/4,30'' = [''1-9/4'', ''30'']" by simp
  have p1: "parseStep ''1-9/4'' = Inr (''1-9'', 4)" "parseRange ''1-9'' 0 59 = Inr (1, 9)"
    and p2: "parseStep ''30'' = Inr (''30'', 1)" "parseRange ''30'' 0 59 = Inr (30, 30)"
    by (simp_all add: parseStep_def parseRange_def parseBound_def unsigned_Atoi_def digit_value_def int64_def)
  have s1: "stepped 1 9 4 = {1, 5, 9}"
  proof -
    have "stepped 1 9 4 = {v \<in> {1..9}. 4 dvd (v - 1)}" by (auto simp: stepped_def)
    also have "\<dots> = {1, 5, 9}" by code_simp
    finally show ?thesis .
  qed
  have s2: "stepped 30 30 1 = {30}" by (auto simp: stepped_def)
  show ?thesis
    using parseField_values [OF total_identity, of 0 59 "''1-9/4,30''"]
    by (simp add: small_step_def p1 p2 s1 s2 Let_def insert_commute)
qed

text \<open>
  The counter of \<open>parseField\<close> overflows for a step of \<open>math.MaxInt64\<close>: the expression below
  asks for minute 10 only, and its parsed schedule also matches minute 8 (and 6, 4, 2 and 0).
\<close>

lemma step_overflow_matches_earlier_minutes:
  "case Parse ''10/9223372036854775807 * * * *'' of
     Some (Inr s) \<Rightarrow> field_matches (s_minute s) 10 \<and> field_matches (s_minute s) 8 \<and>
       field_matches (s_minute s) 0 \<and> \<not> field_matches (s_minute s) 9 \<and>
       projr (item_values 0 59 ''10/9223372036854775807'') \<subseteq> {10}
   | _ \<Rightarrow> False"
proof -
  have "case Parse ''10/9223372036854775807 * * * *'' of
     Some (Inr s) \<Rightarrow> field_matches (s_minute s) 10 \<and> field_matches (s_minute s) 8 \<and>
       field_matches (s_minute s) 0 \<and> \<not> field_matches (s_minute s) 9
   | _ \<Rightarrow> False"
    by code_simp
  moreover have "projr (item_values 0 59 ''10/9223372036854775807'') \<subseteq> {10}"
  proof -
    have "parseStep ''10/9223372036854775807'' = Inr (''10'', 9223372036854775807)"
      "parseRange ''10'' 0 59 = Inr (10, 10)" by code_simp+
    then show ?thesis using stepped_range [of 10 10 9223372036854775807] by simp
  qed
  ultimately show ?thesis by (simp split: option.splits sum.splits)
qed

text \<open>The example of \<open>cronexpr_test.go\<close>: every five minutes, asked at 12:02:30.\<close>

lemma every_five_minutes:
  "cron_next ''*/5 * * * *'' (date_to_days 2026 7 5 * day_ns + 12 * hour_ns + 2 * minute_ns + 30 * second) =
   Inr (date_to_days 2026 7 5 * day_ns + 12 * hour_ns + 5 * minute_ns)"
  by code_simp

end
