(* ===== verification/GoJson.thy ===== *)
theory GoJson
  imports GoText
begin

text \<open>
  \<open>json.Valid\<close> of Go's \<open>encoding/json\<close>: the scanner's step functions as states of a push-down
  automaton over bytes, with the stack of enclosing objects and arrays (at most 10000 deep).
\<close>

datatype json_context = ObjectKey | ObjectValue | ArrayValue

datatype json_step =
    BeginValueOrEmpty | BeginValue | BeginStringOrEmpty | BeginString | EndValue | EndTop
  | InString | InStringEsc | InStringEscU nat
  | NumNeg | NumDigits | NumZero | NumDot | NumFraction | NumE | NumESign | NumExponent
  | Literal string

type_synonym json_state = "json_step \<times> json_context list"

definition json_space :: "char \<Rightarrow> bool" where
  "json_space c \<longleftrightarrow> c \<in> {CHR 0x20, CHR 0x09, CHR 0x0D, CHR 0x0A}"

definition json_digit :: "char \<Rightarrow> bool" where
  "json_digit c \<longleftrightarrow> 48 \<le> (of_char c :: nat) \<and> (of_char c :: nat) \<le> 57"

definition json_hex :: "char \<Rightarrow> bool" where
  "json_hex c \<longleftrightarrow> json_digit c \<or> (97 \<le> (of_char c :: nat) \<and> (of_char c :: nat) \<le> 102) \<or>
     (65 \<le> (of_char c :: nat) \<and> (of_char c :: nat) \<le> 70)"

definition json_push :: "json_context \<Rightarrow> json_step \<Rightarrow> json_context list \<Rightarrow> json_state option" where
  "json_push p st stack = (if length stack < 10000 then Some (st, p # stack) else None)"

definition json_pop :: "json_context list \<Rightarrow> json_state option" where
  "json_pop stack = Some (if stack = [] then EndTop else EndValue, stack)"

fun json_end_value :: "json_context list \<Rightarrow> char \<Rightarrow> json_state option" where
  "json_end_value [] c = (if json_space c then Some (EndTop, []) else None)"
| "json_end_value (p # stack) c =
     (if json_space c then Some (EndValue, p # stack)
      else (case p of
          ObjectKey \<Rightarrow> if c = CHR '':'' then Some (BeginValue, ObjectValue # stack) else None
        | ObjectValue \<Rightarrow>
            if c = CHR '','' then Some (BeginString, ObjectKey # stack)
            else if c = CHR 0x7D then json_pop stack else None
        | ArrayValue \<Rightarrow>
            if c = CHR '','' then Some (BeginValue, ArrayValue # stack)
            else if c = CHR '']'' then json_pop stack else None))"

definition json_begin_value :: "json_step \<Rightarrow> json_context list \<Rightarrow> char \<Rightarrow> json_state option" where
  "json_begin_value here stack c =
     (if json_space c then Some (here, stack)
      else if c = CHR 0x7B then json_push ObjectKey BeginStringOrEmpty stack
      else if c = CHR ''['' then json_push ArrayValue BeginValueOrEmpty stack
      else if c = CHR 0x22 then Some (InString, stack)
      else if c = CHR ''-'' then Some (NumNeg, stack)
      else if c = CHR ''0'' then Some (NumZero, stack)
      else if c = CHR ''t'' then Some (Literal ''rue'', stack)
      else if c = CHR ''f'' then Some (Literal ''alse'', stack)
      else if c = CHR ''n'' then Some (Literal ''ull'', stack)
      else if json_digit c then Some (NumDigits, stack)
      else None)"

definition json_begin_string :: "json_step \<Rightarrow> json_context list \<Rightarrow> char \<Rightarrow> json_state option" where
  "json_begin_string here stack c =
     (if json_space c then Some (here, stack)
      else if c = CHR 0x22 then Some (InString, stack) else None)"

definition json_after_zero :: "json_context list \<Rightarrow> char \<Rightarrow> json_state option" where
  "json_after_zero stack c =
     (if c = CHR ''.'' then Some (NumDot, stack)
      else if c \<in> {CHR ''e'', CHR ''E''} then Some (NumE, stack)
      else json_end_value stack c)"

definition json_exponent :: "json_context list \<Rightarrow> char \<Rightarrow> json_state option" where
  "json_exponent stack c = (if json_digit c then Some (NumExponent, stack) else None)"

fun json_step_char :: "json_state \<Rightarrow> char \<Rightarrow> json_state option" where
  "json_step_char (BeginValueOrEmpty, stack) c =
     (if c = CHR '']'' then json_end_value stack c else json_begin_value BeginValueOrEmpty stack c)"
| "json_step_char (BeginValue, stack) c = json_begin_value BeginValue stack c"
| "json_step_char (BeginStringOrEmpty, stack) c =
     (if c = CHR 0x7D then json_end_value (case stack of [] \<Rightarrow> [] | _ # ps \<Rightarrow> ObjectValue # ps) c
      else json_begin_string BeginStringOrEmpty stack c)"
| "json_step_char (BeginString, stack) c = json_begin_string BeginString stack c"
| "json_step_char (EndValue, stack) c = json_end_value stack c"
| "json_step_char (EndTop, stack) c = (if json_space c then Some (EndTop, stack) else None)"
| "json_step_char (InString, stack) c =
     (if c = CHR 0x22 then Some (EndValue, stack)
      else if c = CHR 0x5C then Some (InStringEsc, stack)
      else if (of_char c :: nat) < 32 then None
      else Some (InString, stack))"
| "json_step_char (InStringEsc, stack) c =
     (if c \<in> {CHR ''b'', CHR ''f'', CHR ''n'', CHR ''r'', CHR ''t'', CHR 0x5C, CHR ''/'', CHR 0x22}
      then Some (InString, stack)
      else if c = CHR ''u'' then Some (InStringEscU 3, stack) else None)"
| "json_step_char (InStringEscU n, stack) c =
     (if json_hex c then Some (if n = 0 then InString else InStringEscU (n - 1), stack) else None)"
| "json_step_char (NumNeg, stack) c =
     (if c = CHR ''0'' then Some (NumZero, stack)
      else if json_digit c then Some (NumDigits, stack) else None)"
| "json_step_char (NumDigits, stack) c =
     (if json_digit c then Some (NumDigits, stack) else json_after_zero stack c)"
| "json_step_char (NumZero, stack) c = json_after_zero stack c"
| "json_step_char (NumDot, stack) c = (if json_digit c then Some (NumFraction, stack) else None)"
| "json_step_char (NumFraction, stack) c =
     (if json_digit c then Some (NumFraction, stack)
      else if c \<in> {CHR ''e'', CHR ''E''} then Some (NumE, stack)
      else json_end_value stack c)"
| "json_step_char (NumE, stack) c =
     (if c \<in> {CHR ''+'', CHR ''-''} then Some (NumESign, stack) else json_exponent stack c)"
| "json_step_char (NumESign, stack) c = json_exponent stack c"
| "json_step_char (NumExponent, stack) c =
     (if json_digit c then Some (NumExponent, stack) else json_end_value stack c)"
| "json_step_char (Literal w, stack) c =
     (case w of
        [] \<Rightarrow> None
      | x # xs \<Rightarrow> if c = x then Some (if xs = [] then EndValue else Literal xs, stack) else None)"

fun json_scan :: "json_state \<Rightarrow> string \<Rightarrow> json_state option" where
  "json_scan st [] = Some st"
| "json_scan st (c # s) = (case json_step_char st c of None \<Rightarrow> None | Some st' \<Rightarrow> json_scan st' s)"

text \<open>At the end of the input the scanner is fed one more blank, which ends a number.\<close>

definition json_Valid :: "string \<Rightarrow> bool" where
  "json_Valid s =
     (case json_scan (BeginValue, []) s of
        None \<Rightarrow> False
      | Some st \<Rightarrow>
          fst st = EndTop \<or>
          (case json_step_char st (CHR '' '') of None \<Rightarrow> False | Some st' \<Rightarrow> fst st' = EndTop))"

section \<open>Marshalling a map of strings\<close>

text \<open>
  \<open>json.Marshal\<close> of a \<open>map[string]any\<close> whose values are strings, its keys given in sorted order.
  The strings are valid UTF-8; U+2028 and U+2029, which Go escapes too, are left as they are,
  since the result is stored as \<open>jsonb\<close>, which does not tell the two spellings apart.
\<close>

definition hex_digit :: "nat \<Rightarrow> char" where
  "hex_digit n = (if n < 10 then char_of (48 + n) else char_of (87 + n))"

definition json_escape_char :: "char \<Rightarrow> string" where
  "json_escape_char c =
     (let n = (of_char c :: nat)
      in if c = CHR 0x22 \<or> c = CHR 0x5C then [CHR 0x5C, c]
         else if n = 8 then [CHR 0x5C, CHR ''b''] else if n = 12 then [CHR 0x5C, CHR ''f'']
         else if n = 10 then [CHR 0x5C, CHR ''n''] else if n = 13 then [CHR 0x5C, CHR ''r'']
         else if n = 9 then [CHR 0x5C, CHR ''t'']
         else if n < 32 \<or> n = 38 \<or> n = 60 \<or> n = 62 then
           [CHR 0x5C, CHR ''u'', CHR ''0'', CHR ''0'', hex_digit (n div 16), hex_digit (n mod 16)]
         else [c])"

definition json_quote :: "string \<Rightarrow> string" where
  "json_quote s = CHR 0x22 # concat (map json_escape_char s) @ [CHR 0x22]"

fun json_members :: "(string \<times> string) list \<Rightarrow> string" where
  "json_members [] = []"
| "json_members [(k, v)] = json_quote k @ CHR '':'' # json_quote v"
| "json_members ((k, v) # m # ms) = json_quote k @ CHR '':'' # json_quote v @ CHR '','' # json_members (m # ms)"

definition json_object :: "(string \<times> string) list \<Rightarrow> string" where
  "json_object kvs = CHR 0x7B # json_members kvs @ [CHR 0x7D]"

lemma json_scan_append:
  "json_scan st (s @ t) = (case json_scan st s of None \<Rightarrow> None | Some st' \<Rightarrow> json_scan st' t)"
  by (induction s arbitrary: st) (auto split: option.split)

lemma json_hex_digit: "n < 16 \<Longrightarrow> json_hex (hex_digit n)"
  by (auto simp: json_hex_def json_digit_def hex_digit_def of_char_of)

lemma json_scan_escape: "json_scan (InString, stack) (json_escape_char c) = Some (InString, stack)"
proof -
  have "(of_char c :: nat) < 256" by (rule nat_of_char_less_256)
  then have "(of_char c :: nat) div 16 < 16" by (intro less_mult_imp_div_less) simp
  then have "json_hex (hex_digit (of_char c div 16))" "json_hex (hex_digit (of_char c mod 16))"
    by (auto intro!: json_hex_digit)
  moreover have "json_hex CHR ''0''" by code_simp
  moreover have "c \<noteq> CHR 0x22" "c \<noteq> CHR 0x5C" if "\<not> (c = CHR 0x22 \<or> c = CHR 0x5C)"
    using that by auto
  ultimately show ?thesis
    by (auto simp: json_escape_char_def Let_def)
qed

lemma json_scan_escapes:
  "json_scan (InString, stack) (concat (map json_escape_char s)) = Some (InString, stack)"
  by (induction s) (simp_all add: json_scan_append json_scan_escape)

lemma json_scan_quote:
  "st \<in> {BeginValue, BeginString, BeginStringOrEmpty} \<Longrightarrow>
    json_scan (st, stack) (json_quote s) = Some (EndValue, stack)"
  by (auto simp: json_quote_def json_scan_append json_scan_escapes json_begin_value_def
      json_begin_string_def json_space_def)

lemma json_scan_members:
  "kvs \<noteq> [] \<Longrightarrow> st \<in> {BeginString, BeginStringOrEmpty} \<Longrightarrow>
    json_scan (st, ObjectKey # stack) (json_members kvs) = Some (EndValue, ObjectValue # stack)"
proof (induction kvs arbitrary: st rule: json_members.induct)
  case 1
  then show ?case by simp
next
  case (2 k v)
  then show ?case by (auto simp: json_scan_append json_scan_quote json_space_def)
next
  case (3 k v m ms)
  from 3(3) have "json_scan (st, ObjectKey # stack) (json_quote k) = Some (EndValue, ObjectKey # stack)"
    by (intro json_scan_quote) auto
  then show ?case using 3(1) [of BeginString]
    by (simp add: json_scan_append json_scan_quote json_space_def)
qed

lemma json_Valid_object [simp]: "kvs \<noteq> [] \<Longrightarrow> json_Valid (json_object kvs)"
  by (simp add: json_Valid_def json_object_def json_begin_value_def json_space_def json_push_def
      json_scan_append json_scan_members json_pop_def)

lemma json_object_not_Nil [simp]: "json_object kvs \<noteq> []"
  by (simp add: json_object_def)

section \<open>Examples\<close>

lemma json_Valid_empty_object [simp]: "json_Valid [CHR 0x7B, CHR 0x7D]"
  by code_simp

lemma json_Valid_examples:
  "json_Valid ''[1, -0.5e+3, true, null]''" "\<not> json_Valid ''[1, 2''" "\<not> json_Valid ''01''" "\<not> json_Valid []"
  by code_simp+

end
