(* ===== verification/Schema.thy ===== *)
theory Schema
  imports Cronexpr GoJson
begin

text \<open>
  The data model of \<open>internal/storage/storage.go\<close> and the database it talks to: the rows of the
  six tables (Go's structs, whose columns \<open>migrations/*.sql\<close> declare), the database as a record of
  tables, the store's errors, and transactions. A table is the list of its rows.

  PostgreSQL and the network are outside the repository. A \<open>net\<close> says for every round trip of an
  operation whether the server answers (\<open>Served\<close>), the statement fails and has no effect (\<open>Lost\<close>:
  a broken connection, a time-out, a value the server refuses), or the statement is carried out and
  the answer does not arrive (\<open>AckLost\<close>). A transaction that does not commit leaves no trace.
  What \<open>jsonb\<close> makes of a JSON text is a parameter of the operations that store one.
\<close>

section \<open>Statuses and errors\<close>

datatype job_status =
  Queued | Running | Succeeded | Failed | RetryScheduled | DeadLetter | Cancelled

fun job_status_text :: "job_status \<Rightarrow> string" where
  "job_status_text Queued = ''queued''"
| "job_status_text Running = ''running''"
| "job_status_text Succeeded = ''succeeded''"
| "job_status_text Failed = ''failed''"
| "job_status_text RetryScheduled = ''retry_scheduled''"
| "job_status_text DeadLetter = ''dead_letter''"
| "job_status_text Cancelled = ''cancelled''"

datatype attempt_status = AttemptRunning | AttemptSucceeded | AttemptFailed

datatype worker_status = WorkerStarting | WorkerRunning | WorkerDraining | WorkerStopped

fun worker_status_text :: "worker_status \<Rightarrow> string" where
  "worker_status_text WorkerStarting = ''starting''"
| "worker_status_text WorkerRunning = ''running''"
| "worker_status_text WorkerDraining = ''draining''"
| "worker_status_text WorkerStopped = ''stopped''"

text \<open>The \<open>CHECK\<close> constraint of \<open>workers.status\<close>: any other text is refused.\<close>

definition worker_status_of :: "string \<Rightarrow> worker_status option" where
  "worker_status_of s =
     find (\<lambda>w. worker_status_text w = s) [WorkerStarting, WorkerRunning, WorkerDraining, WorkerStopped]"

text \<open>
  Errors: \<open>pgx.ErrNoRows\<close>, an error that wraps \<open>ErrInvalidState\<close>, a plain \<open>errors.New\<close>, a parse
  error of \<open>cronexpr\<close>, a violated constraint (by name), a failed round trip.
\<close>

datatype error =
    ErrNoRows
  | ErrInvalidState string
  | ErrNew string
  | ErrCron cron_error
  | ErrConstraint string
  | ErrConn

definition IsNotFound :: "error \<Rightarrow> bool" where
  "IsNotFound e \<longleftrightarrow> e = ErrNoRows"

definition IsInvalidState :: "error \<Rightarrow> bool" where
  "IsInvalidState e \<longleftrightarrow> (case e of ErrInvalidState _ \<Rightarrow> True | _ \<Rightarrow> False)"

section \<open>Rows\<close>

record job =
  job_id :: uuid
  job_queue :: string
  job_type :: string
  job_payload :: string
  job_status :: job_status
  job_priority :: int
  job_max_attempts :: int
  job_attempt_count :: int
  job_idempotency_key :: "string option"
  job_locked_by :: "string option"
  job_locked_until :: "instant option"
  job_lease_token :: "uuid option"
  job_timeout_seconds :: "int option"
  job_traceparent :: "string option"
  job_tracestate :: "string option"
  job_available_at :: instant
  job_dead_lettered_at :: "instant option"
  job_created_at :: instant
  job_updated_at :: instant
  job_completed_at :: "instant option"
  job_last_error :: "string option"

record attempt =
  att_id :: uuid
  att_job_id :: uuid
  att_worker_id :: string
  att_lease_token :: uuid
  att_number :: int
  att_status :: attempt_status
  att_started_at :: instant
  att_finished_at :: "instant option"
  att_error :: "string option"
  att_duration_ms :: "int option"

record worker =
  wk_id :: string
  wk_hostname :: string
  wk_queues :: "string list"
  wk_status :: worker_status
  wk_concurrency :: int
  wk_metadata :: string
  wk_started_at :: instant
  wk_last_heartbeat_at :: instant
  wk_updated_at :: instant

record job_log =
  log_id :: uuid
  log_job_id :: uuid
  log_attempt_id :: "uuid option"
  log_logged_at :: instant
  log_level :: string
  log_message :: string
  log_fields :: string

record cron_job =
  cj_id :: uuid
  cj_name :: string
  cj_queue :: string
  cj_type :: string
  cj_payload :: string
  cj_schedule :: string
  cj_enabled :: bool
  cj_priority :: int
  cj_max_attempts :: int
  cj_timeout_seconds :: "int option"
  cj_next_run_at :: instant
  cj_last_run_at :: "instant option"
  cj_created_at :: instant
  cj_updated_at :: instant

record cron_run =
  cr_id :: uuid
  cr_cron_job_id :: uuid
  cr_scheduled_for :: instant
  cr_job_id :: "uuid option"
  cr_scheduler_id :: string
  cr_created_at :: instant

text \<open>The database behind the store's connection pool.\<close>

record db =
  jobs :: "job list"
  attempts :: "attempt list"
  workers :: "worker list"
  logs :: "job_log list"
  cron_jobs :: "cron_job list"
  cron_runs :: "cron_run list"

definition empty_db :: db where
  "empty_db = \<lparr>jobs = [], attempts = [], workers = [], logs = [], cron_jobs = [], cron_runs = []\<rparr>"

section \<open>Statements and transactions\<close>

datatype reply = Served | Lost | AckLost

type_synonym net = "nat \<Rightarrow> reply"
type_synonym 'a stmt = "db \<Rightarrow> error + 'a \<times> db"
type_synonym 'a tx = "net \<Rightarrow> nat \<Rightarrow> db \<Rightarrow> error + 'a \<times> nat \<times> db"
type_synonym 'a result = "(error + 'a) \<times> db"

definition query :: "(db \<Rightarrow> 'a) \<Rightarrow> 'a stmt" where
  "query f d = Inr (f d, d)"

text \<open>A statement outside a transaction commits by itself.\<close>

definition run_sql :: "'a stmt \<Rightarrow> reply \<Rightarrow> db \<Rightarrow> 'a result" where
  "run_sql s r d =
     (case r of
        Lost \<Rightarrow> (Inl ErrConn, d)
      | Served \<Rightarrow> (case s d of Inl e \<Rightarrow> (Inl e, d) | Inr (a, d') \<Rightarrow> (Inr a, d'))
      | AckLost \<Rightarrow> (Inl ErrConn, case s d of Inl e \<Rightarrow> d | Inr (a, d') \<Rightarrow> d'))"

definition tx_return :: "'a \<Rightarrow> 'a tx" where
  "tx_return a net n d = Inr (a, n, d)"

definition tx_fail :: "error \<Rightarrow> 'a tx" where
  "tx_fail e net n d = Inl e"

definition tx_bind :: "'a tx \<Rightarrow> ('a \<Rightarrow> 'b tx) \<Rightarrow> 'b tx" where
  "tx_bind m f net n d = (case m net n d of Inl e \<Rightarrow> Inl e | Inr (a, n', d') \<Rightarrow> f a net n' d')"

definition sql :: "'a stmt \<Rightarrow> 'a tx" where
  "sql s net n d =
     (if net n \<noteq> Served then Inl ErrConn
      else (case s d of Inl e \<Rightarrow> Inl e | Inr (a, d') \<Rightarrow> Inr (a, Suc n, d')))"

text \<open>
  \<open>BeginTx\<close>, the body, \<open>Commit\<close>, and the deferred \<open>Rollback\<close>: the first round trip opens the
  transaction, the last one commits it, and every early return drops what the body did.
\<close>

definition run_tx :: "'a tx \<Rightarrow> net \<Rightarrow> db \<Rightarrow> 'a result" where
  "run_tx m net d =
     (if net 0 \<noteq> Served then (Inl ErrConn, d)
      else (case m net 1 d of
          Inl e \<Rightarrow> (Inl e, d)
        | Inr (a, n, d') \<Rightarrow>
            (case net n of
               Served \<Rightarrow> (Inr a, d')
             | Lost \<Rightarrow> (Inl ErrConn, d)
             | AckLost \<Rightarrow> (Inl ErrConn, d'))))"

text \<open>\<open>scanX\<close> of a \<open>QueryRow\<close>: the first row, or \<open>pgx.ErrNoRows\<close>.\<close>

definition scan_row :: "'a list \<Rightarrow> error + 'a" where
  "scan_row rs = (case rs of [] \<Rightarrow> Inl ErrNoRows | r # _ \<Rightarrow> Inr r)"

definition tx_scan :: "'a list \<Rightarrow> 'a tx" where
  "tx_scan rs = (case scan_row rs of Inl e \<Rightarrow> tx_fail e | Inr r \<Rightarrow> tx_return r)"

definition scan_result :: "'a list result \<Rightarrow> 'a result" where
  "scan_result r = (case r of (Inl e, d) \<Rightarrow> (Inl e, d) | (Inr rs, d) \<Rightarrow> (scan_row rs, d))"

fun tx_each :: "('a \<Rightarrow> 'b tx) \<Rightarrow> 'a list \<Rightarrow> 'b list tx" where
  "tx_each f [] = tx_return []"
| "tx_each f (x # xs) = tx_bind (f x) (\<lambda>y. tx_bind (tx_each f xs) (\<lambda>ys. tx_return (y # ys)))"

abbreviation (input) all_served :: net where "all_served \<equiv> (\<lambda>n. Served)"

section \<open>Facts\<close>

named_theorems tx_simps \<open>when a transaction body succeeds\<close>

lemma tx_return_Inr [tx_simps]: "tx_return a net n d = Inr r \<longleftrightarrow> r = (a, n, d)"
  by (auto simp: tx_return_def)

lemma tx_fail_Inr [tx_simps]: "tx_fail e net n d = Inr r \<longleftrightarrow> False"
  by (simp add: tx_fail_def)

lemma tx_bind_Inr [tx_simps]:
  "tx_bind m f net n d = Inr r \<longleftrightarrow> (\<exists>a n' d'. m net n d = Inr (a, n', d') \<and> f a net n' d' = Inr r)"
  by (auto simp: tx_bind_def split: sum.splits)

lemma sql_Inr [tx_simps]:
  "sql s net n d = Inr (a, n', d') \<longleftrightarrow> net n = Served \<and> s d = Inr (a, d') \<and> n' = Suc n"
  by (auto simp: sql_def split: sum.splits)

lemma query_Inr [tx_simps]: "query f d = Inr (a, d') \<longleftrightarrow> a = f d \<and> d' = d"
  by (auto simp: query_def)

lemma tx_scan_Inr [tx_simps]:
  "tx_scan rs net n d = Inr (a, n', d') \<longleftrightarrow> rs \<noteq> [] \<and> a = hd rs \<and> n' = n \<and> d' = d"
  by (auto simp: tx_scan_def scan_row_def tx_return_def tx_fail_def split: list.splits)

lemma tx_if_Inr [tx_simps]:
  "(if b then m else m') net n d = Inr r \<longleftrightarrow> (if b then m net n d = Inr r else m' net n d = Inr r)"
  by simp

lemma run_tx_cases:
  assumes "run_tx m net d = (r, d')"
  obtains (failed) e where "r = Inl e" "d' = d"
  | (committed) a n where "m net 1 d = Inr (a, n, d')" "net 0 = Served"
      "r = (if net n = Served then Inr a else Inl ErrConn)"
  using assms by (auto simp: run_tx_def split: if_splits sum.splits reply.splits)

lemma run_tx_Inr:
  "run_tx m net d = (Inr a, d') \<longleftrightarrow>
     net 0 = Served \<and> (\<exists>n. m net 1 d = Inr (a, n, d') \<and> net n = Served)"
  by (auto simp: run_tx_def split: if_splits sum.splits reply.splits)

lemma run_sql_cases:
  assumes "run_sql s r d = (x, d')"
  obtains (failed) e where "x = Inl e" "d' = d"
  | (committed) a where "s d = Inr (a, d')" "x = (if r = Served then Inr a else Inl ErrConn)"
  using assms by (auto simp: run_sql_def split: sum.splits reply.splits)

section \<open>The contract of a store operation\<close>

text \<open>
  Every write operation of the store is all or nothing: either it reports an error and the database
  is as before, or it carries out one \<open>commit\<close> step. The client sees the result of the step, or
  \<open>ErrConn\<close> where the acknowledgement was lost. Each operation interprets this locale with its
  commit step; what the rest of the development knows of an operation, it knows through it.
\<close>

locale store_operation =
  fixes run :: "net \<Rightarrow> db \<Rightarrow> 'a result"
    and commit :: "db \<Rightarrow> 'a \<Rightarrow> db \<Rightarrow> bool"
  assumes outcome: "run net d = (r, d') \<Longrightarrow>
    (d' = d \<and> (\<exists>e. r = Inl e)) \<or> (\<exists>a. commit d a d' \<and> (r = Inr a \<or> r = Inl ErrConn))"
begin

lemma success: "run net d = (Inr a, d') \<Longrightarrow> commit d a d'"
  using outcome [of net d "Inr a" d'] by auto

lemma rollback: "run net d = (Inl e, d') \<Longrightarrow> e \<noteq> ErrConn \<Longrightarrow> d' = d"
  using outcome [of net d "Inl e" d'] by auto

lemma rejected: "(\<And>a d'. \<not> commit d a d') \<Longrightarrow> (\<exists>e. fst (run net d) = Inl e) \<and> snd (run net d) = d"
  using outcome [of net d "fst (run net d)" "snd (run net d)"] by auto

lemma preserves:
  assumes "P d" and "\<And>a d'. commit d a d' \<Longrightarrow> P d'"
  shows "P (snd (run net d))"
  using outcome [of net d "fst (run net d)" "snd (run net d)"] assms by auto

lemma effect: "snd (run net d) = d \<or> (\<exists>a. commit d a (snd (run net d)))"
  using outcome [of net d "fst (run net d)" "snd (run net d)"] by auto

end

text \<open>An operation that is one transaction has the contract if its body commits what it should.\<close>

lemma run_tx_operation:
  assumes "\<And>net n d a n' d'. m net n d = Inr (a, n', d') \<Longrightarrow> commit d a d'"
  shows "store_operation (run_tx m) commit"
proof
  fix net d r d'
  assume "run_tx m net d = (r, d')"
  then show "(d' = d \<and> (\<exists>e. r = Inl e)) \<or> (\<exists>a. commit d a d' \<and> (r = Inr a \<or> r = Inl ErrConn))"
  proof (cases rule: run_tx_cases)
    case (failed e)
    then show ?thesis by simp
  next
    case (committed a n)
    then show ?thesis using assms [OF committed(1)] by auto
  qed
qed

end
