(* ===== verification/RetryPolicy.thy ===== *)
theory RetryPolicy
  imports Schema
begin

text \<open>
  The retry policy of \<open>storage.go\<close>: \<open>RetryPolicy.Normalize\<close>, \<open>RetryPolicy.DelayForAttempt\<close> and
  \<open>normalizedMaxAttempts\<close>. Durations are signed 64-bit nanoseconds; the doubling is written with
  its wrap-around, and the lemmas show that it never wraps and that the loop computes exponential
  backoff with a cap.
\<close>

record retry_policy =
  rp_initial_delay :: duration
  rp_max_delay :: duration

definition Normalize :: "retry_policy \<Rightarrow> retry_policy" where
  "Normalize p =
     (let p1 = (if rp_initial_delay p \<le> 0 then p\<lparr>rp_initial_delay := 2 * second\<rparr> else p);
          p2 = (if rp_max_delay p1 \<le> 0 then p1\<lparr>rp_max_delay := 30 * second\<rparr> else p1)
      in if rp_max_delay p2 < rp_initial_delay p2 then p2\<lparr>rp_max_delay := rp_initial_delay p2\<rparr> else p2)"

text \<open>The loop, by the number of iterations that are left.\<close>

fun double_delay :: "nat \<Rightarrow> duration \<Rightarrow> duration \<Rightarrow> duration" where
  "double_delay 0 delay max_delay = (if delay > max_delay then max_delay else delay)"
| "double_delay (Suc n) delay max_delay =
     (if delay \<ge> quot max_delay 2 then max_delay
      else double_delay n (wrap64 (delay * 2)) max_delay)"

definition DelayForAttempt :: "retry_policy \<Rightarrow> int \<Rightarrow> duration" where
  "DelayForAttempt policy attemptNumber =
     (let p = Normalize policy
      in if attemptNumber \<le> 1 then rp_initial_delay p
         else double_delay (nat (attemptNumber - 1)) (rp_initial_delay p) (rp_max_delay p))"

definition normalizedMaxAttempts :: "int \<Rightarrow> int" where
  "normalizedMaxAttempts maxAttempts = (if maxAttempts \<le> 0 then 1 else maxAttempts)"

section \<open>Facts\<close>

definition policy64 :: "retry_policy \<Rightarrow> bool" where
  "policy64 p \<longleftrightarrow> int64 (rp_initial_delay p) \<and> int64 (rp_max_delay p)"

lemma Normalize_bounds:
  "0 < rp_initial_delay (Normalize p)" "rp_initial_delay (Normalize p) \<le> rp_max_delay (Normalize p)"
  by (auto simp: Normalize_def Let_def)

lemma Normalize_idem [simp]: "Normalize (Normalize p) = Normalize p"
  by (auto simp: Normalize_def Let_def)

lemma Normalize_policy64: "policy64 p \<Longrightarrow> policy64 (Normalize p)"
  by (auto simp: Normalize_def Let_def policy64_def int64_def)

text \<open>
  The loop against its specification, the capped power: never below it, and above it by one
  nanosecond at most (the test \<open>delay >= MaxDelay/2\<close> rounds an odd \<open>MaxDelay\<close> down).
\<close>

definition capped_backoff :: "duration \<Rightarrow> duration \<Rightarrow> nat \<Rightarrow> duration" where
  "capped_backoff initial cap n = min cap (initial * 2 ^ n)"

lemma double_delay_spec:
  assumes "0 < d" and "d \<le> m" and "int64 m"
  shows "capped_backoff d m n \<le> double_delay n d m \<and> double_delay n d m \<le> m \<and>
    double_delay n d m \<le> capped_backoff d m n + m mod 2"
  using assms(1,2)
proof (induction n arbitrary: d)
  case 0
  then show ?case by (simp add: capped_backoff_def)
next
  case (Suc n)
  have q: "quot m 2 = m div 2" using Suc.prems by (intro quot_nonneg) simp_all
  show ?case
  proof (cases "m div 2 \<le> d")
    case True
    have "(1::int) \<le> 2 ^ n" by simp
    then have "d * 2 \<le> d * 2 ^ Suc n" using Suc.prems by simp
    moreover have "m \<le> d * 2 + m mod 2" using True by presburger
    ultimately show ?thesis using True q by (simp add: capped_backoff_def)
  next
    case False
    then have d2: "d * 2 \<le> m" by presburger
    have "wrap64 (d * 2) = d * 2"
      by (rule wrap64_id) (use d2 assms(3) Suc.prems in \<open>simp add: int64_def\<close>)
    then have "double_delay (Suc n) d m = double_delay n (d * 2) m" using False q by simp
    moreover have "capped_backoff d m (Suc n) = capped_backoff (d * 2) m n"
      by (simp add: capped_backoff_def mult.assoc)
    ultimately show ?thesis using Suc.IH [of "d * 2"] Suc.prems d2 by simp
  qed
qed

lemma double_delay_ge_initial:
  "0 < d \<Longrightarrow> d \<le> m \<Longrightarrow> int64 m \<Longrightarrow> d \<le> double_delay n d m"
proof -
  assume a: "0 < d" "d \<le> m" "int64 m"
  have "(1::int) \<le> 2 ^ n" by simp
  then have "d * 1 \<le> d * 2 ^ n" using a(1) by (intro mult_left_mono) simp_all
  then have "d \<le> capped_backoff d m n" using a by (simp add: capped_backoff_def)
  then show ?thesis using double_delay_spec [OF a, of n] by simp
qed

lemma double_delay_mono: "0 < d \<Longrightarrow> d \<le> m \<Longrightarrow> int64 m \<Longrightarrow> double_delay n d m \<le> double_delay (Suc n) d m"
proof (induction n arbitrary: d)
  case 0
  then have q: "quot m 2 = m div 2" by (intro quot_nonneg) simp_all
  show ?case
  proof (cases "m div 2 \<le> d")
    case False
    then have d2: "d * 2 \<le> m" by presburger
    have "wrap64 (d * 2) = d * 2"
      by (rule wrap64_id) (use d2 0 in \<open>simp add: int64_def\<close>)
    then show ?thesis using False q 0 d2 by simp
  qed (use q 0 in simp)
next
  case (Suc n)
  have q: "quot m 2 = m div 2" using Suc.prems by (intro quot_nonneg) simp_all
  show ?case
  proof (cases "m div 2 \<le> d")
    case False
    then have d2: "d * 2 \<le> m" by presburger
    have "wrap64 (d * 2) = d * 2"
      by (rule wrap64_id) (use d2 Suc.prems in \<open>simp add: int64_def\<close>)
    then show ?thesis using False q Suc.IH [of "d * 2"] Suc.prems d2 by simp
  qed (use q in simp)
qed

section \<open>Properties\<close>

text \<open>
  C32. Exponential backoff: after attempt \<open>n\<close> the delay is the initial delay doubled \<open>n - 1\<close> times
  and capped at the maximal delay, exactly when the maximal delay is even and otherwise up to one
  nanosecond above; the 64-bit doubling never overflows, whatever the attempt number.
\<close>

theorem DelayForAttempt_backoff:
  assumes "policy64 policy" and "p = Normalize policy" and "1 \<le> n"
    and "spec = capped_backoff (rp_initial_delay p) (rp_max_delay p) (nat (n - 1))"
  shows "spec \<le> DelayForAttempt policy n \<and> DelayForAttempt policy n \<le> spec + rp_max_delay p mod 2 \<and>
    rp_initial_delay p \<le> DelayForAttempt policy n \<and> DelayForAttempt policy n \<le> rp_max_delay p"
proof -
  have b: "0 < rp_initial_delay p" "rp_initial_delay p \<le> rp_max_delay p" "int64 (rp_max_delay p)"
    using Normalize_bounds [of policy] Normalize_policy64 [OF assms(1)]
    by (simp_all add: assms(2) policy64_def)
  have D: "DelayForAttempt policy n =
      double_delay (nat (n - 1)) (rp_initial_delay p) (rp_max_delay p)"
    using b assms(2,3) by (cases "n = 1") (simp_all add: DelayForAttempt_def Let_def)
  show ?thesis
    using double_delay_spec [OF b, of "nat (n - 1)"] double_delay_ge_initial [OF b, of "nat (n - 1)"]
      D assms(4) by simp
qed

lemma DelayForAttempt_backoff_witness:
  "DelayForAttempt \<lparr>rp_initial_delay = 2 * second, rp_max_delay = 5 * second\<rparr> 2 = 4 * second"
proof -
  define policy where "policy = \<lparr>rp_initial_delay = 2 * second, rp_max_delay = 5 * second\<rparr>"
  have "Normalize policy = policy" by (simp add: policy_def Normalize_def)
  moreover have "policy64 policy" by (simp add: policy_def policy64_def int64_def)
  ultimately show ?thesis
    using DelayForAttempt_backoff [of policy policy 2 "4 * second"]
    by (simp add: policy_def capped_backoff_def)
qed

text \<open>A later attempt never waits less than an earlier one.\<close>

lemma DelayForAttempt_mono:
  assumes "policy64 policy" and "m \<le> n"
  shows "DelayForAttempt policy m \<le> DelayForAttempt policy n"
proof -
  define p where "p = Normalize policy"
  have b: "0 < rp_initial_delay p" "rp_initial_delay p \<le> rp_max_delay p" "int64 (rp_max_delay p)"
    using Normalize_bounds [of policy] Normalize_policy64 [OF assms(1)]
    by (simp_all add: p_def policy64_def)
  have D: "DelayForAttempt policy k =
      double_delay (nat (k - 1)) (rp_initial_delay p) (rp_max_delay p)" for k
    using b by (cases "k \<le> 1") (simp_all add: DelayForAttempt_def Let_def p_def)
  have "nat (m - 1) \<le> nat (n - 1)" using assms(2) by simp
  then show ?thesis
    unfolding D by (rule lift_Suc_mono_le [rotated]) (use double_delay_mono [OF b] in blast)
qed

lemma DelayForAttempt_mono_witness:
  "DelayForAttempt \<lparr>rp_initial_delay = 0, rp_max_delay = 0\<rparr> 1 \<le>
   DelayForAttempt \<lparr>rp_initial_delay = 0, rp_max_delay = 0\<rparr> 7"
  by (rule DelayForAttempt_mono) (simp_all add: policy64_def int64_def)

end
