(* ===== verification/Invariant.thy ===== *)
theory Invariant
  imports RetryPolicy
begin

text \<open>
  The invariant of the stored state. \<open>job_ok\<close> relates a job's row to the rows of its attempts: the
  attempts are numbered 1 to \<open>attempt_count\<close> in the order of their insertion, a job is running
  exactly when it holds a lease and then its last attempt, and only that one, is running under the
  same token and worker, and so on. \<open>db_ok\<close> adds the keys and references of the six tables. The
  lemmas reduce the preservation of \<open>db_ok\<close> by an operation that changes one job to a statement
  about that job and its attempts.
\<close>

section \<open>Definition\<close>

definition attempts_of :: "uuid \<Rightarrow> attempt list \<Rightarrow> attempt list" where
  "attempts_of i as = filter (\<lambda>a. att_job_id a = i) as"

definition terminal :: "job_status \<Rightarrow> bool" where
  "terminal s \<longleftrightarrow> s \<in> {Succeeded, Failed, DeadLetter, Cancelled}"

definition claimable :: "job_status \<Rightarrow> bool" where
  "claimable s \<longleftrightarrow> s \<in> {Queued, RetryScheduled}"

definition attempt_ok :: "attempt \<Rightarrow> bool" where
  "attempt_ok a \<longleftrightarrow> (att_finished_at a = None \<longleftrightarrow> att_status a = AttemptRunning) \<and>
     (att_duration_ms a = None \<longleftrightarrow> att_status a = AttemptRunning) \<and>
     (case att_duration_ms a of None \<Rightarrow> True | Some ms \<Rightarrow> 0 \<le> ms) \<and>
     (att_error a = None \<longleftrightarrow> att_status a \<noteq> AttemptFailed)"

definition lease_ok :: "attempt list \<Rightarrow> job \<Rightarrow> bool" where
  "lease_ok as j \<longleftrightarrow>
     (case job_lease_token j of
        None \<Rightarrow> job_status j \<noteq> Running \<and> job_locked_by j = None \<and> job_locked_until j = None \<and>
          (\<forall>a \<in> set as. att_status a \<noteq> AttemptRunning)
      | Some t \<Rightarrow> job_status j = Running \<and> job_locked_until j \<noteq> None \<and>
          as \<noteq> [] \<and> att_status (last as) = AttemptRunning \<and> att_lease_token (last as) = t \<and>
          job_locked_by j = Some (att_worker_id (last as)) \<and>
          (\<forall>a \<in> set (butlast as). att_status a \<noteq> AttemptRunning))"

definition count_ok :: "attempt list \<Rightarrow> job \<Rightarrow> bool" where
  "count_ok as j \<longleftrightarrow>
     map att_number as = [1..job_attempt_count j] \<and> 0 \<le> job_attempt_count j \<and>
     job_attempt_count j \<le> normalizedMaxAttempts (job_max_attempts j) \<and>
     (claimable (job_status j) \<longrightarrow> job_attempt_count j < normalizedMaxAttempts (job_max_attempts j))"

definition status_ok :: "attempt list \<Rightarrow> job \<Rightarrow> bool" where
  "status_ok as j \<longleftrightarrow>
     job_status j \<noteq> Failed \<and>
     (job_completed_at j \<noteq> None \<longleftrightarrow> terminal (job_status j)) \<and>
     (job_dead_lettered_at j \<noteq> None \<longleftrightarrow> job_status j = DeadLetter) \<and>
     (job_status j = Succeeded \<longleftrightarrow> (\<exists>a \<in> set as. att_status a = AttemptSucceeded)) \<and>
     (\<forall>a \<in> set (butlast as). att_status a \<noteq> AttemptSucceeded)"

definition job_ok :: "attempt list \<Rightarrow> job \<Rightarrow> bool" where
  "job_ok as j \<longleftrightarrow>
     count_ok as j \<and> lease_ok as j \<and> status_ok as j \<and>
     distinct (map att_lease_token as) \<and> (\<forall>a \<in> set as. attempt_ok a)"

definition idempotency_keys :: "job list \<Rightarrow> string list" where
  "idempotency_keys js = List.map_filter job_idempotency_key js"

definition jobs_ok :: "job list \<Rightarrow> attempt list \<Rightarrow> bool" where
  "jobs_ok js as \<longleftrightarrow>
     distinct (map job_id js) \<and> distinct (map att_id as) \<and> distinct (idempotency_keys js) \<and>
     att_job_id ` set as \<subseteq> job_id ` set js \<and>
     (\<forall>j \<in> set js. job_ok (attempts_of (job_id j) as) j)"

definition log_levels :: "string list" where
  "log_levels = [''debug'', ''info'', ''warn'', ''error'']"

definition logs_ok :: "uuid set \<Rightarrow> uuid set \<Rightarrow> job_log list \<Rightarrow> bool" where
  "logs_ok jids aids ls \<longleftrightarrow>
     distinct (map log_id ls) \<and>
     (\<forall>l \<in> set ls. log_job_id l \<in> jids \<and> log_level l \<in> set log_levels \<and> log_message l \<noteq> [] \<and>
        (case log_attempt_id l of None \<Rightarrow> True | Some a \<Rightarrow> a \<in> aids))"

definition workers_ok :: "worker list \<Rightarrow> bool" where
  "workers_ok ws \<longleftrightarrow> distinct (map wk_id ws) \<and> (\<forall>w \<in> set ws. 0 < wk_concurrency w \<and> wk_queues w \<noteq> [])"

definition cron_ok :: "uuid set \<Rightarrow> cron_job list \<Rightarrow> cron_run list \<Rightarrow> bool" where
  "cron_ok jids cjs crs \<longleftrightarrow>
     distinct (map cj_id cjs) \<and> distinct (map cj_name cjs) \<and> distinct (map cr_id crs) \<and>
     distinct (map (\<lambda>r. (cr_cron_job_id r, cr_scheduled_for r)) crs) \<and>
     (\<forall>r \<in> set crs. cr_cron_job_id r \<in> cj_id ` set cjs \<and>
        (case cr_job_id r of None \<Rightarrow> True | Some i \<Rightarrow> i \<in> jids))"

definition db_ok :: "db \<Rightarrow> bool" where
  "db_ok d \<longleftrightarrow>
     jobs_ok (jobs d) (attempts d) \<and>
     logs_ok (job_id ` set (jobs d)) (att_id ` set (attempts d)) (logs d) \<and>
     workers_ok (workers d) \<and>
     cron_ok (job_id ` set (jobs d)) (cron_jobs d) (cron_runs d)"

lemma db_ok_empty: "db_ok empty_db"
  by (simp add: db_ok_def empty_db_def jobs_ok_def logs_ok_def workers_ok_def cron_ok_def
      idempotency_keys_def map_filter_simps)

section \<open>Attempts of a job\<close>

lemma attempts_of_append [table_simps]: "attempts_of i (as @ bs) = attempts_of i as @ attempts_of i bs"
  by (simp add: attempts_of_def)

lemma attempts_of_single [table_simps]:
  "attempts_of i [a] = (if att_job_id a = i then [a] else [])"
  by (simp add: attempts_of_def)

lemma set_attempts_of [simp]: "a \<in> set (attempts_of i as) \<longleftrightarrow> a \<in> set as \<and> att_job_id a = i"
  by (auto simp: attempts_of_def)

lemma attempts_of_update [table_simps]:
  assumes "\<And>a. p a \<Longrightarrow> att_job_id (g a) = att_job_id a"
  shows "attempts_of i (update_rows p g as) = update_rows p g (attempts_of i as)"
  unfolding attempts_of_def by (rule filter_update_rows) (simp add: assms)

lemma attempts_of_update_other [table_simps]:
  assumes "\<And>a. p a \<Longrightarrow> att_job_id a = i" and "\<And>a. p a \<Longrightarrow> att_job_id (g a) = att_job_id a" and "k \<noteq> i"
  shows "attempts_of k (update_rows p g as) = attempts_of k as"
proof -
  have "attempts_of k (update_rows p g as) = update_rows p g (attempts_of k as)"
    by (rule attempts_of_update) (rule assms(2))
  also have "\<dots> = attempts_of k as"
    by (rule update_rows_none) (use assms(1,3) in auto)
  finally show ?thesis .
qed

lemma attempts_of_none: "i \<notin> att_job_id ` set as \<Longrightarrow> attempts_of i as = []"
  by (auto simp: attempts_of_def filter_empty_conv)

section \<open>Operations that change one job\<close>

text \<open>
  \<open>touch\<close>: job \<open>i\<close> is rewritten by \<open>f\<close> and the attempts of the other jobs stay as they are.
\<close>

lemma jobs_ok_touch:
  assumes ok: "jobs_ok js as"
    and f: "\<And>j. job_id (f j) = job_id j" "\<And>j. job_idempotency_key (f j) = job_idempotency_key j"
    and others: "\<And>k. k \<noteq> i \<Longrightarrow> attempts_of k as' = attempts_of k as"
    and ids: "distinct (map att_id as')" "att_job_id ` set as' \<subseteq> job_id ` set js"
    and this_job: "\<And>j. j \<in> set js \<Longrightarrow> job_id j = i \<Longrightarrow> job_ok (attempts_of i as) j \<Longrightarrow>
      job_ok (attempts_of i as') (f j)"
  shows "jobs_ok (update_rows (\<lambda>j. job_id j = i) f js) as'"
proof -
  let ?js = "update_rows (\<lambda>j. job_id j = i) f js"
  have keys: "map job_id ?js = map job_id js" "idempotency_keys ?js = idempotency_keys js"
    using f(2) by (simp_all add: map_update_rows f(1) idempotency_keys_def List.map_filter_def
        update_rows_def comp_def filter_map if_distrib cong: if_cong)
  then have "job_id ` set ?js = job_id ` set js" by (metis set_map)
  moreover have "job_ok (attempts_of (job_id j) as') j" if "j \<in> set ?js" for j
  proof -
    from that obtain k where k: "k \<in> set js" "j = (if job_id k = i then f k else k)"
      by (auto simp: set_update_rows)
    have "job_ok (attempts_of (job_id k) as) k" using ok k(1) by (simp add: jobs_ok_def)
    then show ?thesis
      using k this_job [of k] others [of "job_id k"] f(1) by (cases "job_id k = i") auto
  qed
  ultimately show ?thesis using ok ids keys by (simp add: jobs_ok_def)
qed

text \<open>Rewriting any set of jobs without touching the attempts.\<close>

lemma jobs_ok_map:
  assumes ok: "jobs_ok js as"
    and f: "\<And>j. job_id (f j) = job_id j" "\<And>j. job_idempotency_key (f j) = job_idempotency_key j"
    and each: "\<And>j as. p j \<Longrightarrow> job_ok as j \<Longrightarrow> job_ok as (f j)"
  shows "jobs_ok (update_rows p f js) as"
proof -
  have keys: "map job_id (update_rows p f js) = map job_id js"
    "idempotency_keys (update_rows p f js) = idempotency_keys js"
    using f(2) by (simp_all add: map_update_rows f(1) idempotency_keys_def List.map_filter_def
        update_rows_def comp_def filter_map if_distrib cong: if_cong)
  then have "job_id ` set (update_rows p f js) = job_id ` set js" by (metis set_map)
  then show ?thesis using ok each f(1) keys by (auto simp: jobs_ok_def set_update_rows)
qed

lemma jobs_ok_insert:
  assumes ok: "jobs_ok js as" and new: "job_id j \<notin> job_id ` set js"
    and key: "case job_idempotency_key j of None \<Rightarrow> True | Some k \<Rightarrow> k \<notin> set (idempotency_keys js)"
    and j: "job_ok [] j"
  shows "jobs_ok (js @ [j]) as"
proof -
  have "job_id j \<notin> att_job_id ` set as" using ok new by (auto simp: jobs_ok_def)
  then have "attempts_of (job_id j) as = []" by (rule attempts_of_none)
  moreover have "distinct (idempotency_keys (js @ [j]))"
    using ok key by (auto simp: jobs_ok_def idempotency_keys_def List.map_filter_def split: option.splits)
  ultimately show ?thesis using ok new j by (auto simp: jobs_ok_def)
qed

lemma idempotency_key_unique:
  "distinct (idempotency_keys js) \<Longrightarrow> j \<in> set js \<Longrightarrow> k \<in> set js \<Longrightarrow>
    job_idempotency_key j = Some x \<Longrightarrow> job_idempotency_key k = Some x \<Longrightarrow> j = k"
proof (induction js)
  case (Cons a js)
  have "x \<in> set (idempotency_keys js)" if "l \<in> set js" "job_idempotency_key l = Some x" for l
    using that by (force simp: idempotency_keys_def List.map_filter_def)
  with Cons show ?case
    by (auto simp: idempotency_keys_def map_filter_simps split: option.splits)
qed simp

end
