(* ===== verification/JobStore.thy ===== *)
theory JobStore
  imports Invariant
begin

text \<open>
  The job operations of \<open>storage.go\<close> that the API calls: \<open>CreateJob\<close>, \<open>GetJob\<close>, \<open>ListJobs\<close>,
  \<open>ListJobAttempts\<close>, \<open>AppendJobLog\<close>, \<open>ListJobLogs\<close>, \<open>RetryJob\<close>, \<open>CancelJob\<close>. Every operation takes
  the database's \<open>now()\<close> (the time its transaction started), the identifiers that
  \<open>gen_random_uuid()\<close> hands out and the \<open>net\<close> that carries it; \<open>jsonb\<close> is the database's normal
  form of a JSON text.
\<close>

section \<open>Parameters and helpers\<close>

record create_params =
  cp_queue :: string
  cp_type :: string
  cp_payload :: string
  cp_priority :: int
  cp_max_attempts :: int
  cp_timeout_seconds :: int
  cp_delay_seconds :: int
  cp_idempotency_key :: "string option"
  cp_traceparent :: string
  cp_tracestate :: string

record list_filter =
  lf_status :: string
  lf_queue :: string
  lf_limit :: int

record log_params =
  lp_job_id :: uuid
  lp_attempt_id :: "uuid option"
  lp_level :: string
  lp_message :: string
  lp_fields :: string

definition nullableStringValue :: "string option \<Rightarrow> string" where
  "nullableStringValue v = (case v of None \<Rightarrow> [] | Some s \<Rightarrow> s)"

text \<open>SQL's \<open>NULLIF(x, y)\<close>.\<close>

definition nullif :: "'a \<Rightarrow> 'a \<Rightarrow> 'a option" where
  "nullif x y = (if x = y then None else Some x)"

text \<open>
  The interval that \<open>intervalLiteral\<close> prints: a negative duration counts as 0, and six decimals of a
  second round to the nearest microsecond (whole microseconds are printed exactly).
\<close>

definition intervalLiteral :: "duration \<Rightarrow> duration" where
  "intervalLiteral d = (if d < 0 then 0 else (d + 500) div 1000 * 1000)"

text \<open>An \<open>UPDATE jobs\<close> with \<open>RETURNING\<close>; \<open>fits\<close> is false where an \<open>integer\<close> column would overflow.\<close>

definition update_jobs :: "(job \<Rightarrow> bool) \<Rightarrow> (job \<Rightarrow> bool) \<Rightarrow> (job \<Rightarrow> job) \<Rightarrow> job list stmt" where
  "update_jobs fits p f d =
     (if list_all (\<lambda>j. p j \<longrightarrow> fits j) (jobs d)
      then Inr (map f (filter p (jobs d)), d\<lparr>jobs := update_rows p f (jobs d)\<rparr>)
      else Inl (ErrConstraint ''integer out of range''))"

abbreviation (input) by_id :: "uuid \<Rightarrow> job \<Rightarrow> bool" where
  "by_id i j \<equiv> job_id j = i"

definition select_job :: "uuid \<Rightarrow> db \<Rightarrow> job list" where
  "select_job i d = filter (by_id i) (jobs d)"

section \<open>Logs\<close>

definition check_log :: "log_params \<Rightarrow> error + log_params" where
  "check_log p =
     (let p1 = p\<lparr>lp_level := ToLower (TrimSpace (lp_level p))\<rparr>;
          p2 = (if lp_level p1 = [] then p1\<lparr>lp_level := ''info''\<rparr> else p1)
      in if lp_level p2 \<noteq> ''debug'' \<and> lp_level p2 \<noteq> ''info'' \<and> lp_level p2 \<noteq> ''warn'' \<and>
            lp_level p2 \<noteq> ''error''
         then Inl (ErrNew ''job log level must be debug, info, warn, or error'')
         else
           (let p3 = p2\<lparr>lp_message := TrimSpace (lp_message p2)\<rparr>
            in if lp_message p3 = [] then Inl (ErrNew ''job log message is required'')
               else
                 (let p4 = (if lp_fields p3 = [] then p3\<lparr>lp_fields := [CHR 0x7B, CHR 0x7D]\<rparr> else p3)
                  in if \<not> json_Valid (lp_fields p4) then Inl (ErrNew ''job log fields must be valid JSON'')
                     else Inr p4)))"

definition insert_log :: "(string \<Rightarrow> string) \<Rightarrow> instant \<Rightarrow> uuid \<Rightarrow> log_params \<Rightarrow> job_log stmt" where
  "insert_log jsonb now gid p d =
     (let l = \<lparr>log_id = gid, log_job_id = lp_job_id p, log_attempt_id = lp_attempt_id p,
               log_logged_at = now, log_level = lp_level p, log_message = lp_message p,
               log_fields = jsonb (lp_fields p)\<rparr>
      in if gid \<in> log_id ` set (logs d) then Inl (ErrConstraint ''job_logs_pkey'')
         else if lp_job_id p \<notin> job_id ` set (jobs d) then Inl (ErrConstraint ''job_logs_job_id_fkey'')
         else if (case lp_attempt_id p of None \<Rightarrow> False | Some a \<Rightarrow> a \<notin> att_id ` set (attempts d))
         then Inl (ErrConstraint ''job_logs_attempt_id_fkey'')
         else Inr (l, d\<lparr>logs := logs d @ [l]\<rparr>))"

definition appendJobLog :: "(string \<Rightarrow> string) \<Rightarrow> instant \<Rightarrow> uuid \<Rightarrow> log_params \<Rightarrow> job_log tx" where
  "appendJobLog jsonb now gid p =
     (case check_log p of Inl e \<Rightarrow> tx_fail e | Inr q \<Rightarrow> sql (insert_log jsonb now gid q))"

text \<open>\<open>AppendJobLog\<close> runs the same code on the pool instead of a transaction.\<close>

definition AppendJobLog ::
  "(string \<Rightarrow> string) \<Rightarrow> net \<Rightarrow> instant \<Rightarrow> uuid \<Rightarrow> log_params \<Rightarrow> db \<Rightarrow> job_log result" where
  "AppendJobLog jsonb net now gid p d =
     (case check_log p of Inl e \<Rightarrow> (Inl e, d) | Inr q \<Rightarrow> run_sql (insert_log jsonb now gid q) (net 0) d)"

definition ListJobLogs :: "net \<Rightarrow> uuid \<Rightarrow> int \<Rightarrow> db \<Rightarrow> job_log list result" where
  "ListJobLogs net i limit d =
     (let limit = (if limit \<le> 0 \<or> limit > 500 then 100 else limit)
      in run_sql (query (\<lambda>d. take (nat limit)
           (order_by (asc log_logged_at (asc (\<lambda>l. uint (log_id l)) ties))
              (filter (\<lambda>l. log_job_id l = i) (logs d))))) (net 0) d)"

section \<open>Creating a job\<close>

definition new_job :: "(string \<Rightarrow> string) \<Rightarrow> instant \<Rightarrow> uuid \<Rightarrow> create_params \<Rightarrow> job" where
  "new_job jsonb now gid p =
     \<lparr>job_id = gid, job_queue = cp_queue p, job_type = cp_type p, job_payload = jsonb (cp_payload p),
      job_status = Queued, job_priority = cp_priority p, job_max_attempts = cp_max_attempts p,
      job_attempt_count = 0,
      job_idempotency_key = nullif (nullableStringValue (cp_idempotency_key p)) [],
      job_locked_by = None, job_locked_until = None, job_lease_token = None,
      job_timeout_seconds = nullif (cp_timeout_seconds p) 0,
      job_traceparent = nullif (cp_traceparent p) [], job_tracestate = nullif (cp_tracestate p) [],
      job_available_at = now + intervalLiteral (cp_delay_seconds p * second),
      job_dead_lettered_at = None, job_created_at = now, job_updated_at = now,
      job_completed_at = None, job_last_error = None\<rparr>"

definition key_taken :: "string option \<Rightarrow> db \<Rightarrow> bool" where
  "key_taken k d \<longleftrightarrow> k \<noteq> None \<and> list_ex (\<lambda>j. job_idempotency_key j = k) (jobs d)"

text \<open>\<open>INSERT ... ON CONFLICT (idempotency_key) WHERE idempotency_key IS NOT NULL DO NOTHING\<close>.\<close>

definition insert_job :: "job \<Rightarrow> job list stmt" where
  "insert_job j d =
     (if key_taken (job_idempotency_key j) d then Inr ([], d)
      else if job_id j \<in> job_id ` set (jobs d) then Inl (ErrConstraint ''jobs_pkey'')
      else Inr ([j], d\<lparr>jobs := jobs d @ [j]\<rparr>))"

definition check_create :: "create_params \<Rightarrow> error + create_params" where
  "check_create p =
     (let p1 = (if cp_queue p = [] then p\<lparr>cp_queue := ''default''\<rparr> else p);
          p2 = (if cp_max_attempts p1 \<le> 0 then p1\<lparr>cp_max_attempts := 1\<rparr> else p1)
      in if cp_timeout_seconds p2 < 0 then Inl (ErrNew ''timeout_seconds must be non-negative'')
         else if cp_delay_seconds p2 < 0 then Inl (ErrNew ''delay_seconds must be non-negative'')
         else
           (let p3 = (if cp_payload p2 = [] then p2\<lparr>cp_payload := [CHR 0x7B, CHR 0x7D]\<rparr> else p2)
            in if \<not> json_Valid (cp_payload p3) then Inl (ErrNew ''payload must be valid JSON'')
               else Inr p3))"

definition CreateJob ::
  "(string \<Rightarrow> string) \<Rightarrow> net \<Rightarrow> instant \<Rightarrow> uuid \<Rightarrow> create_params \<Rightarrow> db \<Rightarrow> (job \<times> bool) result" where
  "CreateJob jsonb net now gid p d =
     (case check_create p of
        Inl e \<Rightarrow> (Inl e, d)
      | Inr q \<Rightarrow>
          (case scan_result (run_sql (insert_job (new_job jsonb now gid q)) (net 0) d) of
             (Inr job, d') \<Rightarrow> (Inr (job, False), d')
           | (Inl e, d') \<Rightarrow>
               if e \<noteq> ErrNoRows then (Inl e, d')
               else if nullableStringValue (cp_idempotency_key q) = []
               then (Inl (ErrNew ''job insert returned no row''), d')
               else
                 (case scan_result (run_sql (query (\<lambda>d. filter
                          (\<lambda>j. job_idempotency_key j = cp_idempotency_key q) (jobs d))) (net 1) d') of
                    (Inl e, d'') \<Rightarrow> (Inl e, d'')
                  | (Inr existing, d'') \<Rightarrow> (Inr (existing, True), d''))))"

section \<open>Reading jobs\<close>

definition GetJob :: "net \<Rightarrow> uuid \<Rightarrow> db \<Rightarrow> job result" where
  "GetJob net i d = scan_result (run_sql (query (select_job i)) (net 0) d)"

definition ListJobs :: "net \<Rightarrow> list_filter \<Rightarrow> db \<Rightarrow> job list result" where
  "ListJobs net f d =
     (let limit = (if lf_limit f \<le> 0 \<or> lf_limit f > 100 then 50 else lf_limit f)
      in run_sql (query (\<lambda>d. take (nat limit)
           (order_by (desc job_created_at ties)
              (filter (\<lambda>j. (lf_status f = [] \<or> job_status_text (job_status j) = lf_status f) \<and>
                           (lf_queue f = [] \<or> job_queue j = lf_queue f)) (jobs d))))) (net 0) d)"

definition ListJobAttempts :: "net \<Rightarrow> uuid \<Rightarrow> db \<Rightarrow> attempt list result" where
  "ListJobAttempts net i d =
     run_sql (query (\<lambda>d. order_by (asc att_number ties) (attempts_of i (attempts d)))) (net 0) d"

section \<open>Manual retry and cancellation\<close>

definition retry_set :: "instant \<Rightarrow> job \<Rightarrow> job" where
  "retry_set now j =
     j\<lparr>job_status := Queued,
       job_max_attempts := max (job_max_attempts j) (job_attempt_count j + 1),
       job_available_at := now, job_dead_lettered_at := None, job_completed_at := None,
       job_locked_by := None, job_locked_until := None, job_lease_token := None,
       job_last_error := None, job_updated_at := now\<rparr>"

definition status_log :: "uuid \<Rightarrow> string \<Rightarrow> string \<Rightarrow> job_status \<Rightarrow> log_params" where
  "status_log i level message previous =
     \<lparr>lp_job_id = i, lp_attempt_id = None, lp_level = level, lp_message = message,
      lp_fields = json_object [(''previous_status'', job_status_text previous)]\<rparr>"

definition RetryJob :: "(string \<Rightarrow> string) \<Rightarrow> instant \<Rightarrow> uuid \<Rightarrow> uuid \<Rightarrow> net \<Rightarrow> db \<Rightarrow> job result" where
  "RetryJob jsonb now gid i = run_tx (
     tx_bind (sql (query (select_job i))) (\<lambda>rows.
     tx_bind (tx_scan rows) (\<lambda>current.
     if job_status current \<noteq> Failed \<and> job_status current \<noteq> DeadLetter \<and> job_status current \<noteq> Cancelled
     then tx_fail (ErrInvalidState ''only failed, dead_letter, or cancelled jobs can be retried'')
     else
     tx_bind (sql (update_jobs (\<lambda>j. int32 (job_attempt_count j + 1)) (by_id i) (retry_set now))) (\<lambda>rows.
     tx_bind (tx_scan rows) (\<lambda>job.
     tx_bind (appendJobLog jsonb now gid
       (status_log (job_id job) ''info'' ''job manually retried'' (job_status current))) (\<lambda>_.
     tx_return job))))))"

definition cancel_set :: "instant \<Rightarrow> job \<Rightarrow> job" where
  "cancel_set now j =
     j\<lparr>job_status := Cancelled, job_completed_at := Some now, job_updated_at := now,
       job_locked_by := None, job_locked_until := None, job_lease_token := None,
       job_last_error := Some ''cancelled by operator''\<rparr>"

definition CancelJob :: "(string \<Rightarrow> string) \<Rightarrow> instant \<Rightarrow> uuid \<Rightarrow> uuid \<Rightarrow> net \<Rightarrow> db \<Rightarrow> job result" where
  "CancelJob jsonb now gid i = run_tx (
     tx_bind (sql (query (select_job i))) (\<lambda>rows.
     tx_bind (tx_scan rows) (\<lambda>current.
     if job_status current \<noteq> Queued \<and> job_status current \<noteq> RetryScheduled
     then tx_fail (ErrInvalidState ''only queued or retry_scheduled jobs can be cancelled'')
     else
     tx_bind (sql (update_jobs (\<lambda>j. True) (by_id i) (cancel_set now))) (\<lambda>rows.
     tx_bind (tx_scan rows) (\<lambda>job.
     tx_bind (appendJobLog jsonb now gid
       (status_log (job_id job) ''warn'' ''job cancelled'' (job_status current))) (\<lambda>_.
     tx_return job))))))"

section \<open>Facts\<close>

lemma hd_filter_find_row:
  "filter (\<lambda>r. key r = k) rs \<noteq> [] \<Longrightarrow> find_row key k rs = Some (hd (filter (\<lambda>r. key r = k) rs))"
  by (induction rs) (auto simp: find_row_def)

lemma hd_filter_key:
  "filter (\<lambda>r. key r = k) rs \<noteq> [] \<Longrightarrow> key (hd (filter (\<lambda>r. key r = k) rs)) = k"
  by (induction rs) auto

lemma retry_set_simps [simp]:
  "job_id (retry_set now j) = job_id j" "job_idempotency_key (retry_set now j) = job_idempotency_key j"
  "job_status (retry_set now j) = Queued"
  by (simp_all add: retry_set_def)

lemma cancel_set_simps [simp]:
  "job_id (cancel_set now j) = job_id j" "job_idempotency_key (cancel_set now j) = job_idempotency_key j"
  "job_status (cancel_set now j) = Cancelled"
  by (simp_all add: cancel_set_def)

lemma new_job_simps [simp]:
  "job_id (new_job jsonb now gid p) = gid" "job_status (new_job jsonb now gid p) = Queued"
  "job_idempotency_key (new_job jsonb now gid p) = nullif (nullableStringValue (cp_idempotency_key p)) []"
  by (simp_all add: new_job_def)

lemma trimmed_literals [simp]:
  "TrimSpace ''info'' = ''info''" "TrimSpace ''warn'' = ''warn''"
  "TrimSpace ''job manually retried'' = ''job manually retried''"
  "TrimSpace ''job cancelled'' = ''job cancelled''"
  "TrimSpace ''cron job fired'' = ''cron job fired''"
  "ToLower ''info'' = ''info''" "ToLower ''warn'' = ''warn''"
  by code_simp+

lemma check_log_Inr:
  "check_log p = Inr q \<Longrightarrow>
    lp_job_id q = lp_job_id p \<and> lp_attempt_id q = lp_attempt_id p \<and>
    lp_level q \<in> set log_levels \<and> lp_message q \<noteq> [] \<and> json_Valid (lp_fields q)"
  by (auto simp: check_log_def Let_def log_levels_def split: if_splits)

text \<open>What one log row adds.\<close>

definition log_commit :: "uuid \<Rightarrow> log_params \<Rightarrow> db \<Rightarrow> job_log \<Rightarrow> db \<Rightarrow> bool" where
  "log_commit gid p d l d' \<longleftrightarrow>
     gid \<notin> log_id ` set (logs d) \<and> lp_job_id p \<in> job_id ` set (jobs d) \<and>
     (case lp_attempt_id p of None \<Rightarrow> True | Some a \<Rightarrow> a \<in> att_id ` set (attempts d)) \<and>
     log_id l = gid \<and> log_job_id l = lp_job_id p \<and> log_attempt_id l = lp_attempt_id p \<and>
     log_level l \<in> set log_levels \<and> log_message l \<noteq> [] \<and> d' = d\<lparr>logs := logs d @ [l]\<rparr>"

lemma insert_log_commit:
  assumes "check_log p = Inr q" and "insert_log jsonb now gid q d = Inr (l, d')"
  shows "log_commit gid p d l d'"
  using assms(2) check_log_Inr [OF assms(1)]
  by (auto simp: insert_log_def log_commit_def Let_def split: if_splits option.splits)

lemma appendJobLog_Inr:
  "appendJobLog jsonb now gid p net n d = Inr (l, n', d') \<Longrightarrow> log_commit gid p d l d'"
  by (auto simp: appendJobLog_def tx_simps split: sum.splits intro: insert_log_commit)

lemma log_commit_db_ok: "db_ok d \<Longrightarrow> log_commit gid p d l d' \<Longrightarrow> db_ok d'"
  by (auto simp: db_ok_def logs_ok_def log_commit_def)

interpretation append_log: store_operation "\<lambda>net. AppendJobLog jsonb net now gid p" "log_commit gid p"
  for jsonb now gid p
proof
  fix net d r d'
  assume run: "AppendJobLog jsonb net now gid p d = (r, d')"
  show "(d' = d \<and> (\<exists>e. r = Inl e)) \<or> (\<exists>l. log_commit gid p d l d' \<and> (r = Inr l \<or> r = Inl ErrConn))"
  proof (cases "check_log p")
    case (Inl e)
    then show ?thesis using run by (auto simp: AppendJobLog_def)
  next
    case (Inr q)
    then have "run_sql (insert_log jsonb now gid q) (net 0) d = (r, d')"
      using run by (simp add: AppendJobLog_def)
    then show ?thesis
      by (cases rule: run_sql_cases) (auto dest: insert_log_commit [OF Inr])
  qed
qed

subsection \<open>Retry and cancel\<close>

definition manual_commit ::
  "(job_status \<Rightarrow> bool) \<Rightarrow> (job \<Rightarrow> job) \<Rightarrow> (job_status \<Rightarrow> log_params) \<Rightarrow> uuid \<Rightarrow> uuid \<Rightarrow> db \<Rightarrow> job \<Rightarrow> db \<Rightarrow> bool" where
  "manual_commit allowed f lp gid i d job d' \<longleftrightarrow>
     (\<exists>current l. find_row job_id i (jobs d) = Some current \<and> allowed (job_status current) \<and>
        job = f current \<and>
        log_commit gid (lp (job_status current)) (d\<lparr>jobs := update_rows (by_id i) f (jobs d)\<rparr>) l d')"

definition retryable :: "job_status \<Rightarrow> bool" where
  "retryable s \<longleftrightarrow> s \<in> {Failed, DeadLetter, Cancelled}"

abbreviation (input) retry_commit :: "instant \<Rightarrow> uuid \<Rightarrow> uuid \<Rightarrow> db \<Rightarrow> job \<Rightarrow> db \<Rightarrow> bool" where
  "retry_commit now gid i \<equiv>
     manual_commit retryable (retry_set now) (status_log i ''info'' ''job manually retried'') gid i"

abbreviation (input) cancel_commit :: "instant \<Rightarrow> uuid \<Rightarrow> uuid \<Rightarrow> db \<Rightarrow> job \<Rightarrow> db \<Rightarrow> bool" where
  "cancel_commit now gid i \<equiv>
     manual_commit claimable (cancel_set now) (status_log i ''warn'' ''job cancelled'') gid i"

lemma update_jobs_Inr [tx_simps]:
  "update_jobs fits p f d = Inr (rs, d') \<longleftrightarrow>
     (\<forall>j \<in> set (jobs d). p j \<longrightarrow> fits j) \<and> rs = map f (filter p (jobs d)) \<and>
     d' = d\<lparr>jobs := update_rows p f (jobs d)\<rparr>"
  by (auto simp: update_jobs_def list_all_iff)

interpretation retry: store_operation "RetryJob jsonb now gid i" "retry_commit now gid i" for jsonb now gid i
  unfolding RetryJob_def
proof (rule run_tx_operation, goal_cases)
  case (1 net n d a n' d')
  then show ?case
    by (auto simp: tx_simps select_job_def manual_commit_def retryable_def hd_map hd_filter_find_row
        hd_filter_key dest!: appendJobLog_Inr split: if_splits)
qed

interpretation cancel: store_operation "CancelJob jsonb now gid i" "cancel_commit now gid i" for jsonb now gid i
  unfolding CancelJob_def
proof (rule run_tx_operation, goal_cases)
  case (1 net n d a n' d')
  then show ?case
    by (auto simp: tx_simps select_job_def manual_commit_def claimable_def hd_map hd_filter_find_row
        hd_filter_key dest!: appendJobLog_Inr split: if_splits)
qed

lemma retry_job_ok: "job_ok as j \<Longrightarrow> retryable (job_status j) \<Longrightarrow> job_ok as (retry_set now j)"
  by (auto simp: job_ok_def count_ok_def lease_ok_def status_ok_def retry_set_def retryable_def
      terminal_def claimable_def normalizedMaxAttempts_def split: option.splits)

lemma cancel_job_ok: "job_ok as j \<Longrightarrow> claimable (job_status j) \<Longrightarrow> job_ok as (cancel_set now j)"
  by (auto simp: job_ok_def count_ok_def lease_ok_def status_ok_def cancel_set_def claimable_def
      terminal_def normalizedMaxAttempts_def split: option.splits)

lemma manual_commit_db_ok:
  assumes "db_ok d" and "manual_commit allowed f lp gid i d job d'"
    and f: "\<And>j. job_id (f j) = job_id j" "\<And>j. job_idempotency_key (f j) = job_idempotency_key j"
    and ok: "\<And>as j. job_ok as j \<Longrightarrow> allowed (job_status j) \<Longrightarrow> job_ok as (f j)"
  shows "db_ok d'"
proof -
  obtain current l where c: "find_row job_id i (jobs d) = Some current" "allowed (job_status current)"
    and l: "log_commit gid (lp (job_status current)) (d\<lparr>jobs := update_rows (by_id i) f (jobs d)\<rparr>) l d'"
    using assms(2) by (auto simp: manual_commit_def)
  have js: "jobs_ok (jobs d) (attempts d)" using assms(1) by (simp add: db_ok_def)
  have "jobs_ok (update_rows (by_id i) f (jobs d)) (attempts d)"
  proof (rule jobs_ok_touch [OF js f])
    fix j assume "j \<in> set (jobs d)" "job_id j = i" "job_ok (attempts_of i (attempts d)) j"
    moreover have "j = current"
      using calculation(1,2) js find_row_Some [OF c(1)] by (auto simp: jobs_ok_def intro: key_unique)
    ultimately show "job_ok (attempts_of i (attempts d)) (f j)" using ok c(2) by blast
  qed (use js in \<open>auto simp: jobs_ok_def\<close>)
  moreover have "job_id ` set (update_rows (by_id i) f (jobs d)) = job_id ` set (jobs d)"
    using map_update_rows [of "by_id i" job_id f "jobs d"] f(1) by (metis set_map)
  ultimately have "db_ok (d\<lparr>jobs := update_rows (by_id i) f (jobs d)\<rparr>)"
    using assms(1) by (simp add: db_ok_def)
  then show ?thesis using l by (rule log_commit_db_ok)
qed

subsection \<open>Creation\<close>

definition create_commit ::
  "(string \<Rightarrow> string) \<Rightarrow> instant \<Rightarrow> uuid \<Rightarrow> create_params \<Rightarrow> db \<Rightarrow> job \<times> bool \<Rightarrow> db \<Rightarrow> bool" where
  "create_commit jsonb now gid p d r d' \<longleftrightarrow>
     (\<exists>q. check_create p = Inr q \<and>
        (if snd r
         then key_taken (cp_idempotency_key q) d \<and> d' = d \<and> fst r \<in> set (jobs d) \<and>
              nullableStringValue (cp_idempotency_key q) \<noteq> [] \<and>
              job_idempotency_key (fst r) = cp_idempotency_key q
         else fst r = new_job jsonb now gid q \<and> gid \<notin> job_id ` set (jobs d) \<and>
              \<not> key_taken (job_idempotency_key (fst r)) d \<and> d' = d\<lparr>jobs := jobs d @ [fst r]\<rparr>))"

lemma check_create_Inr:
  assumes "check_create p = Inr q"
  shows "cp_idempotency_key q = cp_idempotency_key p" "0 < cp_max_attempts q"
    "0 \<le> cp_timeout_seconds q" "0 \<le> cp_delay_seconds q" "json_Valid (cp_payload q)" "cp_queue q \<noteq> []"
  using assms by (auto simp: check_create_def Let_def split: if_splits)

lemma run_sql_insert_job:
  "run_sql (insert_job j) r d = (x, d') \<Longrightarrow>
    (d' = d \<and> (x = Inr [] \<longrightarrow> key_taken (job_idempotency_key j) d) \<and> (\<forall>rows. x = Inr rows \<longrightarrow> rows = [])) \<or>
    (\<not> key_taken (job_idempotency_key j) d \<and> job_id j \<notin> job_id ` set (jobs d) \<and>
      d' = d\<lparr>jobs := jobs d @ [j]\<rparr> \<and> (x = Inr [j] \<or> x = Inl ErrConn))"
  by (auto simp: run_sql_def insert_job_def split: reply.splits if_splits)

lemma run_sql_query: "run_sql (query f) r d = ((if r = Served then Inr (f d) else Inl ErrConn), d)"
  by (simp add: run_sql_def query_def split: reply.splits)

lemma run_sql_no_rows: "run_sql (insert_job j) r d = (x, d') \<Longrightarrow> x \<noteq> Inl ErrNoRows"
  by (auto simp: run_sql_def insert_job_def split: reply.splits if_splits)

lemma nullif_Some: "nullif (nullableStringValue k) [] = (if nullableStringValue k = [] then None else k)"
  by (auto simp: nullif_def nullableStringValue_def split: option.splits)

interpretation create: store_operation "\<lambda>net. CreateJob jsonb net now gid p" "create_commit jsonb now gid p"
  for jsonb now gid p
proof
  fix net d r d'
  assume run: "CreateJob jsonb net now gid p d = (r, d')"
  show "(d' = d \<and> (\<exists>e. r = Inl e)) \<or>
    (\<exists>a. create_commit jsonb now gid p d a d' \<and> (r = Inr a \<or> r = Inl ErrConn))"
  proof (cases "check_create p")
    case (Inl e)
    then show ?thesis using run by (auto simp: CreateJob_def)
  next
    case (Inr q)
    let ?j = "new_job jsonb now gid q"
    obtain x d1 where ins: "run_sql (insert_job ?j) (net 0) d = (x, d1)" by fastforce
    show ?thesis
    proof (cases "d1 = d \<and> (\<forall>rows. x = Inr rows \<longrightarrow> rows = [])")
      case True
      show ?thesis
      proof (cases "x = Inr [] \<and> nullableStringValue (cp_idempotency_key q) \<noteq> []")
        case False
        then have "d' = d \<and> (\<exists>e. r = Inl e)"
          using run True run_sql_no_rows [OF ins] by (cases x) (auto simp: CreateJob_def Inr ins scan_result_def scan_row_def split: if_splits)
        then show ?thesis by blast
      next
        case keyed: True
        have taken: "key_taken (cp_idempotency_key q) d"
          using run_sql_insert_job [OF ins] keyed by (auto simp: nullif_Some)
        let ?rows = "filter (\<lambda>j. job_idempotency_key j = cp_idempotency_key q) (jobs d)"
        have "d' = d \<and> r = (if net 1 \<noteq> Served then Inl ErrConn
            else case ?rows of [] \<Rightarrow> Inl ErrNoRows | j # _ \<Rightarrow> Inr (j, True))"
          using run True keyed
          by (simp add: CreateJob_def Inr ins run_sql_query scan_result_def scan_row_def split: list.splits if_splits)
        moreover have "create_commit jsonb now gid p d (j, True) d" if "?rows = j # js" for j js
          using that taken Inr keyed by (auto simp: create_commit_def filter_eq_Cons_iff)
        ultimately show ?thesis by (cases ?rows) (auto split: if_splits)
      qed
    next
      case False
      then have new: "\<not> key_taken (job_idempotency_key ?j) d" "job_id ?j \<notin> job_id ` set (jobs d)"
        "d1 = d\<lparr>jobs := jobs d @ [?j]\<rparr>" "x = Inr [?j] \<or> x = Inl ErrConn"
        using run_sql_insert_job [OF ins] by blast+
      then have "create_commit jsonb now gid p d (?j, False) d1"
        using Inr by (simp add: create_commit_def)
      moreover have "d' = d1 \<and> (r = Inr (?j, False) \<or> r = Inl ErrConn)"
        using run new(4) by (auto simp: CreateJob_def Inr ins scan_result_def scan_row_def)
      ultimately show ?thesis by blast
    qed
  qed
qed

lemma new_job_ok: "job_ok [] (new_job jsonb now gid p)"
  by (auto simp: job_ok_def count_ok_def lease_ok_def status_ok_def new_job_def terminal_def
      claimable_def normalizedMaxAttempts_def)

lemma key_taken_keys:
  "\<not> key_taken k d \<Longrightarrow> case k of None \<Rightarrow> True | Some x \<Rightarrow> x \<notin> set (idempotency_keys (jobs d))"
  by (auto simp: key_taken_def idempotency_keys_def List.map_filter_def list_ex_iff split: option.splits)

lemma insert_job_db_ok:
  assumes "db_ok d" and "\<not> key_taken (job_idempotency_key j) d" and "job_id j \<notin> job_id ` set (jobs d)"
    and "job_ok [] j"
  shows "db_ok (d\<lparr>jobs := jobs d @ [j]\<rparr>)"
proof -
  have "jobs_ok (jobs d @ [j]) (attempts d)"
    using assms by (intro jobs_ok_insert key_taken_keys) (auto simp: db_ok_def)
  then show ?thesis using assms(1) by (auto simp: db_ok_def logs_ok_def cron_ok_def split: option.splits)
qed

lemma create_commit_db_ok: "db_ok d \<Longrightarrow> create_commit jsonb now gid p d r d' \<Longrightarrow> db_ok d'"
  by (auto simp: create_commit_def new_job_ok intro: insert_job_db_ok split: if_splits)

subsection \<open>Every operation keeps the invariant\<close>

lemma CreateJob_db_ok: "db_ok d \<Longrightarrow> db_ok (snd (CreateJob jsonb net now gid p d))"
  by (rule create.preserves) (auto intro: create_commit_db_ok)

lemma AppendJobLog_db_ok: "db_ok d \<Longrightarrow> db_ok (snd (AppendJobLog jsonb net now gid p d))"
  by (rule append_log.preserves) (auto intro: log_commit_db_ok)

lemma RetryJob_db_ok: "db_ok d \<Longrightarrow> db_ok (snd (RetryJob jsonb now gid i net d))"
  by (rule retry.preserves) (auto intro: manual_commit_db_ok retry_job_ok)

lemma CancelJob_db_ok: "db_ok d \<Longrightarrow> db_ok (snd (CancelJob jsonb now gid i net d))"
  by (rule cancel.preserves) (auto intro: manual_commit_db_ok cancel_job_ok)

lemmas job_store_db_ok = CreateJob_db_ok AppendJobLog_db_ok RetryJob_db_ok CancelJob_db_ok

section \<open>Properties\<close>

text \<open>Concrete values for the witnesses.\<close>

definition sample_params :: create_params where
  "sample_params = \<lparr>cp_queue = [], cp_type = ''email'', cp_payload = [], cp_priority = 5,
     cp_max_attempts = 3, cp_timeout_seconds = 0, cp_delay_seconds = 0,
     cp_idempotency_key = Some ''k1'', cp_traceparent = [], cp_tracestate = []\<rparr>"

definition sample_job :: job where
  "sample_job = \<lparr>job_id = 7, job_queue = ''default'', job_type = ''email'',
     job_payload = [CHR 0x7B, CHR 0x7D], job_status = Queued, job_priority = 5,
     job_max_attempts = 3, job_attempt_count = 0, job_idempotency_key = Some ''k1'',
     job_locked_by = None, job_locked_until = None, job_lease_token = None,
     job_timeout_seconds = None, job_traceparent = None, job_tracestate = None,
     job_available_at = 100, job_dead_lettered_at = None, job_created_at = 100,
     job_updated_at = 100, job_completed_at = None, job_last_error = None\<rparr>"

definition sample_db :: db where
  "sample_db = empty_db\<lparr>jobs := [sample_job]\<rparr>"

lemma sample_job_ok: "job_ok [] sample_job"
  by (simp add: sample_job_def job_ok_def count_ok_def lease_ok_def status_ok_def terminal_def
      claimable_def normalizedMaxAttempts_def)

lemma sample_db_ok: "db_ok sample_db"
  unfolding sample_db_def using sample_job_ok insert_job_db_ok [OF db_ok_empty, of sample_job]
  by (simp add: empty_db_def key_taken_def)

lemma sample_create:
  "CreateJob id all_served 100 7 sample_params empty_db = (Inr (sample_job, False), sample_db)"
  by code_simp

lemma key_taken_unique:
  assumes "db_ok d" "j \<in> set (jobs d)" "job_idempotency_key j = Some k"
  shows "filter (\<lambda>j. job_idempotency_key j = Some k) (jobs d) = [j]"
proof -
  have ks: "distinct (idempotency_keys (jobs d))" and "distinct (map job_id (jobs d))"
    using assms(1) by (auto simp: db_ok_def jobs_ok_def)
  then have "distinct (filter (\<lambda>j. job_idempotency_key j = Some k) (jobs d))"
    by (auto intro: distinct_filter simp: distinct_map)
  moreover have "set (filter (\<lambda>j. job_idempotency_key j = Some k) (jobs d)) = {j}"
    using assms(2,3) idempotency_key_unique [OF ks] by auto
  ultimately show ?thesis
    by (metis distinct_card card.insert card.empty finite.emptyI length_0_conv length_Suc_conv
        list.set_intros(1) singletonD empty_iff One_nat_def)
qed

text \<open>Once a key is taken, a valid request with it can only return the job that has it.\<close>

lemma CreateJob_taken:
  assumes "db_ok d" "j \<in> set (jobs d)" "job_idempotency_key j = Some k" "k \<noteq> []"
    and "check_create p = Inr q" "cp_idempotency_key p = Some k"
  shows "CreateJob jsonb net now gid p d =
    (if net 0 = Served \<and> net 1 = Served then Inr (j, True) else Inl ErrConn, d)"
proof -
  have key: "cp_idempotency_key q = Some k" using check_create_Inr(1) [OF assms(5)] assms(6) by simp
  then have nv: "nullableStringValue (cp_idempotency_key q) = k" by (simp add: nullableStringValue_def)
  have taken: "key_taken (Some k) d" using assms(2,3) by (auto simp: key_taken_def list_ex_iff)
  have new: "job_idempotency_key (new_job jsonb now gid q) = Some k"
    using nv assms(4) by (simp add: nullif_def)
  have ins: "run_sql (insert_job (new_job jsonb now gid q)) r d =
      (if r = Served then Inr [] else Inl ErrConn, d)" for r
    using taken new by (cases r) (simp_all add: run_sql_def insert_job_def)
  show ?thesis
    using key_taken_unique [OF assms(1-3)] assms(4)
    by (simp add: CreateJob_def assms(5) ins scan_result_def scan_row_def run_sql_query key
        nullableStringValue_def)
qed

text \<open>
  C18. Idempotent creation. When \<open>CreateJob\<close> with a non-empty idempotency key succeeds, the returned
  job is the only one in the database with the key; an existing job is returned without any change,
  a new one is appended. Every later valid request with the same key leaves the database as it is,
  whatever the network does, and returns that job when the server answers.
\<close>

theorem CreateJob_idempotent:
  assumes "db_ok d" and "cp_idempotency_key p = Some k" and "k \<noteq> []"
    and "CreateJob jsonb net now gid p d = (Inr (j, existing), d')"
  shows "filter (\<lambda>j. job_idempotency_key j = Some k) (jobs d') = [j] \<and>
    (if existing then d' = d else d' = d\<lparr>jobs := jobs d @ [j]\<rparr>) \<and>
    (\<forall>net' now' gid' p'. (\<exists>q. check_create p' = Inr q) \<and> cp_idempotency_key p' = Some k \<longrightarrow>
      CreateJob jsonb net' now' gid' p' d' =
        (if net' 0 = Served \<and> net' 1 = Served then Inr (j, True) else Inl ErrConn, d'))"
proof -
  have c: "create_commit jsonb now gid p d (j, existing) d'" by (rule create.success [OF assms(4)])
  then obtain q where q: "check_create p = Inr q" by (auto simp: create_commit_def)
  have nv: "nullableStringValue (Some k) = k" by (simp add: nullableStringValue_def)
  have key: "cp_idempotency_key q = Some k" using check_create_Inr(1) [OF q] assms(2) by simp
  have ok: "db_ok d'" using assms(1) c by (rule create_commit_db_ok)
  have j: "j \<in> set (jobs d') \<and> job_idempotency_key j = Some k \<and>
      (if existing then d' = d else d' = d\<lparr>jobs := jobs d @ [j]\<rparr>)"
    using c q key assms(3) nv by (cases existing) (auto simp: create_commit_def nullif_def)
  then show ?thesis
    using key_taken_unique [OF ok] CreateJob_taken [OF ok _ _ assms(3)] by blast
qed

theorem CreateJob_idempotent_witness:
  "filter (\<lambda>j. job_idempotency_key j = Some ''k1'') (jobs sample_db) = [sample_job] \<and>
   CreateJob id all_served 200 8 sample_params sample_db = (Inr (sample_job, True), sample_db)"
proof -
  have key: "cp_idempotency_key sample_params = Some ''k1''" by (simp add: sample_params_def)
  have "isl (check_create sample_params) = False" by code_simp
  then have "\<exists>q. check_create sample_params = Inr q" by (cases "check_create sample_params") auto
  then show ?thesis
    using CreateJob_idempotent [OF db_ok_empty key _ sample_create] key by simp
qed


lemma image_update_rows: "(\<And>r. p r \<Longrightarrow> g (f r) = g r) \<Longrightarrow> g ` set (update_rows p f rs) = g ` set rs"
  using map_update_rows [of p g f rs] by (metis set_map)

lemma find_row_filter:
  assumes "distinct (map key rs)" and "find_row key k rs = Some r"
  shows "filter (\<lambda>r. key r = k) rs = [r]"
  using assms by (induction rs) (auto simp: find_row_def filter_empty_conv image_iff split: if_splits)

lemma db_ok_row:
  assumes "db_ok d" and "find_row job_id i (jobs d) = Some j"
  shows "filter (by_id i) (jobs d) = [j]" "\<And>k. k \<in> set (jobs d) \<Longrightarrow> job_id k = i \<Longrightarrow> k = j"
    "job_id j = i" "i \<in> job_id ` set (jobs d)" "job_ok (attempts_of i (attempts d)) j"
proof -
  have d: "distinct (map job_id (jobs d))" using assms(1) by (simp add: db_ok_def jobs_ok_def)
  show "filter (by_id i) (jobs d) = [j]" by (rule find_row_filter [OF d assms(2)])
  show "k = j" if "k \<in> set (jobs d)" "job_id k = i" for k
    using that key_unique [OF d] find_row_Some [OF assms(2)] by auto
  show "job_id j = i" "i \<in> job_id ` set (jobs d)" "job_ok (attempts_of i (attempts d)) j"
    using find_row_Some [OF assms(2)] assms(1) by (auto simp: db_ok_def jobs_ok_def)
qed

definition previous_status_log :: "(string \<Rightarrow> string) \<Rightarrow> instant \<Rightarrow> uuid \<Rightarrow> uuid \<Rightarrow> string \<Rightarrow> string \<Rightarrow> job_status \<Rightarrow> job_log" where
  "previous_status_log jsonb now gid i level message s =
     \<lparr>log_id = gid, log_job_id = i, log_attempt_id = None, log_logged_at = now, log_level = level,
      log_message = message, log_fields = jsonb (json_object [(''previous_status'', job_status_text s)])\<rparr>"

lemma lower_log_levels:
  "map lower_char ''info'' = ''info''" "map lower_char ''warn'' = ''warn''"
  by code_simp+

lemma check_log_status:
  assumes "level = ''info'' \<or> level = ''warn''"
    and "message = ''job manually retried'' \<or> message = ''job cancelled''"
  shows "check_log (status_log i level message s) = Inr (status_log i level message s)"
  using assms lower_log_levels
  by (elim disjE) (simp_all add: check_log_def status_log_def Let_def)

lemma appendJobLog_status:
  assumes "level = ''info'' \<or> level = ''warn''"
    and "message = ''job manually retried'' \<or> message = ''job cancelled''"
    and "i \<in> job_id ` set (jobs d)" and "gid \<notin> log_id ` set (logs d)"
  shows "appendJobLog jsonb now gid (status_log i level message s) all_served n d =
    Inr (previous_status_log jsonb now gid i level message s, Suc n,
         d\<lparr>logs := logs d @ [previous_status_log jsonb now gid i level message s]\<rparr>)"
  using assms(3,4)
  by (simp add: appendJobLog_def check_log_status [OF assms(1,2), unfolded status_log_def] sql_def insert_log_def Let_def
      status_log_def previous_status_log_def)

text \<open>
  C28. Manual retry. A dead-lettered, cancelled or failed job is queued again, due at once, with its
  history of attempts kept, its completion marks cleared and room for one more attempt, and the
  previous status is logged. In any other status the request is refused with \<open>ErrInvalidState\<close> and
  nothing changes.
\<close>

theorem RetryJob_spec:
  assumes "db_ok d" and "find_row job_id i (jobs d) = Some j" and "int32 (job_attempt_count j + 1)"
    and "gid \<notin> log_id ` set (logs d)"
  shows "RetryJob jsonb now gid i all_served d =
      (if retryable (job_status j)
       then (Inr (retry_set now j),
             d\<lparr>jobs := update_rows (\<lambda>j. job_id j = i) (retry_set now) (jobs d),
               logs := logs d @ [previous_status_log jsonb now gid i ''info'' ''job manually retried'' (job_status j)]\<rparr>)
       else (Inl (ErrInvalidState ''only failed, dead_letter, or cancelled jobs can be retried''), d)) \<and>
    claimable (job_status (retry_set now j)) \<and> job_available_at (retry_set now j) = now \<and>
    job_attempt_count (retry_set now j) = job_attempt_count j \<and>
    job_attempt_count j < job_max_attempts (retry_set now j)"
proof -
  note row = db_ok_row [OF assms(1,2)]
  have fits: "list_all (\<lambda>k. job_id k = i \<longrightarrow> int32 (job_attempt_count k + 1)) (jobs d)"
    using row(2) assms(3) by (auto simp: list_all_iff)
  show ?thesis
    using fits assms(4) row
    by (auto simp: RetryJob_def run_tx_def tx_bind_def sql_def query_def select_job_def tx_scan_def
        scan_row_def tx_return_def tx_fail_def update_jobs_def appendJobLog_status retryable_def
        claimable_def retry_set_def image_update_rows)
qed

definition dead_db :: db where
  "dead_db = empty_db\<lparr>jobs := [sample_job\<lparr>job_status := DeadLetter, job_dead_lettered_at := Some 100,
     job_completed_at := Some 100, job_max_attempts := 1, job_attempt_count := 1\<rparr>],
     attempts := [\<lparr>att_id = 1, att_job_id = 7, att_worker_id = ''w'', att_lease_token = 9, att_number = 1,
       att_status = AttemptFailed, att_started_at = 50, att_finished_at = Some 100,
       att_error = Some ''boom'', att_duration_ms = Some 0\<rparr>]\<rparr>"

lemma dead_db_ok: "db_ok dead_db"
  by (simp add: dead_db_def empty_db_def sample_job_def db_ok_def jobs_ok_def idempotency_keys_def
      map_filter_simps logs_ok_def workers_ok_def cron_ok_def attempts_of_def job_ok_def count_ok_def
      lease_ok_def status_ok_def attempt_ok_def terminal_def claimable_def normalizedMaxAttempts_def)

theorem RetryJob_spec_witness:
  "\<exists>j. fst (RetryJob id 500 3 7 all_served dead_db) = Inr j \<and> job_status j = Queued \<and>
     job_max_attempts j = 2 \<and> job_attempt_count j = 1"
proof -
  let ?j = "hd (jobs dead_db)"
  have "find_row job_id 7 (jobs dead_db) = Some ?j"
    by (simp add: dead_db_def empty_db_def sample_job_def find_row_def)
  then show ?thesis
    using RetryJob_spec [OF dead_db_ok, of 7 ?j 3 id 500]
    by (simp add: dead_db_def empty_db_def sample_job_def retryable_def retry_set_def int32_def)
qed

text \<open>
  C29. Cancellation. A queued or retry-scheduled job becomes \<open>cancelled\<close> and completed, without a
  lease, and can no longer be claimed; the previous status is logged. A running or finished job is
  left alone and the request is refused with \<open>ErrInvalidState\<close>.
\<close>

theorem CancelJob_spec:
  assumes "db_ok d" and "find_row job_id i (jobs d) = Some j" and "gid \<notin> log_id ` set (logs d)"
  shows "CancelJob jsonb now gid i all_served d =
      (if claimable (job_status j)
       then (Inr (cancel_set now j),
             d\<lparr>jobs := update_rows (\<lambda>j. job_id j = i) (cancel_set now) (jobs d),
               logs := logs d @ [previous_status_log jsonb now gid i ''warn'' ''job cancelled'' (job_status j)]\<rparr>)
       else (Inl (ErrInvalidState ''only queued or retry_scheduled jobs can be cancelled''), d)) \<and>
    \<not> claimable (job_status (cancel_set now j)) \<and> terminal (job_status (cancel_set now j)) \<and>
    job_lease_token (cancel_set now j) = None"
proof -
  note row = db_ok_row [OF assms(1,2)]
  show ?thesis
    using assms(3) row
    by (auto simp: CancelJob_def run_tx_def tx_bind_def sql_def query_def select_job_def tx_scan_def
        scan_row_def tx_return_def tx_fail_def update_jobs_def appendJobLog_status list_all_iff
        terminal_def claimable_def cancel_set_def image_update_rows)
qed

theorem CancelJob_spec_witness:
  "\<exists>j d. CancelJob id 500 3 7 all_served sample_db = (Inr j, d) \<and> job_status j = Cancelled"
proof -
  have "find_row job_id 7 (jobs sample_db) = Some sample_job"
    by (simp add: sample_db_def empty_db_def sample_job_def find_row_def)
  then show ?thesis
    using CancelJob_spec [OF sample_db_ok, of 7 sample_job 3 id 500]
    by (simp add: sample_db_def empty_db_def sample_job_def claimable_def cancel_set_def)
qed

end
