(* ===== verification/LeaseStore.thy ===== *)
theory LeaseStore
  imports JobStore
begin

text \<open>
  Leases: \<open>ClaimJob\<close>, \<open>CompleteJob\<close>, \<open>FailJob\<close> and \<open>RecoverExpiredJobs\<close> of \<open>storage.go\<close>. A claim
  hands out a job under a fresh lease token and opens an attempt; completion and failure are fenced
  by the token; recovery takes the lease away when it has run out. \<open>locked\<close> are the rows that other
  transactions hold at that moment, which \<open>FOR UPDATE SKIP LOCKED\<close> passes over.
\<close>

section \<open>Statements\<close>

definition update_attempts :: "(attempt \<Rightarrow> bool) \<Rightarrow> (attempt \<Rightarrow> attempt) \<Rightarrow> nat stmt" where
  "update_attempts p g d = Inr (affected p (attempts d), d\<lparr>attempts := update_rows p g (attempts d)\<rparr>)"

definition exec_jobs :: "(job \<Rightarrow> bool) \<Rightarrow> (job \<Rightarrow> job) \<Rightarrow> nat stmt" where
  "exec_jobs p f d = Inr (affected p (jobs d), d\<lparr>jobs := update_rows p f (jobs d)\<rparr>)"

definition job_fenced :: "uuid \<Rightarrow> uuid \<Rightarrow> job \<Rightarrow> bool" where
  "job_fenced i t j \<longleftrightarrow> job_id j = i \<and> job_lease_token j = Some t \<and> job_status j = Running"

definition attempt_fenced :: "uuid \<Rightarrow> uuid \<Rightarrow> attempt \<Rightarrow> bool" where
  "attempt_fenced i t a \<longleftrightarrow> att_job_id a = i \<and> att_lease_token a = t \<and> att_status a = AttemptRunning"

text \<open>
  \<open>GREATEST(0, (EXTRACT(EPOCH FROM (now() - started_at)) * 1000)::bigint)\<close>: the cast of a numeric
  rounds to the nearest millisecond, halves away from zero.
\<close>

definition elapsed_ms :: "instant \<Rightarrow> instant \<Rightarrow> int" where
  "elapsed_ms now started = max 0 ((now - started + 500000) div 1000000)"

section \<open>Claiming\<close>

definition claim_due :: "instant \<Rightarrow> string \<Rightarrow> job \<Rightarrow> bool" where
  "claim_due now queue j \<longleftrightarrow> job_queue j = queue \<and> claimable (job_status j) \<and> job_available_at j \<le> now"

definition claim_order :: "job \<Rightarrow> job \<Rightarrow> bool" where
  "claim_order = desc job_priority (asc job_available_at (asc job_created_at ties))"

definition picked :: "uuid set \<Rightarrow> instant \<Rightarrow> string \<Rightarrow> db \<Rightarrow> uuid list" where
  "picked locked now queue d =
     map job_id (take 1 (order_by claim_order
       (filter (\<lambda>j. claim_due now queue j \<and> job_id j \<notin> locked) (jobs d))))"

definition claim_set :: "instant \<Rightarrow> string \<Rightarrow> duration \<Rightarrow> uuid \<Rightarrow> job \<Rightarrow> job" where
  "claim_set now workerID lease token j =
     j\<lparr>job_status := Running, job_locked_by := Some workerID,
       job_locked_until := Some (now + intervalLiteral lease), job_lease_token := Some token,
       job_attempt_count := job_attempt_count j + 1, job_updated_at := now\<rparr>"

definition new_attempt :: "instant \<Rightarrow> uuid \<Rightarrow> uuid \<Rightarrow> string \<Rightarrow> uuid \<Rightarrow> int \<Rightarrow> attempt" where
  "new_attempt now gid i workerID token n =
     \<lparr>att_id = gid, att_job_id = i, att_worker_id = workerID, att_lease_token = token, att_number = n,
      att_status = AttemptRunning, att_started_at = now, att_finished_at = None, att_error = None,
      att_duration_ms = None\<rparr>"

definition insert_attempt :: "attempt \<Rightarrow> attempt list stmt" where
  "insert_attempt a d =
     (let others = attempts_of (att_job_id a) (attempts d)
      in if att_id a \<in> att_id ` set (attempts d) then Inl (ErrConstraint ''job_attempts_pkey'')
         else if att_job_id a \<notin> job_id ` set (jobs d) then Inl (ErrConstraint ''job_attempts_job_id_fkey'')
         else if att_number a \<in> att_number ` set others
         then Inl (ErrConstraint ''job_attempts_job_id_attempt_number_key'')
         else if att_lease_token a \<in> att_lease_token ` set others
         then Inl (ErrConstraint ''job_attempts_job_id_lease_token_key'')
         else Inr ([a], d\<lparr>attempts := attempts d @ [a]\<rparr>))"

definition ClaimJob ::
  "uuid set \<Rightarrow> instant \<Rightarrow> uuid \<Rightarrow> uuid \<Rightarrow> string \<Rightarrow> string \<Rightarrow> duration \<Rightarrow> net \<Rightarrow> db \<Rightarrow> (job \<times> attempt) option result" where
  "ClaimJob locked now gid leaseToken queue workerID lease =
     (let queue = (if queue = [] then ''default'' else queue);
          workerID = (if workerID = [] then ''worker-unknown'' else workerID)
      in run_tx (
        tx_bind (sql (\<lambda>d. update_jobs (\<lambda>j. int32 (job_attempt_count j + 1))
            (\<lambda>j. job_id j \<in> set (picked locked now queue d)) (claim_set now workerID lease leaseToken) d)) (\<lambda>rows.
        case scan_row rows of
          Inl _ \<Rightarrow> tx_return None
        | Inr job \<Rightarrow>
            tx_bind (sql (insert_attempt
              (new_attempt now gid (job_id job) workerID leaseToken (job_attempt_count job)))) (\<lambda>rows.
            tx_bind (tx_scan rows) (\<lambda>attempt.
            tx_return (Some (job, attempt)))))))"

section \<open>Completion and failure\<close>

definition complete_set :: "instant \<Rightarrow> job \<Rightarrow> job" where
  "complete_set now j =
     j\<lparr>job_status := Succeeded, job_completed_at := Some now, job_updated_at := now,
       job_locked_by := None, job_locked_until := None, job_lease_token := None, job_last_error := None\<rparr>"

definition attempt_succeed :: "instant \<Rightarrow> attempt \<Rightarrow> attempt" where
  "attempt_succeed now a =
     a\<lparr>att_status := AttemptSucceeded, att_finished_at := Some now,
       att_duration_ms := Some (elapsed_ms now (att_started_at a))\<rparr>"

definition CompleteJob :: "instant \<Rightarrow> uuid \<Rightarrow> uuid \<Rightarrow> net \<Rightarrow> db \<Rightarrow> unit result" where
  "CompleteJob now i leaseToken = run_tx (
     tx_bind (sql (exec_jobs (job_fenced i leaseToken) (complete_set now))) (\<lambda>tag.
     if tag \<noteq> 1 then tx_fail (ErrNew ''job completion rejected by lease fencing'')
     else
     tx_bind (sql (update_attempts (attempt_fenced i leaseToken) (attempt_succeed now))) (\<lambda>tag.
     if tag \<noteq> 1 then tx_fail (ErrNew ''job attempt completion rejected by lease fencing'')
     else tx_return ())))"

definition reschedule_set :: "instant \<Rightarrow> instant \<Rightarrow> string \<Rightarrow> job \<Rightarrow> job" where
  "reschedule_set now available message j =
     j\<lparr>job_status := RetryScheduled, job_available_at := available, job_completed_at := None,
       job_updated_at := now, job_locked_by := None, job_locked_until := None, job_lease_token := None,
       job_last_error := Some message\<rparr>"

definition dead_letter_set :: "instant \<Rightarrow> string \<Rightarrow> job \<Rightarrow> job" where
  "dead_letter_set now message j =
     j\<lparr>job_status := DeadLetter, job_completed_at := Some now, job_dead_lettered_at := Some now,
       job_updated_at := now, job_locked_by := None, job_locked_until := None, job_lease_token := None,
       job_last_error := Some message\<rparr>"

definition attempt_fail :: "instant \<Rightarrow> string \<Rightarrow> attempt \<Rightarrow> attempt" where
  "attempt_fail now message a =
     a\<lparr>att_status := AttemptFailed, att_finished_at := Some now, att_error := Some message,
       att_duration_ms := Some (elapsed_ms now (att_started_at a))\<rparr>"

definition fail_set :: "instant \<Rightarrow> duration \<Rightarrow> string \<Rightarrow> job \<Rightarrow> job \<Rightarrow> job" where
  "fail_set now delay message job =
     (if job_attempt_count job < normalizedMaxAttempts (job_max_attempts job)
      then reschedule_set now (now + intervalLiteral delay) message else dead_letter_set now message)"

definition FailJob :: "instant \<Rightarrow> uuid \<Rightarrow> uuid \<Rightarrow> string \<Rightarrow> retry_policy \<Rightarrow> net \<Rightarrow> db \<Rightarrow> job result" where
  "FailJob now i leaseToken message policy =
     (let policy = Normalize policy
      in run_tx (
        tx_bind (sql (query (\<lambda>d. filter (job_fenced i leaseToken) (jobs d)))) (\<lambda>rows.
        case scan_row rows of
          Inl _ \<Rightarrow> tx_fail (ErrNew ''job failure rejected by lease fencing'')
        | Inr job \<Rightarrow>
            tx_bind (sql (update_jobs (\<lambda>j. True) (by_id i)
              (fail_set now (DelayForAttempt policy (job_attempt_count job)) message job))) (\<lambda>rows.
            tx_bind (tx_scan rows) (\<lambda>updated.
            tx_bind (sql (update_attempts (attempt_fenced i leaseToken) (attempt_fail now message))) (\<lambda>tag.
            if tag \<noteq> 1 then tx_fail (ErrNew ''job attempt failure rejected by lease fencing'')
            else tx_return updated))))))"

section \<open>Recovery\<close>

definition lease_end :: "job \<Rightarrow> instant" where
  "lease_end j = (case job_locked_until j of None \<Rightarrow> 0 | Some u \<Rightarrow> u)"

definition lease_expired :: "instant \<Rightarrow> job \<Rightarrow> bool" where
  "lease_expired now j \<longleftrightarrow> job_status j = Running \<and>
     (case job_locked_until j of None \<Rightarrow> False | Some u \<Rightarrow> u \<le> now)"

definition recover_order :: "job \<Rightarrow> job \<Rightarrow> bool" where
  "recover_order = asc lease_end (asc job_created_at ties)"

definition batch_size :: "int \<Rightarrow> int" where
  "batch_size batch = (if batch \<le> 0 \<or> batch > 100 then 50 else batch)"

definition expired_jobs :: "uuid set \<Rightarrow> instant \<Rightarrow> int \<Rightarrow> db \<Rightarrow> job list" where
  "expired_jobs locked now batch d =
     take (nat (batch_size batch)) (order_by recover_order
       (filter (\<lambda>j. lease_expired now j \<and> job_id j \<notin> locked) (jobs d)))"

definition recover_set :: "instant \<Rightarrow> string \<Rightarrow> job \<Rightarrow> job \<Rightarrow> job" where
  "recover_set now reason job =
     (if job_attempt_count job < normalizedMaxAttempts (job_max_attempts job)
      then reschedule_set now now reason else dead_letter_set now reason)"

definition recover_job :: "instant \<Rightarrow> string \<Rightarrow> job \<Rightarrow> job tx" where
  "recover_job now reason job =
     tx_bind (case job_lease_token job of
         None \<Rightarrow> tx_return 0
       | Some t \<Rightarrow> sql (update_attempts (attempt_fenced (job_id job) t) (attempt_fail now reason))) (\<lambda>_.
     tx_bind (sql (update_jobs (\<lambda>j. True) (by_id (job_id job)) (recover_set now reason job))) (\<lambda>rows.
     tx_scan rows))"

definition RecoverExpiredJobs :: "uuid set \<Rightarrow> instant \<Rightarrow> int \<Rightarrow> string \<Rightarrow> net \<Rightarrow> db \<Rightarrow> job list result" where
  "RecoverExpiredJobs locked now batch reason =
     (let reason = (if reason = [] then ''job lease expired'' else reason)
      in run_tx (
        tx_bind (sql (query (expired_jobs locked now batch))) (\<lambda>expired.
        tx_each (recover_job now reason) expired)))"

section \<open>The two row orders\<close>

interpretation claims: row_order claim_order
  unfolding claim_order_def by (intro row_orders)

interpretation recoveries: row_order recover_order
  unfolding recover_order_def by (intro row_orders)

section \<open>One job and its attempts\<close>

definition job_touch :: "(job \<Rightarrow> job) \<Rightarrow> bool" where
  "job_touch f \<longleftrightarrow> (\<forall>j. job_id (f j) = job_id j \<and> job_idempotency_key (f j) = job_idempotency_key j)"

lemma job_touchI [intro]:
  "job_touch (claim_set now w lease t)" "job_touch (complete_set now)"
  "job_touch (reschedule_set now av m)" "job_touch (dead_letter_set now m)"
  "job_touch (fail_set now delay m job)" "job_touch (recover_set now m job)"
  by (auto simp: job_touch_def claim_set_def complete_set_def reschedule_set_def dead_letter_set_def
      fail_set_def recover_set_def)

lemma job_touchD: "job_touch f \<Longrightarrow> job_id (f j) = job_id j"
  "job_touch f \<Longrightarrow> job_idempotency_key (f j) = job_idempotency_key j"
  by (simp_all add: job_touch_def)

text \<open>A running job's attempts: the last one holds the lease, the others are finished.\<close>

lemma leased_attempts:
  assumes "job_ok as j" and "job_lease_token j = Some t"
  obtains bs a where "as = bs @ [a]" "att_status a = AttemptRunning" "att_lease_token a = t"
    "\<forall>b \<in> set bs. att_status b \<noteq> AttemptRunning" "\<forall>b \<in> set bs. att_status b \<noteq> AttemptSucceeded"
proof -
  have *: "as \<noteq> []" "att_status (last as) = AttemptRunning" "att_lease_token (last as) = t"
      "\<forall>b \<in> set (butlast as). att_status b \<noteq> AttemptRunning"
      "\<forall>b \<in> set (butlast as). att_status b \<noteq> AttemptSucceeded"
    using assms by (auto simp: job_ok_def lease_ok_def status_ok_def)
  then have "as = butlast as @ [last as]" by simp
  then show ?thesis using * that by blast
qed

lemma job_ok_running: "job_ok as j \<Longrightarrow> job_status j = Running \<longleftrightarrow> job_lease_token j \<noteq> None"
  by (auto simp: job_ok_def lease_ok_def split: option.splits)

text \<open>Ending the lease: the running attempt is closed and the job leaves the state \<open>Running\<close>.\<close>

definition closes :: "(attempt \<Rightarrow> attempt) \<Rightarrow> attempt_status \<Rightarrow> bool" where
  "closes g s \<longleftrightarrow> s \<noteq> AttemptRunning \<and> (\<forall>a. att_id (g a) = att_id a \<and> att_job_id (g a) = att_job_id a \<and>
     att_number (g a) = att_number a \<and> att_lease_token (g a) = att_lease_token a \<and> att_status (g a) = s \<and>
     att_worker_id (g a) = att_worker_id a \<and> att_started_at (g a) = att_started_at a \<and>
     (att_error a = None \<or> s = AttemptFailed \<longrightarrow> attempt_ok (g a)))"

lemma closes_attempt [intro, simp]:
  "closes (attempt_succeed now) AttemptSucceeded" "closes (attempt_fail now m) AttemptFailed"
  by (auto simp: closes_def attempt_succeed_def attempt_fail_def attempt_ok_def elapsed_ms_def)

lemma closesD:
  assumes "closes g s"
  shows "att_id (g a) = att_id a" "att_job_id (g a) = att_job_id a" "att_status (g a) = s"
    "att_lease_token (g a) = att_lease_token a" "att_number (g a) = att_number a" "s \<noteq> AttemptRunning"
  using assms by (simp_all add: closes_def)

text \<open>The condition on the job's new row, given its old one.\<close>

definition ends_lease :: "job \<Rightarrow> job \<Rightarrow> attempt_status \<Rightarrow> bool" where
  "ends_lease j k s \<longleftrightarrow>
     job_attempt_count k = job_attempt_count j \<and> job_max_attempts k = job_max_attempts j \<and>
     job_locked_by k = None \<and> job_locked_until k = None \<and> job_lease_token k = None \<and>
     job_status k \<notin> {Running, Failed} \<and> (job_status k = Succeeded \<longleftrightarrow> s = AttemptSucceeded) \<and>
     (claimable (job_status k) \<longrightarrow> job_attempt_count j < normalizedMaxAttempts (job_max_attempts j)) \<and>
     (job_completed_at k \<noteq> None \<longleftrightarrow> terminal (job_status k)) \<and>
     (job_dead_lettered_at k \<noteq> None \<longleftrightarrow> job_status k = DeadLetter)"

lemma job_ok_ends:
  assumes ok: "job_ok as j" and t: "job_lease_token j = Some t" and g: "closes g s"
    and k: "ends_lease j k s"
  shows "job_ok (update_rows (\<lambda>a. att_lease_token a = t \<and> att_status a = AttemptRunning) g as) k"
proof -
  obtain bs a where as: "as = bs @ [a]" "att_status a = AttemptRunning" "att_lease_token a = t"
      and bs: "\<forall>b \<in> set bs. att_status b \<noteq> AttemptRunning" "\<forall>b \<in> set bs. att_status b \<noteq> AttemptSucceeded"
    using leased_attempts [OF ok t] by blast
  have upd: "update_rows (\<lambda>a. att_lease_token a = t \<and> att_status a = AttemptRunning) g as = bs @ [g a]"
    using as bs by (simp add: update_rows_append update_rows_none)
  have a: "attempt_ok (g a)"
    using ok as g by (auto simp: job_ok_def closes_def attempt_ok_def)
  have "count_ok (bs @ [g a]) k"
    using ok as k g by (auto simp: job_ok_def count_ok_def ends_lease_def closesD)
  moreover have "lease_ok (bs @ [g a]) k"
    using bs k g by (auto simp: lease_ok_def ends_lease_def closesD)
  moreover have "status_ok (bs @ [g a]) k"
    using bs k g by (auto simp: status_ok_def ends_lease_def closesD)
  ultimately show ?thesis
    using ok as g a upd by (auto simp: job_ok_def closesD)
qed

lemma ends_leaseI:
  assumes "job_ok as j" "job_status j = Running"
  shows "ends_lease j (complete_set now j) AttemptSucceeded"
    "ends_lease j (fail_set now delay m j j) AttemptFailed"
    "ends_lease j (recover_set now m j j) AttemptFailed"
  using assms
  by (auto simp: ends_lease_def complete_set_def fail_set_def recover_set_def reschedule_set_def
      dead_letter_set_def terminal_def claimable_def job_ok_def status_ok_def)

text \<open>Opening a lease.\<close>

lemma upto_snoc: "0 \<le> n \<Longrightarrow> [1..n] @ [n + 1] = [1..n + 1]"
  by (simp add: upto_rec2)

lemma job_ok_claim:
  assumes ok: "job_ok as j" and c: "claimable (job_status j)"
    and t: "t \<notin> att_lease_token ` set as"
  shows "job_ok (as @ [new_attempt now gid i w t (job_attempt_count j + 1)]) (claim_set now w lease t j)"
proof -
  have *: "job_lease_token j = None" "job_status j \<noteq> Succeeded" "\<not> terminal (job_status j)"
      "job_status j \<noteq> DeadLetter"
    using c job_ok_running [OF ok] by (auto simp: claimable_def terminal_def)
  have "\<forall>a \<in> set as. att_status a = AttemptFailed"
  proof
    fix a assume "a \<in> set as"
    then have "att_status a \<noteq> AttemptRunning" "att_status a \<noteq> AttemptSucceeded"
      using ok * by (auto simp: job_ok_def lease_ok_def status_ok_def)
    then show "att_status a = AttemptFailed" by (cases "att_status a") auto
  qed
  then show ?thesis
    using ok c * t
    by (auto simp: job_ok_def count_ok_def lease_ok_def status_ok_def attempt_ok_def claim_set_def
        new_attempt_def terminal_def claimable_def upto_snoc [symmetric])
qed

section \<open>Commit steps\<close>

definition close_lease :: "uuid \<Rightarrow> uuid \<Rightarrow> (job \<Rightarrow> job) \<Rightarrow> (attempt \<Rightarrow> attempt) \<Rightarrow> db \<Rightarrow> db" where
  "close_lease i t f g d =
     d\<lparr>jobs := update_rows (by_id i) f (jobs d),
       attempts := update_rows (attempt_fenced i t) g (attempts d)\<rparr>"

definition claim_commit ::
  "uuid set \<Rightarrow> instant \<Rightarrow> uuid \<Rightarrow> uuid \<Rightarrow> string \<Rightarrow> string \<Rightarrow> duration \<Rightarrow> db \<Rightarrow> (job \<times> attempt) option \<Rightarrow> db \<Rightarrow> bool" where
  "claim_commit locked now gid t queue w lease d r d' \<longleftrightarrow>
     (case r of
        None \<Rightarrow> d' = d \<and> picked locked now queue d = []
      | Some (job, a) \<Rightarrow>
          (\<exists>j. picked locked now queue d = [job_id j] \<and> find_row job_id (job_id j) (jobs d) = Some j \<and>
             int32 (job_attempt_count j + 1) \<and>
             job = claim_set now w lease t j \<and>
             a = new_attempt now gid (job_id j) w t (job_attempt_count j + 1) \<and>
             gid \<notin> att_id ` set (attempts d) \<and>
             t \<notin> att_lease_token ` set (attempts_of (job_id j) (attempts d)) \<and>
             d' = d\<lparr>jobs := update_rows (by_id (job_id j)) (claim_set now w lease t) (jobs d),
                    attempts := attempts d @ [a]\<rparr>))"

definition complete_commit :: "instant \<Rightarrow> uuid \<Rightarrow> uuid \<Rightarrow> db \<Rightarrow> unit \<Rightarrow> db \<Rightarrow> bool" where
  "complete_commit now i t d r d' \<longleftrightarrow>
     affected (job_fenced i t) (jobs d) = 1 \<and> affected (attempt_fenced i t) (attempts d) = 1 \<and>
     d' = d\<lparr>jobs := update_rows (job_fenced i t) (complete_set now) (jobs d),
            attempts := update_rows (attempt_fenced i t) (attempt_succeed now) (attempts d)\<rparr>"

definition fail_commit ::
  "instant \<Rightarrow> uuid \<Rightarrow> uuid \<Rightarrow> string \<Rightarrow> retry_policy \<Rightarrow> db \<Rightarrow> job \<Rightarrow> db \<Rightarrow> bool" where
  "fail_commit now i t m policy d r d' \<longleftrightarrow>
     (\<exists>j js. filter (job_fenced i t) (jobs d) = j # js \<and>
        affected (attempt_fenced i t) (attempts d) = 1 \<and>
        d' = close_lease i t
          (fail_set now (DelayForAttempt (Normalize policy) (job_attempt_count j)) m j) (attempt_fail now m) d \<and>
        r \<in> fail_set now (DelayForAttempt (Normalize policy) (job_attempt_count j)) m j `
          {k \<in> set (jobs d). job_id k = i})"

definition recover_step :: "instant \<Rightarrow> string \<Rightarrow> job \<Rightarrow> db \<Rightarrow> db" where
  "recover_step now m job d =
     (case job_lease_token job of
        None \<Rightarrow> d\<lparr>jobs := update_rows (by_id (job_id job)) (recover_set now m job) (jobs d)\<rparr>
      | Some t \<Rightarrow> close_lease (job_id job) t (recover_set now m job) (attempt_fail now m) d)"

definition recover_commit ::
  "uuid set \<Rightarrow> instant \<Rightarrow> int \<Rightarrow> string \<Rightarrow> db \<Rightarrow> job list \<Rightarrow> db \<Rightarrow> bool" where
  "recover_commit locked now batch m d rs d' \<longleftrightarrow>
     d' = fold (recover_step now m) (expired_jobs locked now batch d) d \<and>
     list_all2 (\<lambda>job r. r \<in> range (recover_set now m job) \<and> job_id r = job_id job)
       (expired_jobs locked now batch d) rs"

lemma exec_jobs_Inr [tx_simps]:
  "exec_jobs p f d = Inr (n, d') \<longleftrightarrow> n = affected p (jobs d) \<and> d' = d\<lparr>jobs := update_rows p f (jobs d)\<rparr>"
  by (auto simp: exec_jobs_def)

lemma update_attempts_Inr [tx_simps]:
  "update_attempts p g d = Inr (n, d') \<longleftrightarrow>
     n = affected p (attempts d) \<and> d' = d\<lparr>attempts := update_rows p g (attempts d)\<rparr>"
  by (auto simp: update_attempts_def)

lemma insert_attempt_Inr [tx_simps]:
  "insert_attempt a d = Inr (rs, d') \<longleftrightarrow>
     att_id a \<notin> att_id ` set (attempts d) \<and> att_job_id a \<in> job_id ` set (jobs d) \<and>
     att_number a \<notin> att_number ` set (attempts_of (att_job_id a) (attempts d)) \<and>
     att_lease_token a \<notin> att_lease_token ` set (attempts_of (att_job_id a) (attempts d)) \<and>
     rs = [a] \<and> d' = d\<lparr>attempts := attempts d @ [a]\<rparr>"
  by (auto simp: insert_attempt_def Let_def)

lemma scan_row_case: "(case scan_row rs of Inl e \<Rightarrow> f e | Inr r \<Rightarrow> g r) =
    (case rs of [] \<Rightarrow> f ErrNoRows | r # _ \<Rightarrow> g r)"
  by (simp add: scan_row_def split: list.splits)

lemma new_attempt_simps [simp]:
  "att_id (new_attempt now gid i w t n) = gid" "att_job_id (new_attempt now gid i w t n) = i"
  "att_lease_token (new_attempt now gid i w t n) = t" "att_number (new_attempt now gid i w t n) = n"
  "att_status (new_attempt now gid i w t n) = AttemptRunning" "att_worker_id (new_attempt now gid i w t n) = w"
  by (simp_all add: new_attempt_def)

lemma claim_set_simps [simp]:
  "job_id (claim_set now w lease t j) = job_id j"
  "job_attempt_count (claim_set now w lease t j) = job_attempt_count j + 1"
  "job_status (claim_set now w lease t j) = Running"
  "job_lease_token (claim_set now w lease t j) = Some t"
  by (simp_all add: claim_set_def)

lemma picked_cases:
  obtains "picked locked now queue d = []"
    | j where "picked locked now queue d = [job_id j]" "j \<in> set (jobs d)" "claim_due now queue j"
        "job_id j \<notin> locked"
proof (cases "order_by claim_order (filter (\<lambda>j. claim_due now queue j \<and> job_id j \<notin> locked) (jobs d))")
  case Nil
  then show ?thesis using that(1) by (simp add: picked_def del: order_by_Nil_iff)
next
  case (Cons j js)
  then have "j \<in> set (order_by claim_order (filter (\<lambda>j. claim_due now queue j \<and> job_id j \<notin> locked) (jobs d)))"
    by simp
  then have "j \<in> set (jobs d) \<and> claim_due now queue j \<and> job_id j \<notin> locked" by simp
  moreover have "picked locked now queue d = [job_id j]" using Cons by (simp add: picked_def)
  ultimately show ?thesis using that(2) by blast
qed


lemma hd_map_filter_in: "filter p xs \<noteq> [] \<Longrightarrow> hd (map f (filter p xs)) \<in> f ` {k \<in> set xs. p k}"
  by (induction xs) auto

interpretation claim: store_operation "ClaimJob locked now gid t queue w lease"
  "claim_commit locked now gid t (if queue = [] then ''default'' else queue)
     (if w = [] then ''worker-unknown'' else w) lease"
  for locked now gid t queue w lease
  unfolding ClaimJob_def Let_def
proof (rule run_tx_operation, goal_cases)
  case (1 net n d r n' d')
  let ?q = "if queue = [] then ''default'' else queue" and ?w = "if w = [] then ''worker-unknown'' else w"
  show ?case
  proof (cases rule: picked_cases [of locked now ?q d])
    case 1
    then show ?thesis using \<open>_ = Inr (r, n', d')\<close>
      by (simp add: tx_simps scan_row_case claim_commit_def update_rows_none)
  next
    case (2 k)
    let ?rows = "filter (by_id (job_id k)) (jobs d)"
    have "?rows \<noteq> []" using 2(2) by (auto simp: filter_empty_conv)
    then obtain j js where rows: "?rows = j # js" by (cases ?rows) auto
    then have j: "find_row job_id (job_id j) (jobs d) = Some j" "job_id k = job_id j" "j \<in> set (jobs d)"
      using hd_filter_find_row [of job_id "job_id k" "jobs d"] find_row_Some by fastforce+
    show ?thesis using \<open>_ = Inr (r, n', d')\<close> 2 j rows
      by (auto simp: tx_simps scan_row_case claim_commit_def)
  qed
qed

interpretation complete: store_operation "CompleteJob now i t" "complete_commit now i t" for now i t
  unfolding CompleteJob_def
  by (rule run_tx_operation) (auto simp: tx_simps complete_commit_def split: if_splits)

interpretation failure: store_operation "FailJob now i t m policy" "fail_commit now i t m policy"
  for now i t m policy
  unfolding FailJob_def Let_def
proof (rule run_tx_operation, goal_cases)
  case (1 net n d r n' d')
  show ?case
  proof (cases "filter (job_fenced i t) (jobs d)")
    case Nil
    then show ?thesis using 1 by (simp add: tx_simps scan_row_case)
  next
    case (Cons j js)
    let ?f = "fail_set now (DelayForAttempt (Normalize policy) (job_attempt_count j)) m j"
    have "filter (by_id i) (jobs d) \<noteq> []" and "r = hd (map ?f (filter (by_id i) (jobs d)))"
      and rest: "affected (attempt_fenced i t) (attempts d) = 1" "d' = close_lease i t ?f (attempt_fail now m) d"
      using 1 Cons by (simp_all add: tx_simps scan_row_case close_lease_def split: if_splits)
    then have "r \<in> ?f ` {k \<in> set (jobs d). job_id k = i}"
      using hd_map_filter_in [of "by_id i" "jobs d" ?f] by simp
    then show ?thesis using Cons rest unfolding fail_commit_def by blast
  qed
qed

lemma recover_job_Inr:
  assumes "recover_job now m job net n d = Inr (r, n', d')"
  shows "d' = recover_step now m job d \<and> r \<in> range (recover_set now m job) \<and> job_id r = job_id job"
proof -
  let ?rows = "filter (by_id (job_id job)) (jobs d)"
  have "?rows \<noteq> []" "r = hd (map (recover_set now m job) ?rows)" "d' = recover_step now m job d"
    using assms
    by (cases "job_lease_token job"; simp add: recover_job_def tx_simps recover_step_def close_lease_def)+
  moreover from this have "r \<in> recover_set now m job ` {k \<in> set (jobs d). job_id k = job_id job}"
    using hd_map_filter_in [of "by_id (job_id job)" "jobs d" "recover_set now m job"] by simp
  ultimately show ?thesis using job_touchD(1) [OF job_touchI(6)] by auto
qed

lemma recover_each_Inr:
  "tx_each (recover_job now m) js net n d = Inr (rs, n', d') \<Longrightarrow>
    d' = fold (recover_step now m) js d \<and>
    list_all2 (\<lambda>job r. r \<in> range (recover_set now m job) \<and> job_id r = job_id job) js rs"
proof (induction js arbitrary: n d rs)
  case Nil
  then show ?case by (simp add: tx_simps)
next
  case (Cons job js)
  then obtain r n1 d1 rs1 where "recover_job now m job net n d = Inr (r, n1, d1)"
      "tx_each (recover_job now m) js net n1 d1 = Inr (rs1, n', d')" "rs = r # rs1"
    by (auto simp: tx_simps)
  then show ?case using Cons.IH recover_job_Inr by fastforce
qed

interpretation recover: store_operation "RecoverExpiredJobs locked now batch m"
  "recover_commit locked now batch (if m = [] then ''job lease expired'' else m)"
  for locked now batch m
  unfolding RecoverExpiredJobs_def Let_def
proof (rule run_tx_operation, goal_cases)
  case (1 net n d rs n' d')
  then have "tx_each (recover_job now (if m = [] then ''job lease expired'' else m))
      (expired_jobs locked now batch d) net (Suc n) d = Inr (rs, n', d')"
    by (simp add: tx_simps)
  then show ?case using recover_each_Inr by (simp add: recover_commit_def)
qed

section \<open>Every operation keeps the invariant\<close>

lemma db_ok_jobs: "db_ok d \<Longrightarrow> jobs_ok (jobs d) (attempts d)"
  by (simp add: db_ok_def)

lemma db_ok_distinct: "db_ok d \<Longrightarrow> distinct (map job_id (jobs d))" "db_ok d \<Longrightarrow> distinct (map att_id (attempts d))"
  by (simp_all add: db_ok_def jobs_ok_def)

text \<open>The rest of the database does not care how a job's row or its attempts change.\<close>

lemma db_ok_replace:
  assumes "db_ok d" and "jobs_ok js as" and "job_id ` set js = job_id ` set (jobs d)"
    and "att_id ` set (attempts d) \<subseteq> att_id ` set as"
  shows "db_ok (d\<lparr>jobs := js, attempts := as\<rparr>)"
  using assms by (auto simp: db_ok_def logs_ok_def cron_ok_def split: option.splits)

lemma update_fenced:
  assumes "closes g s"
  shows "attempts_of i (update_rows (attempt_fenced i t) g as) =
    update_rows (\<lambda>a. att_lease_token a = t \<and> att_status a = AttemptRunning) g (attempts_of i as)"
proof -
  have "attempts_of i (update_rows (attempt_fenced i t) g as) = update_rows (attempt_fenced i t) g (attempts_of i as)"
    by (rule attempts_of_update) (rule closesD(2) [OF assms])
  also have "\<dots> = update_rows (\<lambda>a. att_lease_token a = t \<and> att_status a = AttemptRunning) g (attempts_of i as)"
    by (rule update_rows_cong) (auto simp: attempt_fenced_def)
  finally show ?thesis .
qed

lemma close_lease_db_ok:
  assumes ok: "db_ok d" and j: "find_row job_id i (jobs d) = Some j" "job_lease_token j = Some t"
    and f: "job_touch f" and g: "closes g s" and e: "ends_lease j (f j) s"
  shows "db_ok (close_lease i t f g d)"
proof -
  let ?as = "update_rows (attempt_fenced i t) g (attempts d)"
  have js: "jobs_ok (jobs d) (attempts d)" by (rule db_ok_jobs [OF ok])
  have ids: "map att_id ?as = map att_id (attempts d)" "map att_job_id ?as = map att_job_id (attempts d)"
    by (simp_all add: map_update_rows closesD [OF g])
  then have sets: "att_id ` set ?as = att_id ` set (attempts d)" "att_job_id ` set ?as = att_job_id ` set (attempts d)"
    by (metis set_map)+
  have "jobs_ok (update_rows (by_id i) f (jobs d)) ?as"
  proof (rule jobs_ok_touch [OF js])
    fix k assume k: "k \<in> set (jobs d)" "job_id k = i" "job_ok (attempts_of i (attempts d)) k"
    then have "k = j" using db_ok_row(2) [OF ok j(1)] by simp
    then show "job_ok (attempts_of i ?as) (f k)"
      using job_ok_ends [OF _ j(2) g e] k(3) by (simp add: update_fenced [OF g])
  next
    fix k assume "k \<noteq> i"
    then show "attempts_of k ?as = attempts_of k (attempts d)"
      by (rule attempts_of_update_other [rotated 2]) (auto simp: attempt_fenced_def closesD [OF g])
  qed (use js ids sets f in \<open>auto simp: jobs_ok_def job_touch_def\<close>)
  then show ?thesis
    unfolding close_lease_def
    by (rule db_ok_replace [OF ok]) (use sets f in \<open>auto simp: job_touch_def image_update_rows\<close>)
qed

lemma fenced_row:
  assumes "db_ok d" and "j \<in> set (jobs d)" and "job_fenced i t j"
  shows "find_row job_id i (jobs d) = Some j" "job_lease_token j = Some t" "job_status j = Running"
    "job_ok (attempts_of i (attempts d)) j"
  using assms find_row_unique [of job_id "jobs d" j] db_ok_distinct [OF assms(1)]
  by (auto simp: job_fenced_def db_ok_def jobs_ok_def)

lemma update_job_fenced:
  assumes "db_ok d" "j \<in> set (jobs d)" "job_fenced i t j"
  shows "update_rows (job_fenced i t) f (jobs d) = update_rows (by_id i) f (jobs d)"
  using assms db_ok_row(2) [OF assms(1) fenced_row(1) [OF assms]]
  by (intro update_rows_cong) (auto simp: job_fenced_def)

lemma complete_commit_close:
  assumes "db_ok d" and "complete_commit now i t d r d'"
  obtains j where "j \<in> set (jobs d)" "job_fenced i t j"
    "d' = close_lease i t (complete_set now) (attempt_succeed now) d"
proof -
  obtain j where j: "j \<in> set (jobs d)" "job_fenced i t j"
    using assms(2) affected_pos [of "job_fenced i t" "jobs d"] by (auto simp: complete_commit_def)
  then have "d' = close_lease i t (complete_set now) (attempt_succeed now) d"
    using assms(2) update_job_fenced [OF assms(1) j] by (simp add: complete_commit_def close_lease_def)
  then show ?thesis using j that by blast
qed

lemma complete_commit_db_ok:
  assumes ok: "db_ok d" and c: "complete_commit now i t d r d'"
  shows "db_ok d'"
  using ok c
proof (cases rule: complete_commit_close)
  case (1 j)
  note d = ok 1(1,2)
  note row = fenced_row [OF d]
  show ?thesis
    unfolding 1(3) by (rule close_lease_db_ok [OF d(1) row(1,2) job_touchI(2) closes_attempt(1)
      ends_leaseI(1) [OF row(4,3)]])
qed

lemma fail_commit_cases:
  assumes "db_ok d" and "fail_commit now i t m policy d r d'"
  obtains j where "j \<in> set (jobs d)" "job_fenced i t j"
    "r = fail_set now (DelayForAttempt (Normalize policy) (job_attempt_count j)) m j j"
    "d' = close_lease i t (fail_set now (DelayForAttempt (Normalize policy) (job_attempt_count j)) m j)
       (attempt_fail now m) d"
proof -
  obtain j js where *: "filter (job_fenced i t) (jobs d) = j # js"
      "d' = close_lease i t (fail_set now (DelayForAttempt (Normalize policy) (job_attempt_count j)) m j)
         (attempt_fail now m) d"
      "r \<in> fail_set now (DelayForAttempt (Normalize policy) (job_attempt_count j)) m j `
         {k \<in> set (jobs d). job_id k = i}"
    using assms(2) by (auto simp: fail_commit_def)
  have "j \<in> set (filter (job_fenced i t) (jobs d))" using *(1) by simp
  then have j: "j \<in> set (jobs d)" "job_fenced i t j" by auto
  then show ?thesis using * that db_ok_row(2) [OF assms(1) fenced_row(1) [OF assms(1) j]] by blast
qed

lemma fail_commit_db_ok:
  assumes ok: "db_ok d" and c: "fail_commit now i t m policy d r d'"
  shows "db_ok d'"
  using ok c
proof (cases rule: fail_commit_cases)
  case (1 j)
  note d = ok 1(1,2)
  note row = fenced_row [OF d]
  show ?thesis
    unfolding 1(4) by (rule close_lease_db_ok [OF d(1) row(1,2) job_touchI(5) closes_attempt(2)
      ends_leaseI(2) [OF row(4,3)]])
qed

text \<open>Claiming.\<close>

lemma claim_commit_cases:
  assumes "db_ok d" and "claim_commit locked now gid t queue w lease d r d'"
  obtains (idle) "r = None" "d' = d" "picked locked now queue d = []"
  | (claimed) j a where "r = Some (claim_set now w lease t j, a)" "j \<in> set (jobs d)"
      "picked locked now queue d = [job_id j]"
      "claim_due now queue j" "job_id j \<notin> locked"
      "a = new_attempt now gid (job_id j) w t (job_attempt_count j + 1)"
      "gid \<notin> att_id ` set (attempts d)" "t \<notin> att_lease_token ` set (attempts_of (job_id j) (attempts d))"
      "d' = d\<lparr>jobs := update_rows (by_id (job_id j)) (claim_set now w lease t) (jobs d),
             attempts := attempts d @ [a]\<rparr>"
proof (cases r)
  case None
  then show ?thesis using assms(2) idle by (simp add: claim_commit_def)
next
  case (Some ja)
  then obtain j where j: "picked locked now queue d = [job_id j]" "find_row job_id (job_id j) (jobs d) = Some j"
      "ja = (claim_set now w lease t j, new_attempt now gid (job_id j) w t (job_attempt_count j + 1))"
      "gid \<notin> att_id ` set (attempts d)" "t \<notin> att_lease_token ` set (attempts_of (job_id j) (attempts d))"
      "d' = d\<lparr>jobs := update_rows (by_id (job_id j)) (claim_set now w lease t) (jobs d),
             attempts := attempts d @ [snd ja]\<rparr>"
    using assms(2) by (auto simp: claim_commit_def)
  obtain k where k: "k \<in> set (jobs d)" "job_id k = job_id j" "claim_due now queue k" "job_id k \<notin> locked"
    using picked_cases [of locked now queue d] j(1) by (metis list.inject list.distinct(1))
  have "k = j" using db_ok_row(2) [OF assms(1) j(2) k(1,2)] .
  then show ?thesis using claimed [of j "snd ja"] Some j k by simp
qed

lemma claim_commit_db_ok:
  assumes ok: "db_ok d" and c: "claim_commit locked now gid t queue w lease d r d'"
  shows "db_ok d'"
  using ok c
proof (cases rule: claim_commit_cases)
  case idle
  then show ?thesis using ok by simp
next
  case (claimed j a)
  let ?f = "claim_set now w lease t" and ?as = "attempts d @ [a]"
  have js: "jobs_ok (jobs d) (attempts d)" by (rule db_ok_jobs [OF ok])
  have a: "att_id a = gid" "att_job_id a = job_id j" using claimed(6) by simp_all
  have f: "job_touch ?f" by blast
  have "jobs_ok (update_rows (by_id (job_id j)) ?f (jobs d)) ?as"
  proof (rule jobs_ok_touch [OF js])
    fix k assume k: "k \<in> set (jobs d)" "job_id k = job_id j" "job_ok (attempts_of (job_id j) (attempts d)) k"
    have "k = j" using key_unique [OF db_ok_distinct(1) [OF ok] k(1) claimed(2) k(2)] .
    then show "job_ok (attempts_of (job_id j) ?as) (?f k)"
      using job_ok_claim [OF k(3) _ ] claimed(4,6,8) by (auto simp: table_simps claim_due_def)
  qed (use js f a claimed(2,7) in \<open>auto simp: jobs_ok_def job_touch_def table_simps\<close>)
  then show ?thesis
    unfolding claimed(9)
    by (rule db_ok_replace [OF ok]) (use f in \<open>auto simp: job_touch_def image_update_rows\<close>)
qed

text \<open>Recovery: the whole batch at once.\<close>

definition leased_in :: "job list \<Rightarrow> attempt \<Rightarrow> bool" where
  "leased_in js a \<longleftrightarrow> att_status a = AttemptRunning \<and>
     (\<exists>j \<in> set js. job_id j = att_job_id a \<and> job_lease_token j = Some (att_lease_token a))"

lemma recover_step_db_ok:
  assumes ok: "db_ok d" and j: "j \<in> set (jobs d)" "job_status j = Running"
  shows "db_ok (recover_step now m j d) \<and>
    jobs (recover_step now m j d) = map (\<lambda>k. if k = j then recover_set now m j j else k) (jobs d) \<and>
    attempts (recover_step now m j d) = update_rows (leased_in [j]) (attempt_fail now m) (attempts d)"
proof -
  have jok: "job_ok (attempts_of (job_id j) (attempts d)) j"
    using ok j(1) by (simp add: db_ok_def jobs_ok_def)
  then obtain t where t: "job_lease_token j = Some t" using j(2) job_ok_running by blast
  have row: "find_row job_id (job_id j) (jobs d) = Some j"
    by (rule find_row_unique [OF db_ok_distinct(1) [OF ok] j(1)])
  have step: "recover_step now m j d = close_lease (job_id j) t (recover_set now m j) (attempt_fail now m) d"
    by (simp add: recover_step_def t)
  have "db_ok (recover_step now m j d)"
    unfolding step
    by (rule close_lease_db_ok [OF ok row t job_touchI(6) closes_attempt(2) ends_leaseI(3) [OF jok j(2)]])
  moreover have "update_rows (by_id (job_id j)) (recover_set now m j) (jobs d) =
      map (\<lambda>k. if k = j then recover_set now m j j else k) (jobs d)"
    unfolding update_rows_def using db_ok_row(2) [OF ok row] by auto
  moreover have "attempt_fenced (job_id j) t = leased_in [j]"
    using t by (auto simp: attempt_fenced_def leased_in_def)
  ultimately show ?thesis by (simp add: step close_lease_def)
qed

lemma recover_set_simps [simp]:
  "job_id (recover_set now m j k) = job_id k"
  "job_status (recover_set now m j k) \<noteq> Running"
  by (simp_all add: recover_set_def reschedule_set_def dead_letter_set_def)

lemma recover_fold:
  assumes "db_ok d" and "\<forall>j \<in> set js. j \<in> set (jobs d) \<and> job_status j = Running"
    and "distinct (map job_id js)"
  shows "db_ok (fold (recover_step now m) js d) \<and>
    jobs (fold (recover_step now m) js d) =
      map (\<lambda>j. if j \<in> set js then recover_set now m j j else j) (jobs d) \<and>
    attempts (fold (recover_step now m) js d) = update_rows (leased_in js) (attempt_fail now m) (attempts d)"
  using assms
proof (induction js arbitrary: d)
  case Nil
  then show ?case by (simp add: leased_in_def update_rows_none)
next
  case (Cons j js)
  let ?d = "recover_step now m j d"
  have j: "j \<in> set (jobs d)" "job_status j = Running" using Cons.prems(2) by simp_all
  note step = recover_step_db_ok [OF Cons.prems(1) j, of now m]
  have other: "\<forall>k \<in> set js. k \<noteq> j \<and> job_id k \<noteq> job_id j" using Cons.prems(3) by (force simp: image_iff)
  have "\<forall>k \<in> set js. k \<in> set (jobs ?d) \<and> job_status k = Running"
    using step Cons.prems(2) other by auto
  then have IH: "db_ok (fold (recover_step now m) js ?d)"
      "jobs (fold (recover_step now m) js ?d) =
        map (\<lambda>j. if j \<in> set js then recover_set now m j j else j) (jobs ?d)"
      "attempts (fold (recover_step now m) js ?d) =
        update_rows (leased_in js) (attempt_fail now m) (attempts ?d)"
    using Cons.IH [of ?d] step Cons.prems(3) by simp_all
  have "recover_set now m j j \<notin> set js" using other by (metis recover_set_simps(1))
  then have "jobs (fold (recover_step now m) js ?d) =
      map (\<lambda>k. if k \<in> set (j # js) then recover_set now m k k else k) (jobs d)"
    using step by (simp add: IH(2))
  moreover have "attempts (fold (recover_step now m) js ?d) =
      update_rows (leased_in (j # js)) (attempt_fail now m) (attempts d)"
    using step by (auto simp: IH(3) update_rows_def leased_in_def attempt_fail_def)
  ultimately show ?case using IH(1) by simp
qed

lemma expired_jobs_facts:
  assumes "db_ok d"
  shows "\<forall>j \<in> set (expired_jobs locked now batch d).
      j \<in> set (jobs d) \<and> job_status j = Running \<and> lease_expired now j \<and> job_id j \<notin> locked"
    "distinct (map job_id (expired_jobs locked now batch d))"
    "length (expired_jobs locked now batch d) \<le> 100"
proof -
  show "\<forall>j \<in> set (expired_jobs locked now batch d).
      j \<in> set (jobs d) \<and> job_status j = Running \<and> lease_expired now j \<and> job_id j \<notin> locked"
    by (auto simp: expired_jobs_def lease_expired_def dest!: set_take_order_by)
  have "distinct (map job_id (order_by recover_order
      (filter (\<lambda>j. lease_expired now j \<and> job_id j \<notin> locked) (jobs d))))"
    by (simp only: distinct_map_order_by distinct_map_filter db_ok_distinct(1) [OF assms])
  then show "distinct (map job_id (expired_jobs locked now batch d))"
    unfolding expired_jobs_def by (simp only: take_map [symmetric] distinct_take)
  show "length (expired_jobs locked now batch d) \<le> 100"
    by (auto simp: expired_jobs_def batch_size_def)
qed

lemma recover_commit_db_ok: "db_ok d \<Longrightarrow> recover_commit locked now batch m d rs d' \<Longrightarrow> db_ok d'"
  using recover_fold [OF _ _ expired_jobs_facts(2)] expired_jobs_facts(1) unfolding recover_commit_def by blast

lemma ClaimJob_db_ok: "db_ok d \<Longrightarrow> db_ok (snd (ClaimJob locked now gid t queue w lease net d))"
  by (rule claim.preserves) (auto intro: claim_commit_db_ok)

lemma CompleteJob_db_ok: "db_ok d \<Longrightarrow> db_ok (snd (CompleteJob now i t net d))"
  by (rule complete.preserves) (auto intro: complete_commit_db_ok)

lemma FailJob_db_ok: "db_ok d \<Longrightarrow> db_ok (snd (FailJob now i t m policy net d))"
  by (rule failure.preserves) (auto intro: fail_commit_db_ok)

lemma RecoverExpiredJobs_db_ok: "db_ok d \<Longrightarrow> db_ok (snd (RecoverExpiredJobs locked now batch m net d))"
  by (rule recover.preserves) (auto intro: recover_commit_db_ok)

lemmas lease_store_db_ok = ClaimJob_db_ok CompleteJob_db_ok FailJob_db_ok RecoverExpiredJobs_db_ok

section \<open>What an answered operation does\<close>

definition holds_lease :: "db \<Rightarrow> uuid \<Rightarrow> uuid \<Rightarrow> bool" where
  "holds_lease d i t \<longleftrightarrow> list_ex (job_fenced i t) (jobs d)"

lemma holds_lease_row: "holds_lease d i t \<Longrightarrow> \<exists>j \<in> set (jobs d). job_fenced i t j"
  by (simp add: holds_lease_def list_ex_iff)

lemma fenced_attempt:
  assumes ok: "db_ok d" and j: "j \<in> set (jobs d)" "job_fenced i t j"
  shows "filter (job_fenced i t) (jobs d) = [j]"
    "\<exists>a. filter (attempt_fenced i t) (attempts d) = [a] \<and> att_number a = job_attempt_count j"
proof -
  note row = fenced_row [OF ok j]
  have "filter (job_fenced i t) (jobs d) = filter (\<lambda>k. job_id k = i) (jobs d)"
    using db_ok_row(2) [OF ok row(1)] j(2) by (intro filter_cong) (auto simp: job_fenced_def)
  then show "filter (job_fenced i t) (jobs d) = [j]" using db_ok_row(1) [OF ok row(1)] by simp
  obtain bs a where as: "attempts_of i (attempts d) = bs @ [a]" "att_status a = AttemptRunning"
      "att_lease_token a = t" "\<forall>b \<in> set bs. att_status b \<noteq> AttemptRunning"
    using leased_attempts [OF row(4,2)] by blast
  have "map att_number (bs @ [a]) = [1..job_attempt_count j]"
    using row(4) as(1) by (simp add: job_ok_def count_ok_def)
  moreover from this have "1 \<le> job_attempt_count j" by (cases "1 \<le> job_attempt_count j") auto
  ultimately have n: "att_number a = job_attempt_count j" by (simp add: upto_rec2)
  have "filter (attempt_fenced i t) (attempts d) =
      filter (\<lambda>a. att_lease_token a = t \<and> att_status a = AttemptRunning) (attempts_of i (attempts d))"
    unfolding attempts_of_def filter_filter by (rule filter_cong) (auto simp: attempt_fenced_def)
  then show "\<exists>a. filter (attempt_fenced i t) (attempts d) = [a] \<and> att_number a = job_attempt_count j"
    using as n by (simp add: filter_empty_conv)
qed

lemma close_lease_released:
  assumes "\<And>k. job_id (f k) = job_id k" and "\<And>k. job_lease_token (f k) = None"
  shows "\<not> holds_lease (close_lease i t f g d) i t"
proof -
  have "\<not> job_fenced i t (if job_id r = i then f r else r)" for r
    by (simp add: job_fenced_def assms)
  then have "\<not> list_ex (job_fenced i t) (update_rows (by_id i) f (jobs d))"
    unfolding list_ex_iff update_rows_def set_map by blast
  then show ?thesis by (simp add: holds_lease_def close_lease_def)
qed

lemma stale_complete: "\<not> holds_lease d i t \<Longrightarrow> \<not> complete_commit now i t d r d'"
  using affected_pos [of "job_fenced i t" "jobs d"]
  by (auto simp: holds_lease_def list_ex_iff complete_commit_def)

lemma stale_fail: "\<not> holds_lease d i t \<Longrightarrow> \<not> fail_commit now i t m policy d r d'"
  by (auto simp: holds_lease_def list_ex_iff fail_commit_def filter_eq_Cons_iff)

text \<open>An answered completion or failure: it applies exactly under the current lease.\<close>

lemma CompleteJob_served:
  assumes "db_ok d"
  shows "CompleteJob now i t all_served d =
    (if holds_lease d i t
     then (Inr (), close_lease i t (complete_set now) (attempt_succeed now) d)
     else (Inl (ErrNew ''job completion rejected by lease fencing''), d))"
proof (cases "holds_lease d i t")
  case True
  then obtain j where j: "j \<in> set (jobs d)" "job_fenced i t j" using holds_lease_row by blast
  have "affected (job_fenced i t) (jobs d) = 1" "affected (attempt_fenced i t) (attempts d) = 1"
    using fenced_attempt [OF assms j] by (auto simp: affected_def)
  then show ?thesis
    using True update_job_fenced [OF assms j]
    by (simp add: CompleteJob_def run_tx_def tx_bind_def sql_def exec_jobs_def update_attempts_def
        tx_return_def close_lease_def)
next
  case False
  then have "affected (job_fenced i t) (jobs d) = 0"
    using affected_pos [of "job_fenced i t" "jobs d"] by (auto simp: holds_lease_def list_ex_iff)
  then show ?thesis
    using False by (simp add: CompleteJob_def run_tx_def tx_bind_def sql_def exec_jobs_def tx_fail_def)
qed

lemma FailJob_served:
  assumes "db_ok d" and j: "j \<in> set (jobs d)" "job_fenced i t j"
  shows "FailJob now i t m policy all_served d =
      (Inr (fail_set now (DelayForAttempt (Normalize policy) (job_attempt_count j)) m j j),
       close_lease i t (fail_set now (DelayForAttempt (Normalize policy) (job_attempt_count j)) m j)
         (attempt_fail now m) d)"
proof -
  have "filter (job_fenced i t) (jobs d) = [j]" "filter (by_id i) (jobs d) = [j]"
      "affected (attempt_fenced i t) (attempts d) = 1"
    using fenced_attempt [OF assms] db_ok_row(1) [OF assms(1) fenced_row(1) [OF assms]]
    by (auto simp: affected_def)
  then show ?thesis
    by (simp add: FailJob_def Let_def run_tx_def tx_bind_def sql_def query_def update_jobs_def
        update_attempts_def tx_scan_def scan_row_def tx_return_def close_lease_def list_all_iff)
qed

lemma FailJob_stale:
  assumes "\<not> holds_lease d i t"
  shows "FailJob now i t m policy all_served d = (Inl (ErrNew ''job failure rejected by lease fencing''), d)"
proof -
  have "filter (job_fenced i t) (jobs d) = []" using assms by (simp add: holds_lease_def list_ex_iff filter_empty_conv)
  then show ?thesis
    by (simp add: FailJob_def Let_def run_tx_def tx_bind_def sql_def query_def scan_row_def tx_fail_def)
qed

section \<open>Properties\<close>

text \<open>
  C14. Fenced completion. An answered \<open>CompleteJob\<close> succeeds exactly when the caller's token is the
  job's current lease; then the job is succeeded and completed, its one running attempt is closed as
  succeeded, and the token is used up. With any other token the call fails and changes nothing,
  whatever the network does, and a lost acknowledgement cannot be told from success later: a
  second call with the same token is rejected.
\<close>

theorem CompleteJob_fenced:
  assumes "db_ok d"
  shows "CompleteJob now i t all_served d =
      (if holds_lease d i t
       then (Inr (), close_lease i t (complete_set now) (attempt_succeed now) d)
       else (Inl (ErrNew ''job completion rejected by lease fencing''), d)) \<and>
    (holds_lease d i t \<longrightarrow>
      affected (attempt_fenced i t) (attempts d) = 1 \<and>
      \<not> holds_lease (close_lease i t (complete_set now) (attempt_succeed now) d) i t) \<and>
    (\<not> holds_lease d i t \<longrightarrow>
      (\<forall>net. snd (CompleteJob now i t net d) = d \<and> (\<exists>e. fst (CompleteJob now i t net d) = Inl e)))"
proof (cases "holds_lease d i t")
  case True
  then obtain j where j: "j \<in> set (jobs d)" "job_fenced i t j" using holds_lease_row by blast
  have "affected (attempt_fenced i t) (attempts d) = 1"
    using fenced_attempt [OF assms j] by (auto simp: affected_def)
  moreover have "\<not> holds_lease (close_lease i t (complete_set now) (attempt_succeed now) d) i t"
    by (rule close_lease_released) (simp_all add: complete_set_def)
  ultimately show ?thesis using True CompleteJob_served [OF assms] by simp
next
  case False
  then show ?thesis using CompleteJob_served [OF assms] complete.rejected [OF stale_complete [OF False]] by simp
qed

text \<open>
  C15. Fenced failure. An answered \<open>FailJob\<close> with the job's current token closes the attempt as
  failed and gives the lease up: below the attempt limit the job is rescheduled by the backoff of
  the retry policy, at the limit it goes to the dead letters; the message is kept as its last error.
  A caller with any other token is refused and changes nothing, whatever the network does.
\<close>

theorem FailJob_fenced:
  assumes "db_ok d"
  shows "(\<forall>j \<in> set (jobs d). job_fenced i t j \<longrightarrow>
      (let k = fail_set now (DelayForAttempt (Normalize policy) (job_attempt_count j)) m j j
       in FailJob now i t m policy all_served d =
            (Inr k, close_lease i t (fail_set now (DelayForAttempt (Normalize policy) (job_attempt_count j)) m j)
               (attempt_fail now m) d) \<and>
          job_lease_token k = None \<and> job_last_error k = Some m \<and>
          (if job_attempt_count j < normalizedMaxAttempts (job_max_attempts j)
           then job_status k = RetryScheduled \<and>
             job_available_at k = now + intervalLiteral (DelayForAttempt policy (job_attempt_count j))
           else job_status k = DeadLetter \<and> job_dead_lettered_at k = Some now))) \<and>
    (\<not> holds_lease d i t \<longrightarrow>
      FailJob now i t m policy all_served d = (Inl (ErrNew ''job failure rejected by lease fencing''), d) \<and>
      (\<forall>net. snd (FailJob now i t m policy net d) = d \<and> (\<exists>e. fst (FailJob now i t m policy net d) = Inl e)))"
proof (intro conjI ballI impI allI)
  fix j assume j: "j \<in> set (jobs d)" "job_fenced i t j"
  show "let k = fail_set now (DelayForAttempt (Normalize policy) (job_attempt_count j)) m j j
       in FailJob now i t m policy all_served d =
            (Inr k, close_lease i t (fail_set now (DelayForAttempt (Normalize policy) (job_attempt_count j)) m j)
               (attempt_fail now m) d) \<and>
          job_lease_token k = None \<and> job_last_error k = Some m \<and>
          (if job_attempt_count j < normalizedMaxAttempts (job_max_attempts j)
           then job_status k = RetryScheduled \<and>
             job_available_at k = now + intervalLiteral (DelayForAttempt policy (job_attempt_count j))
           else job_status k = DeadLetter \<and> job_dead_lettered_at k = Some now)"
    using FailJob_served [OF assms j]
    by (simp add: Let_def fail_set_def reschedule_set_def dead_letter_set_def DelayForAttempt_def)
next
  assume stale: "\<not> holds_lease d i t"
  show "FailJob now i t m policy all_served d = (Inl (ErrNew ''job failure rejected by lease fencing''), d)"
    by (rule FailJob_stale [OF stale])
  fix net
  show "snd (FailJob now i t m policy net d) = d" "\<exists>e. fst (FailJob now i t m policy net d) = Inl e"
    using failure.rejected [OF stale_fail [OF stale]] by simp_all
qed

text \<open>A running job with one attempt, for the witnesses.\<close>

definition running_db :: db where
  "running_db = empty_db\<lparr>jobs := [sample_job\<lparr>job_status := Running, job_locked_by := Some ''w'',
     job_locked_until := Some 400, job_lease_token := Some 9, job_attempt_count := 1\<rparr>],
     attempts := [new_attempt 100 1 7 ''w'' 9 1]\<rparr>"

lemma running_db_ok: "db_ok running_db"
  by (simp add: running_db_def new_attempt_def empty_db_def sample_job_def db_ok_def jobs_ok_def idempotency_keys_def
      map_filter_simps logs_ok_def workers_ok_def cron_ok_def attempts_of_def job_ok_def count_ok_def
      lease_ok_def status_ok_def attempt_ok_def terminal_def claimable_def normalizedMaxAttempts_def)

lemma running_lease: "holds_lease running_db 7 9" "\<not> holds_lease running_db 7 8"
  by (simp_all add: holds_lease_def running_db_def empty_db_def sample_job_def job_fenced_def)

theorem CompleteJob_fenced_witness:
  "fst (CompleteJob 300 7 9 all_served running_db) = Inr () \<and>
   CompleteJob 300 7 8 all_served running_db =
     (Inl (ErrNew ''job completion rejected by lease fencing''), running_db)"
  using CompleteJob_fenced [OF running_db_ok, of 300 7 9] CompleteJob_fenced [OF running_db_ok, of 300 7 8]
    running_lease by simp

theorem FailJob_fenced_witness:
  "\<exists>k. fst (FailJob 300 7 9 ''boom'' \<lparr>rp_initial_delay = 0, rp_max_delay = 0\<rparr> all_served running_db) = Inr k \<and>
     job_status k = RetryScheduled"
proof -
  let ?j = "hd (jobs running_db)"
  have "?j \<in> set (jobs running_db)" "job_fenced 7 9 ?j"
    "job_attempt_count ?j < normalizedMaxAttempts (job_max_attempts ?j)"
    by (simp_all add: running_db_def empty_db_def sample_job_def job_fenced_def normalizedMaxAttempts_def)
  then show ?thesis
    using FailJob_fenced [OF running_db_ok, of 7 9 300 "\<lparr>rp_initial_delay = 0, rp_max_delay = 0\<rparr>" "''boom''"]
    by (auto simp: Let_def)
qed

lemma picked_best:
  assumes ok: "db_ok d" and p: "picked locked now queue d = [job_id j]" and j: "j \<in> set (jobs d)"
    and k: "k \<in> set (jobs d)" "claim_due now queue k" "job_id k \<notin> locked"
  shows "claim_order j k"
proof -
  let ?due = "filter (\<lambda>j. claim_due now queue j \<and> job_id j \<notin> locked) (jobs d)"
  obtain b bs where b: "order_by claim_order ?due = b # bs"
    using p by (cases "order_by claim_order ?due") (auto simp: picked_def)
  then have "b \<in> set (order_by claim_order ?due)" by simp
  then have "b \<in> set (jobs d)" by simp
  moreover have "job_id b = job_id j" using p b by (simp add: picked_def)
  ultimately have "b = j" using j key_unique [OF db_ok_distinct(1) [OF ok]] by blast
  then show ?thesis using claims.hd_order_by_least [OF b, of k] k by simp
qed

lemma picked_none:
  "picked locked now queue d = [] \<longleftrightarrow> (\<forall>k \<in> set (jobs d). claim_due now queue k \<longrightarrow> job_id k \<in> locked)"
  by (auto simp: picked_def filter_empty_conv)

lemma claim_order_iff:
  "claim_order j k \<longleftrightarrow> job_priority k < job_priority j \<or>
     job_priority k = job_priority j \<and> (job_available_at j < job_available_at k \<or>
       job_available_at j = job_available_at k \<and> job_created_at j \<le> job_created_at k)"
  by (auto simp: claim_order_def desc_def asc_def ties_def)

text \<open>
  C13. Claiming takes the best due job. When \<open>ClaimJob\<close> answers without a job, every due job of the
  queue is locked by somebody else. When it returns a job, that job was due, nobody held a lease on
  it, and no other due and unlocked job comes before it: none has a higher priority, none of its priority was
  available earlier, none of its priority and availability was created earlier. The caller now holds its lease
  under the given token: the row is the one that was picked, except for its status, the lease (who, until
  when, under which token), the attempt count and the time of its update. Exactly one new attempt, with the next number, is
  opened for it, and this is all that changes in the whole database.
\<close>

theorem ClaimJob_best:
  assumes "db_ok d" and "ClaimJob locked now gid t queue w lease net d = (Inr r, d')"
    and "q = (if queue = [] then ''default'' else queue)" and "wid = (if w = [] then ''worker-unknown'' else w)"
  shows "case r of
      None \<Rightarrow> d' = d \<and> (\<forall>k \<in> set (jobs d). claim_due now q k \<longrightarrow> job_id k \<in> locked)
    | Some (job, a) \<Rightarrow>
        (\<exists>j \<in> set (jobs d). claim_due now q j \<and> job_id j \<notin> locked \<and> job_id job = job_id j \<and>
          (\<forall>k \<in> set (jobs d). claim_due now q k \<and> job_id k \<notin> locked \<longrightarrow>
             job_priority k < job_priority j \<or>
             job_priority k = job_priority j \<and> (job_available_at j < job_available_at k \<or>
               job_available_at j = job_available_at k \<and> job_created_at j \<le> job_created_at k)) \<and>
          (\<forall>u. \<not> holds_lease d (job_id j) u) \<and> holds_lease d' (job_id j) t \<and>
          job = j\<lparr>job_status := Running, job_locked_by := Some wid,
            job_locked_until := Some (now + intervalLiteral lease), job_lease_token := Some t,
            job_attempt_count := job_attempt_count j + 1, job_updated_at := now\<rparr> \<and>
          a = \<lparr>att_id = gid, att_job_id = job_id j, att_worker_id = wid, att_lease_token = t,
            att_number = job_attempt_count j + 1, att_status = AttemptRunning, att_started_at = now,
            att_finished_at = None, att_error = None, att_duration_ms = None\<rparr> \<and>
          d' = d\<lparr>jobs := map (\<lambda>k. if k = j then job else k) (jobs d), attempts := attempts d @ [a]\<rparr>)"
proof -
  have "claim_commit locked now gid t q wid lease d r d'"
    using claim.success [OF assms(2)] assms(3,4) by simp
  with assms(1) show ?thesis
  proof (cases rule: claim_commit_cases)
    case idle
    then show ?thesis using picked_none by simp
  next
    case (claimed j a)
    have only: "\<And>k. k \<in> set (jobs d) \<Longrightarrow> job_id k = job_id j \<Longrightarrow> k = j"
      using claimed(2) key_unique [OF db_ok_distinct(1) [OF assms(1)]] by blast
    have rows: "update_rows (by_id (job_id j)) (claim_set now wid lease t) (jobs d) =
        map (\<lambda>k. if k = j then claim_set now wid lease t j else k) (jobs d)"
      using only by (auto simp: update_rows_def)
    have "job_status j \<noteq> Running" using claimed(4) by (auto simp: claim_due_def claimable_def)
    then have free: "\<not> holds_lease d (job_id j) u" for u
      using only by (auto simp: holds_lease_def list_ex_iff job_fenced_def)
    have "claim_set now wid lease t j \<in> set (jobs d')"
      using claimed(2,9) rows by auto
    then have "holds_lease d' (job_id j) t"
      by (auto simp: holds_lease_def list_ex_iff job_fenced_def intro: bexI [of _ "claim_set now wid lease t j"])
    moreover have "\<forall>k \<in> set (jobs d). claim_due now q k \<and> job_id k \<notin> locked \<longrightarrow> claim_order j k"
      using picked_best [OF assms(1) claimed(3,2)] by blast
    moreover have "claim_set now wid lease t j = j\<lparr>job_status := Running, job_locked_by := Some wid,
        job_locked_until := Some (now + intervalLiteral lease), job_lease_token := Some t,
        job_attempt_count := job_attempt_count j + 1, job_updated_at := now\<rparr>"
      by (rule claim_set_def)
    ultimately show ?thesis
      unfolding claimed(1) option.case prod.case
      by (intro bexI [OF _ claimed(2)] conjI)
        (use claimed(4-6,9) rows free in \<open>simp_all add: claim_order_iff new_attempt_def\<close>)
  qed
qed


lemma sample_picked: "picked {} 200 ''default'' sample_db = [7]"
  by (simp add: picked_def sample_db_def empty_db_def sample_job_def claim_due_def claimable_def)

theorem ClaimJob_best_witness:
  "\<exists>job a d'. ClaimJob {} 200 1 9 [] ''w'' 300 all_served sample_db = (Inr (Some (job, a)), d') \<and>
     att_number a = 1 \<and> holds_lease d' 7 9"
proof -
  obtain job a d' where run: "ClaimJob {} 200 1 9 [] ''w'' 300 all_served sample_db = (Inr (Some (job, a)), d')"
    using sample_picked
    by (simp add: ClaimJob_def Let_def run_tx_def tx_bind_def sql_def update_jobs_def scan_row_def
        tx_scan_def tx_return_def insert_attempt_def sample_db_def empty_db_def sample_job_def int32_def
        attempts_of_def)
  moreover have "att_number a = 1 \<and> holds_lease d' 7 9"
    using ClaimJob_best [OF sample_db_ok run refl refl]
    by (simp add: sample_db_def empty_db_def sample_job_def holds_lease_def job_fenced_def)
  ultimately show ?thesis by blast
qed

lemma claim_answers:
  assumes "db_ok d" and "k \<in> set (jobs d)" and "claim_due now queue k" and "job_id k \<notin> locked"
    and "queue \<noteq> []" and "\<forall>j \<in> set (jobs d). int32 (job_attempt_count j + 1)"
    and "gid \<notin> att_id ` set (attempts d)" and "t \<notin> att_lease_token ` set (attempts d)"
  shows "\<exists>job a d'. ClaimJob locked now gid t queue w lease all_served d = (Inr (Some (job, a)), d')"
proof -
  obtain j where j: "picked locked now queue d = [job_id j]" "j \<in> set (jobs d)"
    using picked_cases [of locked now queue d] picked_none assms(2-4) by metis
  have row: "find_row job_id (job_id j) (jobs d) = Some j"
    by (rule find_row_unique [OF db_ok_distinct(1) [OF assms(1)] j(2)])
  note rows = db_ok_row [OF assms(1) row]
  let ?as = "attempts_of (job_id j) (attempts d)"
  have "map att_number ?as = [1..job_attempt_count j]"
    using rows(5) by (simp add: job_ok_def count_ok_def)
  then have "att_number ` set ?as = {1..job_attempt_count j}" by (metis set_map set_upto)
  then have "job_attempt_count j + 1 \<notin> att_number ` set ?as" by simp
  moreover have "t \<notin> att_lease_token ` set ?as" using assms(8) by auto
  moreover have "job_id j \<in> job_id ` set (update_rows (by_id (job_id j)) f (jobs d))"
    if "\<And>k. job_id (f k) = job_id k" for f using j(2) by (subst image_update_rows) (auto simp: that)
  ultimately show ?thesis
    using assms(5-7) j rows(1)
    by (simp add: ClaimJob_def Let_def run_tx_def tx_bind_def sql_def update_jobs_def scan_row_def
        tx_scan_def tx_return_def insert_attempt_def list_all_iff)
qed

text \<open>
  C17. A due job is handed out. When some job of the queue is due and not locked by another
  transaction, an answered \<open>ClaimJob\<close> with a fresh attempt id and lease token returns a job: workers
  cannot starve while work is due.
\<close>

theorem ClaimJob_progress:
  assumes "db_ok d" and "k \<in> set (jobs d)" and "claim_due now queue k" and "job_id k \<notin> locked"
    and "queue \<noteq> []" and "\<forall>j \<in> set (jobs d). int32 (job_attempt_count j + 1)"
    and "gid \<notin> att_id ` set (attempts d)" and "t \<notin> att_lease_token ` set (attempts d)"
  shows "\<exists>job a d'. ClaimJob locked now gid t queue w lease all_served d = (Inr (Some (job, a)), d')"
  by (rule claim_answers [OF assms])

theorem ClaimJob_progress_witness:
  "\<exists>job a d'. ClaimJob {} 200 1 9 ''default'' ''w'' 300 all_served sample_db = (Inr (Some (job, a)), d')"
  by (rule ClaimJob_progress [OF sample_db_ok, of sample_job])
    (simp_all add: sample_db_def empty_db_def sample_job_def claim_due_def claimable_def int32_def)

lemma leased_not_closed:
  assumes ok: "db_ok d" and j: "j \<in> set (jobs d)" "job_fenced i t j" and js: "set js \<subseteq> set (jobs d)"
  shows "j \<in> set js \<longleftrightarrow> (\<exists>k \<in> set js. job_id k = i)"
proof
  have id: "job_id j = i" using j(2) by (simp add: job_fenced_def)
  show "\<exists>k \<in> set js. job_id k = i" if "j \<in> set js" using that id by blast
  show "j \<in> set js" if "\<exists>k \<in> set js. job_id k = i"
    using that js db_ok_row(2) [OF ok fenced_row(1) [OF ok j]] by blast
qed

lemma holds_lease_recovered:
  assumes ok: "db_ok d" and js: "set js \<subseteq> set (jobs d)"
    and d': "jobs d' = map (\<lambda>j. if j \<in> set js then recover_set now m j j else j) (jobs d)"
  shows "holds_lease d' i t \<longleftrightarrow> holds_lease d i t \<and> i \<notin> job_id ` set js"
proof
  assume "holds_lease d' i t"
  then obtain j where j: "j \<in> set (jobs d)"
      "job_fenced i t (if j \<in> set js then recover_set now m j j else j)"
    by (auto simp: holds_lease_def list_ex_iff d')
  then have "j \<notin> set js" "job_fenced i t j" by (auto simp: job_fenced_def split: if_splits)
  then show "holds_lease d i t \<and> i \<notin> job_id ` set js"
    using j(1) leased_not_closed [OF ok j(1) _ js] by (auto simp: holds_lease_def list_ex_iff)
next
  assume h: "holds_lease d i t \<and> i \<notin> job_id ` set js"
  then obtain j where j: "j \<in> set (jobs d)" "job_fenced i t j"
    using holds_lease_row by blast
  then have "j \<in> set (jobs d')" using h by (auto simp: d' job_fenced_def image_iff)
  then show "holds_lease d' i t" using j(2) by (auto simp: holds_lease_def list_ex_iff)
qed

lemma all_expired_taken:
  assumes "length (filter (\<lambda>j. lease_expired now j \<and> job_id j \<notin> locked) (jobs d)) \<le> nat (batch_size batch)"
    and "j \<in> set (jobs d)" "lease_expired now j" "job_id j \<notin> locked"
  shows "j \<in> set (expired_jobs locked now batch d)"
  using assms by (simp add: expired_jobs_def)

text \<open>
  C16. Recovery. An answered \<open>RecoverExpiredJobs\<close> takes at most 100 running jobs whose lease has run
  out, rewrites exactly those (rescheduled at once below the attempt limit, dead-lettered at it),
  closes exactly their running attempts as failed, and returns them in the order it took them. The
  leases of all other jobs stay valid and those of the recovered jobs are void, so a late worker is
  refused. When the batch covers all unlocked expired jobs, none is left, and a second run does
  nothing.
\<close>

theorem RecoverExpiredJobs_batch:
  assumes "db_ok d" and "RecoverExpiredJobs locked now batch reason net d = (Inr rs, d')"
    and "m = (if reason = [] then ''job lease expired'' else reason)"
  shows "jobs d' = map (\<lambda>j. if j \<in> set (expired_jobs locked now batch d) then recover_set now m j j else j) (jobs d) \<and>
    attempts d' = update_rows (leased_in (expired_jobs locked now batch d)) (attempt_fail now m) (attempts d) \<and>
    map job_id rs = map job_id (expired_jobs locked now batch d) \<and> length rs \<le> 100 \<and>
    (\<forall>i t. holds_lease d' i t \<longleftrightarrow>
      holds_lease d i t \<and> i \<notin> job_id ` set (expired_jobs locked now batch d)) \<and>
    (length (filter (\<lambda>j. lease_expired now j \<and> job_id j \<notin> locked) (jobs d)) \<le> nat (batch_size batch) \<longrightarrow>
      expired_jobs locked now batch d' = [])"
proof -
  let ?js = "expired_jobs locked now batch d"
  have c: "recover_commit locked now batch m d rs d'"
    using recover.success [OF assms(2)] assms(3) by simp
  note facts = expired_jobs_facts [OF assms(1), of locked now batch]
  have "\<forall>j \<in> set ?js. j \<in> set (jobs d) \<and> job_status j = Running" using facts(1) by blast
  note batch = recover_fold [OF assms(1) this facts(2), of now m]
  have d': "d' = fold (recover_step now m) ?js d" using c by (simp add: recover_commit_def)
  have "list_all2 (\<lambda>job r. job_id r = job_id job) ?js rs"
    using c by (auto simp: recover_commit_def elim: list_all2_mono)
  then have rs: "map job_id rs = map job_id ?js"
    by (induction rule: list_all2_induct) auto
  then have len: "length rs = length ?js" by (metis length_map)
  have none: "expired_jobs locked now batch d' = []"
    if fits: "length (filter (\<lambda>j. lease_expired now j \<and> job_id j \<notin> locked) (jobs d)) \<le> nat (batch_size batch)"
  proof -
    have "\<not> (lease_expired now k \<and> job_id k \<notin> locked)" if k: "k \<in> set (jobs d')" for k
      using k all_expired_taken [OF fits] batch unfolding d'
      by (auto simp: lease_expired_def split: if_splits)
    then show ?thesis by (simp add: expired_jobs_def filter_empty_conv)
  qed
  have js: "set ?js \<subseteq> set (jobs d)" using facts(1) by blast
  show ?thesis
    using batch rs len facts(3) none holds_lease_recovered [OF assms(1) js, of d' now m] unfolding d'
    by simp
qed

theorem RecoverExpiredJobs_batch_witness:
  "\<exists>rs d'. RecoverExpiredJobs {} 500 0 [] all_served running_db = (Inr rs, d') \<and>
     map job_id rs = [7] \<and> \<not> holds_lease d' 7 9"
proof -
  have ex: "expired_jobs {} 500 0 running_db = jobs running_db"
    by (simp add: running_db_def empty_db_def sample_job_def expired_jobs_def batch_size_def lease_expired_def)
  then obtain rs d' where run: "RecoverExpiredJobs {} 500 0 [] all_served running_db = (Inr rs, d')"
    by (simp add: RecoverExpiredJobs_def Let_def run_tx_def tx_bind_def sql_def query_def recover_job_def
        running_db_def empty_db_def sample_job_def update_attempts_def update_jobs_def tx_scan_def
        scan_row_def tx_return_def)
  have "map job_id rs = [7] \<and> \<not> holds_lease d' 7 9"
    using RecoverExpiredJobs_batch [OF running_db_ok run refl] ex
    by (simp add: running_db_def empty_db_def sample_job_def)
  then show ?thesis by (intro exI [of _ rs] exI [of _ d'] conjI run) simp_all
qed

end
