(* ===== verification/WorkerStore.thy ===== *)
theory WorkerStore
  imports LeaseStore
begin

text \<open>
  The worker registry of \<open>storage.go\<close>: \<open>normalizeQueues\<close>, \<open>RegisterWorker\<close>, \<open>HeartbeatWorker\<close>
  (which also extends the leases of the jobs the worker runs), \<open>MarkWorkerStatus\<close>, \<open>ListWorkers\<close>.
\<close>

section \<open>Definitions\<close>

record register_params =
  rg_id :: string
  rg_hostname :: string
  rg_queues :: "string list"
  rg_concurrency :: int
  rg_metadata :: string

fun normalize_loop :: "string set \<Rightarrow> string list \<Rightarrow> string list \<Rightarrow> string list" where
  "normalize_loop seen normalized [] = normalized"
| "normalize_loop seen normalized (queue # queues) =
     (let queue = TrimSpace queue
      in if queue = [] then normalize_loop seen normalized queues
         else if queue \<in> seen then normalize_loop seen normalized queues
         else normalize_loop (insert queue seen) (normalized @ [queue]) queues)"

definition normalizeQueues :: "string list \<Rightarrow> string list" where
  "normalizeQueues queues =
     (let normalized = normalize_loop {} [] queues
      in if normalized = [] then [''default''] else normalized)"

definition check_register :: "register_params \<Rightarrow> error + register_params" where
  "check_register p =
     (if TrimSpace (rg_id p) = [] then Inl (ErrNew ''worker id is required'')
      else
        (let p1 = (if TrimSpace (rg_hostname p) = [] then p\<lparr>rg_hostname := ''unknown''\<rparr> else p);
             p2 = p1\<lparr>rg_queues := normalizeQueues (rg_queues p1)\<rparr>;
             p3 = (if rg_concurrency p2 \<le> 0 then p2\<lparr>rg_concurrency := 1\<rparr> else p2);
             p4 = (if rg_metadata p3 = [] then p3\<lparr>rg_metadata := [CHR 0x7B, CHR 0x7D]\<rparr> else p3)
         in if \<not> json_Valid (rg_metadata p4) then Inl (ErrNew ''worker metadata must be valid JSON'')
            else Inr p4))"

definition new_worker :: "(string \<Rightarrow> string) \<Rightarrow> instant \<Rightarrow> register_params \<Rightarrow> worker" where
  "new_worker jsonb now p =
     \<lparr>wk_id = rg_id p, wk_hostname = rg_hostname p, wk_queues = rg_queues p, wk_status = WorkerRunning,
      wk_concurrency = rg_concurrency p, wk_metadata = jsonb (rg_metadata p), wk_started_at = now,
      wk_last_heartbeat_at = now, wk_updated_at = now\<rparr>"

text \<open>\<open>INSERT ... ON CONFLICT (id) DO UPDATE\<close>, which sets every column but the key.\<close>

definition upsert_worker :: "worker \<Rightarrow> worker list stmt" where
  "upsert_worker w d =
     (if wk_id w \<in> wk_id ` set (workers d)
      then Inr (map (\<lambda>_. w) (filter (\<lambda>x. wk_id x = wk_id w) (workers d)),
                d\<lparr>workers := update_rows (\<lambda>x. wk_id x = wk_id w) (\<lambda>_. w) (workers d)\<rparr>)
      else Inr ([w], d\<lparr>workers := workers d @ [w]\<rparr>))"

definition RegisterWorker ::
  "(string \<Rightarrow> string) \<Rightarrow> net \<Rightarrow> instant \<Rightarrow> register_params \<Rightarrow> db \<Rightarrow> worker result" where
  "RegisterWorker jsonb net now p d =
     (case check_register p of
        Inl e \<Rightarrow> (Inl e, d)
      | Inr q \<Rightarrow> scan_result (run_sql (upsert_worker (new_worker jsonb now q)) (net 0) d))"

text \<open>An \<open>UPDATE workers SET status = ...\<close>; the \<open>CHECK\<close> constraint applies to the rows it writes.\<close>

definition set_worker_status ::
  "(worker_status \<Rightarrow> worker \<Rightarrow> worker) \<Rightarrow> string \<Rightarrow> string \<Rightarrow> nat stmt" where
  "set_worker_status f workerID status d =
     (if workerID \<notin> wk_id ` set (workers d) then Inr (0, d)
      else (case worker_status_of status of
          None \<Rightarrow> Inl (ErrConstraint ''workers_status_check'')
        | Some s \<Rightarrow> Inr (affected (\<lambda>w. wk_id w = workerID) (workers d),
            d\<lparr>workers := update_rows (\<lambda>w. wk_id w = workerID) (f s) (workers d)\<rparr>)))"

definition beat :: "instant \<Rightarrow> worker_status \<Rightarrow> worker \<Rightarrow> worker" where
  "beat now s w = w\<lparr>wk_status := s, wk_last_heartbeat_at := now, wk_updated_at := now\<rparr>"

definition leased_by :: "string \<Rightarrow> job \<Rightarrow> bool" where
  "leased_by workerID j \<longleftrightarrow> job_locked_by j = Some workerID \<and> job_status j = Running \<and>
     job_lease_token j \<noteq> None"

definition extend_lease :: "instant \<Rightarrow> duration \<Rightarrow> job \<Rightarrow> job" where
  "extend_lease now lease j = j\<lparr>job_locked_until := Some (now + intervalLiteral lease), job_updated_at := now\<rparr>"

definition HeartbeatWorker :: "instant \<Rightarrow> string \<Rightarrow> string \<Rightarrow> duration \<Rightarrow> net \<Rightarrow> db \<Rightarrow> unit result" where
  "HeartbeatWorker now workerID status lease net d =
     (if TrimSpace workerID = [] then (Inl (ErrNew ''worker id is required''), d)
      else
        (let status = (if status = [] then ''running'' else status)
         in run_tx (
           tx_bind (sql (set_worker_status (beat now) workerID status)) (\<lambda>tag.
           if tag \<noteq> 1 then tx_fail (ErrNew ''worker heartbeat rejected for unknown worker'')
           else if lease > 0
           then tx_bind (sql (exec_jobs (leased_by workerID) (extend_lease now lease))) (\<lambda>_. tx_return ())
           else tx_return ())) net d))"

definition mark :: "instant \<Rightarrow> worker_status \<Rightarrow> worker \<Rightarrow> worker" where
  "mark now s w = w\<lparr>wk_status := s, wk_updated_at := now\<rparr>"

definition MarkWorkerStatus :: "instant \<Rightarrow> string \<Rightarrow> string \<Rightarrow> net \<Rightarrow> db \<Rightarrow> unit result" where
  "MarkWorkerStatus now workerID status net d =
     (if TrimSpace workerID = [] then (Inl (ErrNew ''worker id is required''), d)
      else if status = [] then (Inl (ErrNew ''worker status is required''), d)
      else (case run_sql (set_worker_status (mark now) workerID status) (net 0) d of
          (Inl e, d') \<Rightarrow> (Inl e, d')
        | (Inr tag, d') \<Rightarrow>
            if tag \<noteq> 1 then (Inl (ErrNew ''worker status update rejected for unknown worker''), d')
            else (Inr (), d')))"

definition ListWorkers :: "(string \<Rightarrow> string \<Rightarrow> bool) \<Rightarrow> net \<Rightarrow> db \<Rightarrow> worker list result" where
  "ListWorkers coll net d =
     run_sql (query (\<lambda>d. order_by (desc wk_last_heartbeat_at (asc_text coll wk_id ties)) (workers d))) (net 0) d"

section \<open>Queue names\<close>

lemma normalize_loop_spec:
  "seen = set acc \<Longrightarrow> distinct acc \<Longrightarrow>
    distinct (normalize_loop seen acc qs) \<and>
    set (normalize_loop seen acc qs) = set acc \<union> (TrimSpace ` set qs - {[]})"
proof (induction qs arbitrary: seen acc)
  case (Cons q qs)
  consider "TrimSpace q = [] \<or> TrimSpace q \<in> set acc" | "TrimSpace q \<noteq> []" "TrimSpace q \<notin> set acc" by blast
  then show ?case
  proof cases
    case 1
    then have "normalize_loop seen acc (q # qs) = normalize_loop seen acc qs"
      using Cons.prems by (auto simp: Let_def)
    then show ?thesis using Cons.IH [OF Cons.prems] 1 by auto
  next
    case 2
    then have "normalize_loop seen acc (q # qs) = normalize_loop (insert (TrimSpace q) seen) (acc @ [TrimSpace q]) qs"
      using Cons.prems by (auto simp: Let_def)
    then show ?thesis using Cons.IH [of "insert (TrimSpace q) seen" "acc @ [TrimSpace q]"] Cons.prems 2 by auto
  qed
qed simp

lemma normalize_loop_clean:
  "seen = set acc \<Longrightarrow> \<forall>q \<in> set qs. TrimSpace q = q \<and> q \<noteq> [] \<Longrightarrow> distinct (acc @ qs) \<Longrightarrow>
    normalize_loop seen acc qs = acc @ qs"
proof (induction qs arbitrary: seen acc)
  case (Cons q qs)
  then show ?case using Cons.IH [of "insert q seen" "acc @ [q]"] by (auto simp: Let_def)
qed simp

lemma TrimSpace_default: "TrimSpace ''default'' = ''default''"
  by code_simp

lemma normalizeQueues_facts:
  "distinct (normalizeQueues qs)" "normalizeQueues qs \<noteq> []"
  "\<forall>q \<in> set (normalizeQueues qs). TrimSpace q = q \<and> q \<noteq> []"
  "set (normalizeQueues qs) =
    (if \<forall>q \<in> set qs. TrimSpace q = [] then {''default''} else TrimSpace ` set qs - {[]})"
proof -
  have n: "distinct (normalize_loop {} [] qs)"
    "set (normalize_loop {} [] qs) = TrimSpace ` set qs - {[]}"
    using normalize_loop_spec [of "{}" "[]" qs] by simp_all
  have e: "normalize_loop {} [] qs = [] \<longleftrightarrow> (\<forall>q \<in> set qs. TrimSpace q = [])"
  proof -
    have "normalize_loop {} [] qs = [] \<longleftrightarrow> TrimSpace ` set qs - {[]} = {}"
      using n(2) by (metis set_empty)
    then show ?thesis by auto
  qed
  show "distinct (normalizeQueues qs)" "normalizeQueues qs \<noteq> []"
    using n(1) by (auto simp: normalizeQueues_def Let_def)
  show "\<forall>q \<in> set (normalizeQueues qs). TrimSpace q = q \<and> q \<noteq> []"
    using n(2) TrimSpace_default by (auto simp: normalizeQueues_def Let_def)
  show "set (normalizeQueues qs) =
    (if \<forall>q \<in> set qs. TrimSpace q = [] then {''default''} else TrimSpace ` set qs - {[]})"
    using n(2) e by (auto simp: normalizeQueues_def Let_def)
qed

text \<open>
  Queue names are canonical: the normalized list is never empty, has no duplicates, every name in
  it is trimmed and non-empty, it names exactly the queues that were asked for (\<open>default\<close> when none
  was), and normalizing it again changes nothing.
\<close>

lemma normalizeQueues_canonical:
  "distinct (normalizeQueues qs) \<and> normalizeQueues qs \<noteq> [] \<and>
   set (normalizeQueues qs) =
     (if TrimSpace ` set qs \<subseteq> {[]} then {''default''} else TrimSpace ` set qs - {[]}) \<and>
   normalizeQueues (normalizeQueues qs) = normalizeQueues qs"
proof -
  note f = normalizeQueues_facts [of qs]
  have "normalize_loop {} [] (normalizeQueues qs) = normalizeQueues qs"
    using normalize_loop_clean [of "{}" "[]" "normalizeQueues qs"] f(1,3) by simp
  then have "normalizeQueues (normalizeQueues qs) = normalizeQueues qs"
    using f(2) by (simp add: normalizeQueues_def [of "normalizeQueues qs"] Let_def)
  moreover have "TrimSpace ` set qs \<subseteq> {[]} \<longleftrightarrow> (\<forall>q \<in> set qs. TrimSpace q = [])" by auto
  ultimately show ?thesis using f(1,2,4) by simp
qed

section \<open>Commit steps\<close>

definition register_commit :: "(string \<Rightarrow> string) \<Rightarrow> instant \<Rightarrow> register_params \<Rightarrow> db \<Rightarrow> worker \<Rightarrow> db \<Rightarrow> bool" where
  "register_commit jsonb now p d w d' \<longleftrightarrow>
     (\<exists>q. check_register p = Inr q \<and> w = new_worker jsonb now q \<and>
        d' = d\<lparr>workers := (if wk_id w \<in> wk_id ` set (workers d)
          then update_rows (\<lambda>x. wk_id x = wk_id w) (\<lambda>_. w) (workers d) else workers d @ [w])\<rparr>)"

definition beat_commit :: "instant \<Rightarrow> string \<Rightarrow> string \<Rightarrow> duration \<Rightarrow> db \<Rightarrow> unit \<Rightarrow> db \<Rightarrow> bool" where
  "beat_commit now workerID status lease d r d' \<longleftrightarrow>
     (\<exists>s. worker_status_of (if status = [] then ''running'' else status) = Some s \<and>
        workerID \<in> wk_id ` set (workers d) \<and>
        d' = d\<lparr>workers := update_rows (\<lambda>w. wk_id w = workerID) (beat now s) (workers d),
               jobs := (if lease > 0 then update_rows (leased_by workerID) (extend_lease now lease) (jobs d)
                        else jobs d)\<rparr>)"

interpretation register: store_operation "\<lambda>net. RegisterWorker jsonb net now p" "register_commit jsonb now p"
  for jsonb now p
proof
  fix net d r d'
  assume run: "RegisterWorker jsonb net now p d = (r, d')"
  show "(d' = d \<and> (\<exists>e. r = Inl e)) \<or> (\<exists>w. register_commit jsonb now p d w d' \<and> (r = Inr w \<or> r = Inl ErrConn))"
  proof (cases "check_register p")
    case (Inl e)
    then show ?thesis using run by (auto simp: RegisterWorker_def)
  next
    case (Inr q)
    let ?w = "new_worker jsonb now q"
    obtain rows d1 where up: "upsert_worker ?w d = Inr (rows, d1)" by (cases "upsert_worker ?w d") (auto simp: upsert_worker_def split: if_splits)
    have "rows \<noteq> []" "set rows \<subseteq> {?w}" "register_commit jsonb now p d ?w d1"
      using up by (auto simp: upsert_worker_def register_commit_def Inr filter_empty_conv split: if_splits)
    then obtain rs where "rows = ?w # rs" "register_commit jsonb now p d ?w d1" by (cases rows) auto
    then show ?thesis
      using run up by (cases "net 0") (auto simp: RegisterWorker_def Inr run_sql_def scan_result_def scan_row_def)
  qed
qed

lemma set_worker_status_Inr:
  "set_worker_status f workerID status d = Inr (n, d') \<Longrightarrow>
    (n = 0 \<and> d' = d) \<or>
    (\<exists>s. worker_status_of status = Some s \<and> workerID \<in> wk_id ` set (workers d) \<and>
      d' = d\<lparr>workers := update_rows (\<lambda>w. wk_id w = workerID) (f s) (workers d)\<rparr>)"
  by (auto simp: set_worker_status_def split: if_splits option.splits)

interpretation heartbeat: store_operation "HeartbeatWorker now workerID status lease"
  "beat_commit now workerID status lease" for now workerID status lease
proof (cases "TrimSpace workerID = []")
  case True
  then show "store_operation (HeartbeatWorker now workerID status lease) (beat_commit now workerID status lease)"
    by unfold_locales (auto simp: HeartbeatWorker_def)
next
  case False
  then have "HeartbeatWorker now workerID status lease = run_tx (
      tx_bind (sql (set_worker_status (beat now) workerID (if status = [] then ''running'' else status))) (\<lambda>tag.
      if tag \<noteq> 1 then tx_fail (ErrNew ''worker heartbeat rejected for unknown worker'')
      else if lease > 0
      then tx_bind (sql (exec_jobs (leased_by workerID) (extend_lease now lease))) (\<lambda>_. tx_return ())
      else tx_return ()))"
    by (intro ext) (simp add: HeartbeatWorker_def Let_def)
  moreover have "store_operation (run_tx (
      tx_bind (sql (set_worker_status (beat now) workerID (if status = [] then ''running'' else status))) (\<lambda>tag.
      if tag \<noteq> 1 then tx_fail (ErrNew ''worker heartbeat rejected for unknown worker'')
      else if lease > 0
      then tx_bind (sql (exec_jobs (leased_by workerID) (extend_lease now lease))) (\<lambda>_. tx_return ())
      else tx_return ()))) (beat_commit now workerID status lease)"
    by (rule run_tx_operation)
      (auto simp: tx_simps beat_commit_def split: if_splits dest!: set_worker_status_Inr)
  ultimately show "store_operation (HeartbeatWorker now workerID status lease) (beat_commit now workerID status lease)"
    by simp
qed

lemma MarkWorkerStatus_effect:
  "snd (MarkWorkerStatus now workerID status net d) = d \<or>
   (\<exists>s. worker_status_of status = Some s \<and> snd (MarkWorkerStatus now workerID status net d) =
      d\<lparr>workers := update_rows (\<lambda>w. wk_id w = workerID) (mark now s) (workers d)\<rparr>)"
  by (auto simp: MarkWorkerStatus_def run_sql_def split: reply.splits sum.splits prod.splits if_splits
      dest!: set_worker_status_Inr)

section \<open>Every operation keeps the invariant\<close>

lemma workers_ok_update:
  assumes "workers_ok ws" and "\<And>w. wk_id (f w) = wk_id w \<and> wk_concurrency (f w) = wk_concurrency w \<and> wk_queues (f w) = wk_queues w"
  shows "workers_ok (update_rows p f ws)"
proof -
  have "map wk_id (update_rows p f ws) = map wk_id ws" by (rule map_update_rows) (simp add: assms(2))
  then show ?thesis using assms by (auto simp: workers_ok_def set_update_rows)
qed

lemma check_register_Inr:
  assumes "check_register p = Inr q"
  shows "rg_id q = rg_id p" "0 < rg_concurrency q" "rg_queues q = normalizeQueues (rg_queues p)"
    "TrimSpace (rg_id p) \<noteq> []"
  using assms by (auto simp: check_register_def Let_def split: if_splits)

lemma register_commit_db_ok:
  assumes "db_ok d" and "register_commit jsonb now p d w d'"
  shows "db_ok d'"
proof -
  obtain q where q: "check_register p = Inr q" "w = new_worker jsonb now q"
    and d': "d' = d\<lparr>workers := (if wk_id w \<in> wk_id ` set (workers d)
          then update_rows (\<lambda>x. wk_id x = wk_id w) (\<lambda>_. w) (workers d) else workers d @ [w])\<rparr>"
    using assms(2) by (auto simp: register_commit_def)
  have w: "0 < wk_concurrency w" "wk_queues w \<noteq> []"
    using check_register_Inr [OF q(1)] normalizeQueues_facts(2) by (auto simp: q(2) new_worker_def)
  have ws: "workers_ok (workers d)" using assms(1) by (simp add: db_ok_def)
  have "map wk_id (update_rows (\<lambda>x. wk_id x = wk_id w) (\<lambda>_. w) (workers d)) = map wk_id (workers d)"
    by (rule map_update_rows) simp
  then have "workers_ok (workers d')"
    using ws w by (auto simp: d' workers_ok_def set_update_rows)
  then show ?thesis using assms(1) by (simp add: db_ok_def d')
qed

lemma extend_lease_simps [simp]:
  "job_id (extend_lease now lease j) = job_id j"
  "job_idempotency_key (extend_lease now lease j) = job_idempotency_key j"
  "job_status (extend_lease now lease j) = job_status j"
  "job_lease_token (extend_lease now lease j) = job_lease_token j"
  by (simp_all add: extend_lease_def)

lemma extend_lease_job_ok: "leased_by w j \<Longrightarrow> job_ok as j \<Longrightarrow> job_ok as (extend_lease now lease j)"
  by (auto simp: job_ok_def count_ok_def lease_ok_def status_ok_def extend_lease_def leased_by_def
      split: option.splits)

lemma beat_commit_db_ok:
  assumes "db_ok d" and "beat_commit now w status lease d r d'"
  shows "db_ok d'"
proof -
  have "workers_ok (workers d')"
    using assms by (auto simp: beat_commit_def db_ok_def beat_def intro!: workers_ok_update)
  moreover have "jobs_ok (jobs d') (attempts d')"
    using assms jobs_ok_map [of "jobs d" "attempts d" "extend_lease now lease" "leased_by w"] extend_lease_job_ok
    by (auto simp: beat_commit_def db_ok_def)
  moreover have "job_id ` set (jobs d') = job_id ` set (jobs d)"
    using assms(2) image_update_rows [of "leased_by w" job_id "extend_lease now lease" "jobs d"]
    by (cases "lease > 0") (auto simp: beat_commit_def)
  moreover have "attempts d' = attempts d" "logs d' = logs d" "cron_jobs d' = cron_jobs d" "cron_runs d' = cron_runs d"
    using assms(2) by (auto simp: beat_commit_def)
  ultimately show ?thesis using assms(1) by (simp add: db_ok_def)
qed

lemma RegisterWorker_db_ok: "db_ok d \<Longrightarrow> db_ok (snd (RegisterWorker jsonb net now p d))"
  by (rule register.preserves) (auto intro: register_commit_db_ok)

lemma HeartbeatWorker_db_ok: "db_ok d \<Longrightarrow> db_ok (snd (HeartbeatWorker now w status lease net d))"
  by (rule heartbeat.preserves) (auto intro: beat_commit_db_ok)

lemma MarkWorkerStatus_db_ok:
  assumes "db_ok d"
  shows "db_ok (snd (MarkWorkerStatus now w status net d))"
  using MarkWorkerStatus_effect [of now w status net d] assms
  by (auto simp: db_ok_def mark_def intro!: workers_ok_update)

lemmas worker_store_db_ok = RegisterWorker_db_ok HeartbeatWorker_db_ok MarkWorkerStatus_db_ok

section \<open>Heartbeats and leases\<close>

lemma holds_lease_extended:
  "jobs d' = update_rows (leased_by w) (extend_lease now lease) (jobs d) \<Longrightarrow> holds_lease d' i t = holds_lease d i t"
proof -
  assume d': "jobs d' = update_rows (leased_by w) (extend_lease now lease) (jobs d)"
  have "job_fenced i t (if leased_by w j then extend_lease now lease j else j) = job_fenced i t j" for j
    by (simp add: job_fenced_def)
  then show ?thesis by (simp add: holds_lease_def list_ex_iff d' update_rows_def del: if_image_distrib)
qed

text \<open>
  C27. A heartbeat keeps the worker's jobs. A successful \<open>HeartbeatWorker\<close> with a positive lease
  duration moves the end of the lease of exactly the running jobs that the worker id holds; tokens,
  attempts and all other jobs stay as they are. Until the new end, recovery takes no job of that
  worker id, whatever else is locked. The worker id is all that counts: jobs of an earlier process
  under the same id are kept alive as well.
\<close>

theorem HeartbeatWorker_protects:
  assumes "HeartbeatWorker now w status lease net d = (Inr (), d')" and "0 < lease"
  shows "jobs d' = map (\<lambda>j. if leased_by w j then extend_lease now lease j else j) (jobs d) \<and>
    attempts d' = attempts d \<and>
    (\<forall>i t. holds_lease d' i t = holds_lease d i t) \<and>
    (\<forall>locked now' batch j. now' < now + intervalLiteral lease \<and> j \<in> set (expired_jobs locked now' batch d') \<longrightarrow>
      \<not> leased_by w j)"
proof -
  have "beat_commit now w status lease d () d'" by (rule heartbeat.success [OF assms(1)])
  then have d': "jobs d' = update_rows (leased_by w) (extend_lease now lease) (jobs d)" "attempts d' = attempts d"
    using assms(2) by (auto simp: beat_commit_def)
  have "\<not> lease_expired now' j" if "now' < now + intervalLiteral lease" "j \<in> set (jobs d')" "leased_by w j" for now' j
    using that by (auto simp: d' set_update_rows lease_expired_def extend_lease_def leased_by_def split: if_splits)
  then have "\<not> leased_by w j" if "now' < now + intervalLiteral lease" "j \<in> set (expired_jobs locked now' batch d')"
    for locked now' batch j
    using that by (auto simp: expired_jobs_def dest!: set_take_order_by)
  then show ?thesis
    using d' holds_lease_extended [OF d'(1)] by (auto simp: update_rows_def)
qed

definition busy_db :: db where
  "busy_db = running_db\<lparr>workers := [\<lparr>wk_id = ''w'', wk_hostname = ''h'', wk_queues = [''default''],
     wk_status = WorkerRunning, wk_concurrency = 1, wk_metadata = [], wk_started_at = 0,
     wk_last_heartbeat_at = 0, wk_updated_at = 0\<rparr>]\<rparr>"

theorem HeartbeatWorker_protects_witness:
  "\<exists>d'. HeartbeatWorker 300 ''w'' [] 30000000000 all_served busy_db = (Inr (), d') \<and>
     expired_jobs {} 401 10 busy_db \<noteq> [] \<and> expired_jobs {} 401 10 d' = []"
proof -
  have "TrimSpace ''w'' = ''w''" "worker_status_of ''running'' = Some WorkerRunning"
    by code_simp+
  then obtain d' where run: "HeartbeatWorker 300 ''w'' [] 30000000000 all_served busy_db = (Inr (), d')"
    by (simp add: HeartbeatWorker_def Let_def run_tx_def tx_bind_def sql_def set_worker_status_def
        exec_jobs_def tx_return_def busy_db_def affected_def)
  have p: "jobs d' = map (\<lambda>j. if leased_by ''w'' j then extend_lease 300 30000000000 j else j) (jobs busy_db) \<and>
      (\<forall>locked now' batch j. now' < 30000000300 \<and> j \<in> set (expired_jobs locked now' batch d') \<longrightarrow> \<not> leased_by ''w'' j)"
    using HeartbeatWorker_protects [OF run] by (simp add: intervalLiteral_def)
  have soon: "(401::int) < 30000000300" by simp
  have "j \<notin> set (expired_jobs {} 401 10 d')" for j
  proof
    assume j: "j \<in> set (expired_jobs {} 401 10 d')"
    then have "\<not> leased_by ''w'' j" using p soon by blast
    moreover have "j \<in> set (jobs d')" using j by (auto simp: expired_jobs_def dest!: set_take_order_by)
    ultimately show False
      using p by (auto simp: busy_db_def running_db_def empty_db_def sample_job_def leased_by_def
          extend_lease_def split: if_splits)
  qed
  then have "expired_jobs {} 401 10 d' = []" by (metis last_in_set)
  moreover have "expired_jobs {} 401 10 busy_db \<noteq> []"
    by (simp add: busy_db_def running_db_def empty_db_def sample_job_def expired_jobs_def batch_size_def lease_expired_def)
  ultimately show ?thesis by (intro exI [of _ d'] conjI run) simp_all
qed

end
