(* ===== verification/CronStore.thy ===== *)
theory CronStore
  imports WorkerStore
begin

text \<open>
  The cron half of \<open>storage.go\<close>: \<open>CreateCronJob\<close>, \<open>ListCronJobs\<close>, \<open>SetCronJobEnabled\<close>,
  \<open>FireDueCronJobs\<close> with \<open>findCronJobForUpdate\<close>, \<open>insertCronRun\<close> and \<open>cronIdempotencyKey\<close>, and
  \<open>ListDueQueues\<close>. The scheduler's own clock (\<open>time.Now()\<close>) and the database's \<open>now()\<close> are two
  arguments. \<open>uuid_parse\<close> and \<open>uuid_str\<close> stand for the package \<open>google/uuid\<close>, \<open>coll\<close> for the
  collation of the database.
\<close>

section \<open>Managing cron jobs\<close>

record cron_params =
  crp_name :: string
  crp_queue :: string
  crp_type :: string
  crp_payload :: string
  crp_schedule :: string
  crp_priority :: int
  crp_max_attempts :: int
  crp_timeout_seconds :: int

definition check_cron :: "cron_params \<Rightarrow> error + cron_params" where
  "check_cron p0 =
     (let p = p0\<lparr>crp_name := TrimSpace (crp_name p0), crp_queue := TrimSpace (crp_queue p0),
                 crp_type := TrimSpace (crp_type p0), crp_schedule := TrimSpace (crp_schedule p0)\<rparr>
      in if crp_name p = [] then Inl (ErrNew ''cron name is required'')
         else
           (let p = (if crp_queue p = [] then p\<lparr>crp_queue := ''default''\<rparr> else p)
            in if crp_type p = [] then Inl (ErrNew ''cron job type is required'')
               else
                 (let p = (if crp_payload p = [] then p\<lparr>crp_payload := [CHR 0x7B, CHR 0x7D]\<rparr> else p)
                  in if \<not> json_Valid (crp_payload p) then Inl (ErrNew ''cron payload must be valid JSON'')
                     else
                       (let p = (if crp_max_attempts p \<le> 0 then p\<lparr>crp_max_attempts := 1\<rparr> else p)
                        in if crp_timeout_seconds p < 0
                           then Inl (ErrNew ''timeout_seconds must be non-negative'') else Inr p))))"

definition new_cron_job :: "(string \<Rightarrow> string) \<Rightarrow> instant \<Rightarrow> uuid \<Rightarrow> cron_params \<Rightarrow> instant \<Rightarrow> cron_job" where
  "new_cron_job jsonb now gid p next_run =
     \<lparr>cj_id = gid, cj_name = crp_name p, cj_queue = crp_queue p, cj_type = crp_type p,
      cj_payload = jsonb (crp_payload p), cj_schedule = crp_schedule p, cj_enabled = True,
      cj_priority = crp_priority p, cj_max_attempts = crp_max_attempts p,
      cj_timeout_seconds = nullif (crp_timeout_seconds p) 0, cj_next_run_at = next_run,
      cj_last_run_at = None, cj_created_at = now, cj_updated_at = now\<rparr>"

definition insert_cron_job :: "cron_job \<Rightarrow> cron_job list stmt" where
  "insert_cron_job c d =
     (if cj_name c \<in> cj_name ` set (cron_jobs d) then Inl (ErrConstraint ''cron_jobs_name_key'')
      else if cj_id c \<in> cj_id ` set (cron_jobs d) then Inl (ErrConstraint ''cron_jobs_pkey'')
      else Inr ([c], d\<lparr>cron_jobs := cron_jobs d @ [c]\<rparr>))"

definition CreateCronJob ::
  "(string \<Rightarrow> string) \<Rightarrow> net \<Rightarrow> instant \<Rightarrow> instant \<Rightarrow> uuid \<Rightarrow> cron_params \<Rightarrow> db \<Rightarrow> cron_job result" where
  "CreateCronJob jsonb net now clock gid p d =
     (case check_cron p of
        Inl e \<Rightarrow> (Inl e, d)
      | Inr q \<Rightarrow>
          (case cron_next (crp_schedule q) clock of
             Inl e \<Rightarrow> (Inl (ErrCron e), d)
           | Inr nextRunAt \<Rightarrow>
               scan_result (run_sql (insert_cron_job (new_cron_job jsonb now gid q nextRunAt)) (net 0) d)))"

definition ListCronJobs :: "(string \<Rightarrow> string \<Rightarrow> bool) \<Rightarrow> net \<Rightarrow> db \<Rightarrow> cron_job list result" where
  "ListCronJobs coll net d =
     run_sql (query (\<lambda>d. order_by (asc_text coll cj_name ties) (cron_jobs d))) (net 0) d"

definition findCronJobForUpdate :: "(string \<Rightarrow> uuid option) \<Rightarrow> string \<Rightarrow> cron_job tx" where
  "findCronJobForUpdate uuid_parse ref =
     (case uuid_parse ref of
        Some i \<Rightarrow> tx_bind (sql (query (\<lambda>d. filter (\<lambda>c. cj_id c = i) (cron_jobs d)))) tx_scan
      | None \<Rightarrow> tx_bind (sql (query (\<lambda>d. filter (\<lambda>c. cj_name c = ref) (cron_jobs d)))) tx_scan)"

definition update_cron_jobs :: "(cron_job \<Rightarrow> bool) \<Rightarrow> (cron_job \<Rightarrow> cron_job) \<Rightarrow> cron_job list stmt" where
  "update_cron_jobs p f d =
     Inr (map f (filter p (cron_jobs d)), d\<lparr>cron_jobs := update_rows p f (cron_jobs d)\<rparr>)"

definition enable_set :: "instant \<Rightarrow> bool \<Rightarrow> instant \<Rightarrow> cron_job \<Rightarrow> cron_job" where
  "enable_set now enabled next_run c = c\<lparr>cj_enabled := enabled, cj_next_run_at := next_run, cj_updated_at := now\<rparr>"

definition SetCronJobEnabled ::
  "(string \<Rightarrow> uuid option) \<Rightarrow> instant \<Rightarrow> instant \<Rightarrow> string \<Rightarrow> bool \<Rightarrow> net \<Rightarrow> db \<Rightarrow> cron_job result" where
  "SetCronJobEnabled uuid_parse now clock ref enabled net d =
     (let ref = TrimSpace ref
      in if ref = [] then (Inl (ErrNew ''cron reference is required''), d)
         else run_tx (
           tx_bind (findCronJobForUpdate uuid_parse ref) (\<lambda>current.
           tx_bind (if enabled
                    then (case cron_next (cj_schedule current) clock of
                        Inl e \<Rightarrow> tx_fail (ErrCron e) | Inr t \<Rightarrow> tx_return t)
                    else tx_return (cj_next_run_at current)) (\<lambda>nextRunAt.
           tx_bind (sql (update_cron_jobs (\<lambda>c. cj_id c = cj_id current)
             (enable_set now enabled nextRunAt))) tx_scan))) net d)"

section \<open>Firing\<close>

record trace_context =
  tc_parent :: string
  tc_state :: string

record cron_fire =
  fire_cron_job :: cron_job
  fire_run :: cron_run
  fire_job :: job

definition cronIdempotencyKey :: "(uuid \<Rightarrow> string) \<Rightarrow> uuid \<Rightarrow> instant \<Rightarrow> string" where
  "cronIdempotencyKey uuid_str cronJobID scheduledFor =
     ''cron:'' @ uuid_str cronJobID @ '':'' @ format_RFC3339 scheduledFor"

definition cron_fired_job :: "(string \<Rightarrow> string) \<Rightarrow> instant \<Rightarrow> uuid \<Rightarrow> trace_context \<Rightarrow> string \<Rightarrow> cron_job \<Rightarrow> job" where
  "cron_fired_job jsonb now gid tc key c =
     \<lparr>job_id = gid, job_queue = cj_queue c, job_type = cj_type c, job_payload = jsonb (cj_payload c),
      job_status = Queued, job_priority = cj_priority c, job_max_attempts = cj_max_attempts c,
      job_attempt_count = 0, job_idempotency_key = Some key, job_locked_by = None,
      job_locked_until = None, job_lease_token = None, job_timeout_seconds = cj_timeout_seconds c,
      job_traceparent = nullif (tc_parent tc) [], job_tracestate = nullif (tc_state tc) [],
      job_available_at = now, job_dead_lettered_at = None, job_created_at = now, job_updated_at = now,
      job_completed_at = None, job_last_error = None\<rparr>"

text \<open>\<open>INSERT ... ON CONFLICT (idempotency_key) DO UPDATE SET updated_at = jobs.updated_at\<close>.\<close>

definition insert_fired_job :: "job \<Rightarrow> job list stmt" where
  "insert_fired_job j d =
     (if key_taken (job_idempotency_key j) d
      then Inr (filter (\<lambda>k. job_idempotency_key k = job_idempotency_key j) (jobs d), d)
      else if job_id j \<in> job_id ` set (jobs d) then Inl (ErrConstraint ''jobs_pkey'')
      else Inr ([j], d\<lparr>jobs := jobs d @ [j]\<rparr>))"

definition insert_cron_run :: "cron_run \<Rightarrow> cron_run list stmt" where
  "insert_cron_run r d =
     (if (cr_cron_job_id r, cr_scheduled_for r) \<in> (\<lambda>x. (cr_cron_job_id x, cr_scheduled_for x)) ` set (cron_runs d)
      then Inr ([], d)
      else if cr_id r \<in> cr_id ` set (cron_runs d) then Inl (ErrConstraint ''cron_runs_pkey'')
      else if cr_cron_job_id r \<notin> cj_id ` set (cron_jobs d)
      then Inl (ErrConstraint ''cron_runs_cron_job_id_fkey'')
      else if (case cr_job_id r of None \<Rightarrow> False | Some i \<Rightarrow> i \<notin> job_id ` set (jobs d))
      then Inl (ErrConstraint ''cron_runs_job_id_fkey'')
      else Inr ([r], d\<lparr>cron_runs := cron_runs d @ [r]\<rparr>))"

definition insertCronRun ::
  "instant \<Rightarrow> uuid \<Rightarrow> uuid \<Rightarrow> instant \<Rightarrow> uuid \<Rightarrow> string \<Rightarrow> (cron_run \<times> bool) tx" where
  "insertCronRun now gid cronJobID scheduledFor jobID schedulerID =
     tx_bind (sql (insert_cron_run
       \<lparr>cr_id = gid, cr_cron_job_id = cronJobID, cr_scheduled_for = scheduledFor, cr_job_id = Some jobID,
        cr_scheduler_id = schedulerID, cr_created_at = now\<rparr>)) (\<lambda>rows.
     case scan_row rows of
       Inr run \<Rightarrow> tx_return (run, True)
     | Inl _ \<Rightarrow>
         tx_bind (sql (query (\<lambda>d. filter (\<lambda>r. cr_cron_job_id r = cronJobID \<and> cr_scheduled_for r = scheduledFor)
           (cron_runs d)))) (\<lambda>rows.
         tx_bind (tx_scan rows) (\<lambda>existing. tx_return (existing, False))))"

definition fired_log :: "(uuid \<Rightarrow> string) \<Rightarrow> uuid \<Rightarrow> cron_job \<Rightarrow> instant \<Rightarrow> string \<Rightarrow> log_params" where
  "fired_log uuid_str i c scheduledFor schedulerID =
     \<lparr>lp_job_id = i, lp_attempt_id = None, lp_level = ''info'', lp_message = ''cron job fired'',
      lp_fields = json_object [(''cron_job_id'', uuid_str (cj_id c)), (''cron_name'', cj_name c),
        (''scheduled_for'', format_RFC3339 scheduledFor), (''scheduler_id'', schedulerID)]\<rparr>"

definition fired_set :: "instant \<Rightarrow> instant \<Rightarrow> instant \<Rightarrow> cron_job \<Rightarrow> cron_job" where
  "fired_set now scheduledFor next_run c =
     c\<lparr>cj_last_run_at := Some scheduledFor, cj_next_run_at := next_run, cj_updated_at := now\<rparr>"

text \<open>One iteration of the firing loop; \<open>ids\<close> are the identifiers of the job, the run and the log row.\<close>

definition fire_cron ::
  "(string \<Rightarrow> string) \<Rightarrow> (uuid \<Rightarrow> string) \<Rightarrow> instant \<Rightarrow> instant \<Rightarrow> string \<Rightarrow> trace_context \<Rightarrow>
   uuid \<times> uuid \<times> uuid \<Rightarrow> cron_job \<Rightarrow> cron_fire option tx" where
  "fire_cron jsonb uuid_str now clock schedulerID tc ids c =
     (let scheduledFor = truncate_minute (cj_next_run_at c);
          key = cronIdempotencyKey uuid_str (cj_id c) scheduledFor
      in tx_bind (sql (insert_fired_job (cron_fired_job jsonb now (fst ids) tc key c))) (\<lambda>rows.
         tx_bind (tx_scan rows) (\<lambda>job.
         tx_bind (insertCronRun now (fst (snd ids)) (cj_id c) scheduledFor (job_id job) schedulerID) (\<lambda>(run, inserted).
         tx_bind (if inserted
                  then tx_bind (appendJobLog jsonb now (snd (snd ids))
                      (fired_log uuid_str (job_id job) c scheduledFor schedulerID)) (\<lambda>_.
                    tx_return (Some \<lparr>fire_cron_job = c, fire_run = run, fire_job = job\<rparr>))
                  else tx_return None) (\<lambda>fire.
         case cron_next (cj_schedule c) clock of
           Inl e \<Rightarrow> tx_fail (ErrCron e)
         | Inr nextRunAt \<Rightarrow>
             tx_bind (sql (update_cron_jobs (\<lambda>x. cj_id x = cj_id c) (fired_set now scheduledFor nextRunAt))) (\<lambda>_.
             tx_return fire))))))"

definition due_cron_jobs ::
  "(string \<Rightarrow> string \<Rightarrow> bool) \<Rightarrow> uuid set \<Rightarrow> instant \<Rightarrow> int \<Rightarrow> db \<Rightarrow> cron_job list" where
  "due_cron_jobs coll locked clock batch d =
     take (nat (batch_size batch)) (order_by (asc cj_next_run_at (asc_text coll cj_name ties))
       (filter (\<lambda>c. cj_enabled c \<and> cj_next_run_at c \<le> clock \<and> cj_id c \<notin> locked) (cron_jobs d)))"

definition fire_body ::
  "(string \<Rightarrow> string) \<Rightarrow> (uuid \<Rightarrow> string) \<Rightarrow> (string \<Rightarrow> string \<Rightarrow> bool) \<Rightarrow> uuid set \<Rightarrow> instant \<Rightarrow> instant \<Rightarrow>
   string \<Rightarrow> int \<Rightarrow> trace_context \<Rightarrow> (nat \<Rightarrow> uuid \<times> uuid \<times> uuid) \<Rightarrow> cron_fire list tx" where
  "fire_body jsonb uuid_str coll locked now clock schedulerID batch tc ids =
     (let schedulerID = (if TrimSpace schedulerID = [] then ''scheduler-unknown'' else schedulerID)
      in tx_bind (sql (query (due_cron_jobs coll locked clock batch))) (\<lambda>due.
         tx_bind (tx_each (\<lambda>(k, c). fire_cron jsonb uuid_str now clock schedulerID tc (ids k) c)
           (enumerate 0 due)) (\<lambda>fires.
         tx_return (List.map_filter (\<lambda>x. x) fires))))"

definition FireDueCronJobs ::
  "(string \<Rightarrow> string) \<Rightarrow> (uuid \<Rightarrow> string) \<Rightarrow> (string \<Rightarrow> string \<Rightarrow> bool) \<Rightarrow> uuid set \<Rightarrow> instant \<Rightarrow> instant \<Rightarrow>
   string \<Rightarrow> int \<Rightarrow> trace_context \<Rightarrow> (nat \<Rightarrow> uuid \<times> uuid \<times> uuid) \<Rightarrow> net \<Rightarrow> db \<Rightarrow> cron_fire list result" where
  "FireDueCronJobs jsonb uuid_str coll locked now clock schedulerID batch tc ids =
     run_tx (fire_body jsonb uuid_str coll locked now clock schedulerID batch tc ids)"

definition ListDueQueues :: "(string \<Rightarrow> string \<Rightarrow> bool) \<Rightarrow> net \<Rightarrow> instant \<Rightarrow> int \<Rightarrow> db \<Rightarrow> string list result" where
  "ListDueQueues coll net now limit d =
     run_sql (query (\<lambda>d. take (nat (batch_size limit)) (order_by (asc_text coll (\<lambda>q. q) ties)
       (remdups (map job_queue (filter (\<lambda>j. claimable (job_status j) \<and> job_available_at j \<le> now) (jobs d)))))))
       (net 0) d"

section \<open>Loops inside a transaction\<close>

text \<open>\<open>run_each S xs\<close> relates the databases before and after one step \<open>S\<close> for every element of \<open>xs\<close>.\<close>

fun run_each :: "('x \<Rightarrow> db \<Rightarrow> 'r \<Rightarrow> db \<Rightarrow> bool) \<Rightarrow> 'x list \<Rightarrow> db \<Rightarrow> 'r list \<Rightarrow> db \<Rightarrow> bool" where
  "run_each S [] d rs d' \<longleftrightarrow> rs = [] \<and> d' = d"
| "run_each S (x # xs) d rs d' \<longleftrightarrow>
     (\<exists>r d1 rs1. S x d r d1 \<and> run_each S xs d1 rs1 d' \<and> rs = r # rs1)"

lemma tx_each_run:
  assumes "\<And>x net n d r n' d'. f x net n d = Inr (r, n', d') \<Longrightarrow> S x d r d'"
  shows "tx_each f xs net n d = Inr (rs, n', d') \<Longrightarrow> run_each S xs d rs d'"
proof (induction xs arbitrary: n d rs)
  case Nil
  then show ?case by (simp add: tx_simps)
next
  case (Cons x xs)
  then obtain r n1 d1 rs1 where "f x net n d = Inr (r, n1, d1)" "tx_each f xs net n1 d1 = Inr (rs1, n', d')"
      "rs = r # rs1"
    by (auto simp: tx_simps)
  then have "S x d r d1" "run_each S xs d1 rs1 d'" using Cons.IH assms by blast+
  then show ?case using \<open>rs = r # rs1\<close> by auto
qed

lemma run_each_preserves:
  assumes "\<And>x d r d'. P d \<Longrightarrow> S x d r d' \<Longrightarrow> P d'"
  shows "run_each S xs d rs d' \<Longrightarrow> P d \<Longrightarrow> P d'"
  by (induction xs arbitrary: d rs) (auto intro: assms)

section \<open>Commit steps\<close>

definition cron_commit ::
  "(string \<Rightarrow> string) \<Rightarrow> instant \<Rightarrow> instant \<Rightarrow> uuid \<Rightarrow> cron_params \<Rightarrow> db \<Rightarrow> cron_job \<Rightarrow> db \<Rightarrow> bool" where
  "cron_commit jsonb now clock gid p d c d' \<longleftrightarrow>
     (\<exists>q t. check_cron p = Inr q \<and> cron_next (crp_schedule q) clock = Inr t \<and>
        c = new_cron_job jsonb now gid q t \<and> cj_name c \<notin> cj_name ` set (cron_jobs d) \<and>
        gid \<notin> cj_id ` set (cron_jobs d) \<and> d' = d\<lparr>cron_jobs := cron_jobs d @ [c]\<rparr>)"

definition enable_commit :: "instant \<Rightarrow> instant \<Rightarrow> bool \<Rightarrow> db \<Rightarrow> cron_job \<Rightarrow> db \<Rightarrow> bool" where
  "enable_commit now clock enabled d c d' \<longleftrightarrow>
     (\<exists>current t. current \<in> set (cron_jobs d) \<and>
        (if enabled then cron_next (cj_schedule current) clock = Inr t else t = cj_next_run_at current) \<and>
        c \<in> enable_set now enabled t ` {x \<in> set (cron_jobs d). cj_id x = cj_id current} \<and>
        d' = d\<lparr>cron_jobs := update_rows (\<lambda>x. cj_id x = cj_id current) (enable_set now enabled t) (cron_jobs d)\<rparr>)"

definition slot :: "cron_job \<Rightarrow> uuid \<times> instant" where
  "slot c = (cj_id c, truncate_minute (cj_next_run_at c))"

definition run_slot :: "cron_run \<Rightarrow> uuid \<times> instant" where
  "run_slot r = (cr_cron_job_id r, cr_scheduled_for r)"

definition slot_key :: "(uuid \<Rightarrow> string) \<Rightarrow> cron_job \<Rightarrow> string" where
  "slot_key uuid_str c = cronIdempotencyKey uuid_str (cj_id c) (truncate_minute (cj_next_run_at c))"

definition fire_step ::
  "(string \<Rightarrow> string) \<Rightarrow> (uuid \<Rightarrow> string) \<Rightarrow> instant \<Rightarrow> instant \<Rightarrow> string \<Rightarrow> trace_context \<Rightarrow>
   (nat \<Rightarrow> uuid \<times> uuid \<times> uuid) \<Rightarrow> nat \<times> cron_job \<Rightarrow> db \<Rightarrow> cron_fire option \<Rightarrow> db \<Rightarrow> bool" where
  "fire_step jsonb uuid_str now clock schedulerID tc ids kc d r d' \<longleftrightarrow>
     (let (k, c) = kc in
      \<exists>t job d1 d2. cron_next (cj_schedule c) clock = Inr t \<and>
        job_idempotency_key job = Some (slot_key uuid_str c) \<and>
        (if key_taken (Some (slot_key uuid_str c)) d then job \<in> set (jobs d) \<and> d1 = d
         else job = cron_fired_job jsonb now (fst (ids k)) tc (slot_key uuid_str c) c \<and>
           fst (ids k) \<notin> job_id ` set (jobs d) \<and> d1 = d\<lparr>jobs := jobs d @ [job]\<rparr>) \<and>
        (if slot c \<in> run_slot ` set (cron_runs d) then r = None \<and> d2 = d1
         else (\<exists>run l. r = Some \<lparr>fire_cron_job = c, fire_run = run, fire_job = job\<rparr> \<and>
           run_slot run = slot c \<and> cr_job_id run = Some (job_id job) \<and>
           cr_id run \<notin> cr_id ` set (cron_runs d) \<and> cj_id c \<in> cj_id ` set (cron_jobs d) \<and>
           log_commit (snd (snd (ids k))) (fired_log uuid_str (job_id job) c (truncate_minute (cj_next_run_at c)) schedulerID)
             (d1\<lparr>cron_runs := cron_runs d @ [run]\<rparr>) l d2)) \<and>
        d' = d2\<lparr>cron_jobs := update_rows (\<lambda>x. cj_id x = cj_id c)
               (fired_set now (truncate_minute (cj_next_run_at c)) t) (cron_jobs d)\<rparr>)"

definition fire_commit ::
  "(string \<Rightarrow> string) \<Rightarrow> (uuid \<Rightarrow> string) \<Rightarrow> (string \<Rightarrow> string \<Rightarrow> bool) \<Rightarrow> uuid set \<Rightarrow> instant \<Rightarrow> instant \<Rightarrow>
   string \<Rightarrow> int \<Rightarrow> trace_context \<Rightarrow> (nat \<Rightarrow> uuid \<times> uuid \<times> uuid) \<Rightarrow> db \<Rightarrow> cron_fire list \<Rightarrow> db \<Rightarrow> bool" where
  "fire_commit jsonb uuid_str coll locked now clock schedulerID batch tc ids d fires d' \<longleftrightarrow>
     (\<exists>rs. run_each (fire_step jsonb uuid_str now clock schedulerID tc ids)
        (enumerate 0 (due_cron_jobs coll locked clock batch d)) d rs d' \<and>
      fires = List.map_filter (\<lambda>x. x) rs)"

interpretation create_cron: store_operation "\<lambda>net. CreateCronJob jsonb net now clock gid p"
  "cron_commit jsonb now clock gid p" for jsonb now clock gid p
proof
  fix net d r d'
  assume run: "CreateCronJob jsonb net now clock gid p d = (r, d')"
  show "(d' = d \<and> (\<exists>e. r = Inl e)) \<or>
    (\<exists>c. cron_commit jsonb now clock gid p d c d' \<and> (r = Inr c \<or> r = Inl ErrConn))"
  proof (cases "net 0")
  qed (use run in \<open>auto simp: CreateCronJob_def cron_commit_def run_sql_def scan_result_def scan_row_def
        insert_cron_job_def new_cron_job_def split: sum.splits if_splits\<close>)
qed

lemma findCronJobForUpdate_Inr:
  "findCronJobForUpdate uuid_parse ref net n d = Inr (c, n', d') \<Longrightarrow> c \<in> set (cron_jobs d) \<and> d' = d"
  by (auto simp: findCronJobForUpdate_def tx_simps neq_Nil_conv filter_eq_Cons_iff split: option.splits)

lemma next_run_Inr [tx_simps]:
  "(case r of Inl e \<Rightarrow> tx_fail (ErrCron e) | Inr t \<Rightarrow> tx_return t) net n d = Inr (t, n', d') \<longleftrightarrow>
    r = Inr t \<and> n' = n \<and> d' = d"
  by (auto simp: tx_simps split: sum.splits)

interpretation enable: store_operation "SetCronJobEnabled uuid_parse now clock ref enabled"
  "enable_commit now clock enabled" for uuid_parse now clock ref enabled
proof (cases "TrimSpace ref = []")
  case True
  then show "store_operation (SetCronJobEnabled uuid_parse now clock ref enabled) (enable_commit now clock enabled)"
    by unfold_locales (auto simp: SetCronJobEnabled_def)
next
  case False
  let ?m = "tx_bind (findCronJobForUpdate uuid_parse (TrimSpace ref)) (\<lambda>current.
           tx_bind (if enabled
                    then (case cron_next (cj_schedule current) clock of
                        Inl e \<Rightarrow> tx_fail (ErrCron e) | Inr t \<Rightarrow> tx_return t)
                    else tx_return (cj_next_run_at current)) (\<lambda>nextRunAt.
           tx_bind (sql (update_cron_jobs (\<lambda>c. cj_id c = cj_id current)
             (enable_set now enabled nextRunAt))) tx_scan))"
  have "SetCronJobEnabled uuid_parse now clock ref enabled = run_tx ?m"
    using False by (intro ext) (simp add: SetCronJobEnabled_def Let_def)
  moreover have "store_operation (run_tx ?m) (enable_commit now clock enabled)"
  proof (rule run_tx_operation)
    fix net n d c n' d'
    assume "?m net n d = Inr (c, n', d')"
    then obtain current t n1 n2 where *: "current \<in> set (cron_jobs d)"
        "if enabled then cron_next (cj_schedule current) clock = Inr t else t = cj_next_run_at current"
        "filter (\<lambda>x. cj_id x = cj_id current) (cron_jobs d) \<noteq> []"
        "c = hd (map (enable_set now enabled t) (filter (\<lambda>x. cj_id x = cj_id current) (cron_jobs d)))"
        "d' = d\<lparr>cron_jobs := update_rows (\<lambda>x. cj_id x = cj_id current) (enable_set now enabled t) (cron_jobs d)\<rparr>"
      by (cases enabled)
        (auto simp: tx_simps update_cron_jobs_def dest!: findCronJobForUpdate_Inr)
    then show "enable_commit now clock enabled d c d'"
      using hd_map_filter_in [OF *(3), of "enable_set now enabled t"] unfolding enable_commit_def by blast
  qed
  ultimately show "store_operation (SetCronJobEnabled uuid_parse now clock ref enabled) (enable_commit now clock enabled)"
    by simp
qed

subsection \<open>Firing\<close>

lemma insertCronRun_Inr:
  assumes "insertCronRun now gid i s jid sid net n d = Inr ((run, inserted), n', d')"
  shows "if (i, s) \<in> run_slot ` set (cron_runs d) then \<not> inserted \<and> d' = d
    else inserted \<and> run_slot run = (i, s) \<and> cr_job_id run = Some jid \<and> cr_id run \<notin> cr_id ` set (cron_runs d) \<and>
      i \<in> cj_id ` set (cron_jobs d) \<and> d' = d\<lparr>cron_runs := cron_runs d @ [run]\<rparr>"
proof -
  have slots: "run_slot = (\<lambda>x. (cr_cron_job_id x, cr_scheduled_for x))" by (simp add: run_slot_def fun_eq_iff)
  show ?thesis
    using assms unfolding slots
    by (cases "(i, s) \<in> (\<lambda>x. (cr_cron_job_id x, cr_scheduled_for x)) ` set (cron_runs d)")
      (auto simp: insertCronRun_def tx_simps scan_row_case insert_cron_run_def split: if_splits)
qed

lemma insert_fired_job_Inr:
  assumes "insert_fired_job j d = Inr (rows, d1)" and "rows \<noteq> []" and "job_idempotency_key j = Some k"
  shows "job_idempotency_key (hd rows) = Some k \<and>
    (if key_taken (Some k) d then hd rows \<in> set (jobs d) \<and> d1 = d
     else hd rows = j \<and> job_id j \<notin> job_id ` set (jobs d) \<and> d1 = d\<lparr>jobs := jobs d @ [j]\<rparr>)"
proof -
  have "hd rows \<in> set rows" using assms(2) by simp
  then show ?thesis using assms(1,3) by (auto simp: insert_fired_job_def split: if_splits)
qed

lemma cron_fired_job_simps [simp]:
  "job_id (cron_fired_job jsonb now gid tc key c) = gid"
  "job_idempotency_key (cron_fired_job jsonb now gid tc key c) = Some key"
  by (simp_all add: cron_fired_job_def)

lemma fire_cron_step:
  assumes "fire_cron jsonb uuid_str now clock sid tc (ids k) c net n d = Inr (r, n', d')"
  shows "fire_step jsonb uuid_str now clock sid tc ids (k, c) d r d'"
proof -
  let ?s = "truncate_minute (cj_next_run_at c)" and ?key = "slot_key uuid_str c"
  let ?j = "cron_fired_job jsonb now (fst (ids k)) tc ?key c"
  obtain rows d1 n1 run ins n2 d2 n3 d3 t where
      ins: "insert_fired_job ?j d = Inr (rows, d1)" "rows \<noteq> []"
    and run: "insertCronRun now (fst (snd (ids k))) (cj_id c) ?s (job_id (hd rows)) sid net n1 d1 = Inr ((run, ins), n2, d2)"
    and fire: "(if ins then tx_bind (appendJobLog jsonb now (snd (snd (ids k)))
                      (fired_log uuid_str (job_id (hd rows)) c ?s sid)) (\<lambda>_.
                    tx_return (Some \<lparr>fire_cron_job = c, fire_run = run, fire_job = hd rows\<rparr>))
                  else tx_return None) net n2 d2 = Inr (r, n3, d3)"
    and t: "cron_next (cj_schedule c) clock = Inr t"
    and d': "d' = d3\<lparr>cron_jobs := update_rows (\<lambda>x. cj_id x = cj_id c) (fired_set now ?s t) (cron_jobs d3)\<rparr>"
    using assms
    by (cases "cron_next (cj_schedule c) clock")
      (auto simp: fire_cron_def Let_def tx_simps slot_key_def update_cron_jobs_def
        split: prod.splits simp del: tx_if_Inr)
  have job: "job_idempotency_key (hd rows) = Some ?key"
      "if key_taken (Some ?key) d then hd rows \<in> set (jobs d) \<and> d1 = d
       else hd rows = ?j \<and> fst (ids k) \<notin> job_id ` set (jobs d) \<and> d1 = d\<lparr>jobs := jobs d @ [hd rows]\<rparr>"
    using insert_fired_job_Inr [OF ins, of ?key] by auto
  then have same: "cron_runs d1 = cron_runs d" "cron_jobs d1 = cron_jobs d" by (auto split: if_splits)
  have slot: "slot c = (cj_id c, ?s)" by (simp add: slot_def)
  show ?thesis
  proof (cases "slot c \<in> run_slot ` set (cron_runs d)")
    case True
    then have "r = None" "d3 = d1"
      using insertCronRun_Inr [OF run] fire by (auto simp: same slot tx_simps)
    then show ?thesis
      unfolding fire_step_def prod.case Let_def
      using t job same True d' by (intro exI [of _ t] exI [of _ "hd rows"] exI [of _ d1]) auto
  next
    case False
    then have run': "ins" "run_slot run = slot c" "cr_job_id run = Some (job_id (hd rows))"
        "cr_id run \<notin> cr_id ` set (cron_runs d)" "cj_id c \<in> cj_id ` set (cron_jobs d)"
        "d2 = d1\<lparr>cron_runs := cron_runs d @ [run]\<rparr>"
      using insertCronRun_Inr [OF run] by (auto simp: same slot)
    then obtain l where l: "log_commit (snd (snd (ids k))) (fired_log uuid_str (job_id (hd rows)) c ?s sid) d2 l d3"
        "r = Some \<lparr>fire_cron_job = c, fire_run = run, fire_job = hd rows\<rparr>"
      using fire by (auto simp: tx_simps dest!: appendJobLog_Inr)
    then have "cron_jobs d3 = cron_jobs d" using run'(6) same by (auto simp: log_commit_def)
    then have d'': "d' = d3\<lparr>cron_jobs := update_rows (\<lambda>x. cj_id x = cj_id c) (fired_set now ?s t) (cron_jobs d)\<rparr>"
      using d' by simp
    have "\<exists>run l. r = Some \<lparr>fire_cron_job = c, fire_run = run, fire_job = hd rows\<rparr> \<and>
           run_slot run = slot c \<and> cr_job_id run = Some (job_id (hd rows)) \<and>
           cr_id run \<notin> cr_id ` set (cron_runs d) \<and> cj_id c \<in> cj_id ` set (cron_jobs d) \<and>
           log_commit (snd (snd (ids k))) (fired_log uuid_str (job_id (hd rows)) c ?s sid)
             (d1\<lparr>cron_runs := cron_runs d @ [run]\<rparr>) l d3"
      using l run' by blast
    then show ?thesis
      unfolding fire_step_def prod.case Let_def
      using t job False d'' by (intro exI [of _ t] exI [of _ "hd rows"] exI [of _ d1] exI [of _ d3]) simp
  qed
qed

interpretation fire: store_operation
  "FireDueCronJobs jsonb uuid_str coll locked now clock schedulerID batch tc ids"
  "fire_commit jsonb uuid_str coll locked now clock
     (if TrimSpace schedulerID = [] then ''scheduler-unknown'' else schedulerID) batch tc ids"
  for jsonb uuid_str coll locked now clock schedulerID batch tc ids
  unfolding FireDueCronJobs_def
proof (rule run_tx_operation)
  fix net n d fires n' d'
  let ?sid = "if TrimSpace schedulerID = [] then ''scheduler-unknown'' else schedulerID"
  let ?due = "enumerate 0 (due_cron_jobs coll locked clock batch d)"
  assume "fire_body jsonb uuid_str coll locked now clock schedulerID batch tc ids net n d = Inr (fires, n', d')"
  then obtain rs where "tx_each (\<lambda>(k, c). fire_cron jsonb uuid_str now clock ?sid tc (ids k) c) ?due net (Suc n) d =
      Inr (rs, n', d')" "fires = List.map_filter (\<lambda>x. x) rs"
    by (auto simp: fire_body_def Let_def tx_simps)
  then show "fire_commit jsonb uuid_str coll locked now clock ?sid batch tc ids d fires d'"
    unfolding fire_commit_def
    by (intro exI [of _ rs] conjI tx_each_run [where f = "\<lambda>(k, c). fire_cron jsonb uuid_str now clock ?sid tc (ids k) c"])
      (auto intro: fire_cron_step)
qed

section \<open>Every operation keeps the invariant\<close>

lemma cron_commit_db_ok: "db_ok d \<Longrightarrow> cron_commit jsonb now clock gid p d c d' \<Longrightarrow> db_ok d'"
  by (auto simp: cron_commit_def db_ok_def cron_ok_def new_cron_job_def split: option.splits)

lemma cron_ok_update:
  assumes "cron_ok jids cjs crs" and "\<And>c. cj_id (f c) = cj_id c \<and> cj_name (f c) = cj_name c"
  shows "cron_ok jids (update_rows p f cjs) crs"
proof -
  have "map cj_id (update_rows p f cjs) = map cj_id cjs" "map cj_name (update_rows p f cjs) = map cj_name cjs"
    "cj_id ` set (update_rows p f cjs) = cj_id ` set cjs"
    using assms(2) by (auto simp: map_update_rows image_update_rows)
  then show ?thesis using assms(1) by (simp add: cron_ok_def)
qed

lemma enable_commit_db_ok: "db_ok d \<Longrightarrow> enable_commit now clock enabled d c d' \<Longrightarrow> db_ok d'"
  by (auto simp: enable_commit_def db_ok_def enable_set_def intro!: cron_ok_update)

lemma cron_fired_job_ok: "job_ok [] (cron_fired_job jsonb now gid tc key c)"
  by (auto simp: job_ok_def count_ok_def lease_ok_def status_ok_def cron_fired_job_def terminal_def
      claimable_def normalizedMaxAttempts_def)

lemma fire_stepE:
  assumes "fire_step jsonb uuid_str now clock sid tc ids (k, c) d r d'"
  obtains t job d1 d2 where "cron_next (cj_schedule c) clock = Inr t"
    "job_idempotency_key job = Some (slot_key uuid_str c)"
    "if key_taken (Some (slot_key uuid_str c)) d then job \<in> set (jobs d) \<and> d1 = d
     else job = cron_fired_job jsonb now (fst (ids k)) tc (slot_key uuid_str c) c \<and>
       fst (ids k) \<notin> job_id ` set (jobs d) \<and> d1 = d\<lparr>jobs := jobs d @ [job]\<rparr>"
    "if slot c \<in> run_slot ` set (cron_runs d) then r = None \<and> d2 = d1
     else (\<exists>run l. r = Some \<lparr>fire_cron_job = c, fire_run = run, fire_job = job\<rparr> \<and>
       run_slot run = slot c \<and> cr_job_id run = Some (job_id job) \<and>
       cr_id run \<notin> cr_id ` set (cron_runs d) \<and> cj_id c \<in> cj_id ` set (cron_jobs d) \<and>
       log_commit (snd (snd (ids k))) (fired_log uuid_str (job_id job) c (truncate_minute (cj_next_run_at c)) sid)
         (d1\<lparr>cron_runs := cron_runs d @ [run]\<rparr>) l d2)"
    "d' = d2\<lparr>cron_jobs := update_rows (\<lambda>x. cj_id x = cj_id c)
       (fired_set now (truncate_minute (cj_next_run_at c)) t) (cron_jobs d)\<rparr>"
  using assms unfolding fire_step_def prod.case Let_def by blast

lemma fire_step_db_ok:
  assumes ok: "db_ok d" and step: "fire_step jsonb uuid_str now clock sid tc ids (k, c) d r d'"
  shows "db_ok d'"
  using step
proof (cases rule: fire_stepE)
  case (1 t job d1 d2)
  note job = 1(3) and run = 1(4) and d' = 1(5)
  have d1: "db_ok d1" "cron_jobs d1 = cron_jobs d" "cron_runs d1 = cron_runs d" "job \<in> set (jobs d1)"
    using ok job insert_job_db_ok [OF ok, of job] cron_fired_job_ok by (auto split: if_splits)
  have d2: "db_ok d2 \<and> cron_jobs d2 = cron_jobs d"
  proof (cases "slot c \<in> run_slot ` set (cron_runs d)")
    case True
    then show ?thesis using run d1 by simp
  next
    case False
    then obtain rn l where rn: "run_slot rn = slot c" "cr_job_id rn = Some (job_id job)"
        "cr_id rn \<notin> cr_id ` set (cron_runs d)" "cj_id c \<in> cj_id ` set (cron_jobs d)"
        "log_commit (snd (snd (ids k))) (fired_log uuid_str (job_id job) c (truncate_minute (cj_next_run_at c)) sid)
           (d1\<lparr>cron_runs := cron_runs d @ [rn]\<rparr>) l d2"
      using run by auto
    have "db_ok (d1\<lparr>cron_runs := cron_runs d @ [rn]\<rparr>)"
      using d1 rn(1-4) False
      by (auto simp: db_ok_def cron_ok_def run_slot_def slot_def image_iff)
    then have "db_ok d2" using rn(5) by (rule log_commit_db_ok)
    then show ?thesis using rn(5) d1(2) by (simp add: log_commit_def)
  qed
  then show ?thesis
    unfolding d' by (auto simp: db_ok_def fired_set_def intro!: cron_ok_update)
qed

lemma fire_commit_db_ok:
  "db_ok d \<Longrightarrow> fire_commit jsonb uuid_str coll locked now clock sid batch tc ids d fires d' \<Longrightarrow> db_ok d'"
  unfolding fire_commit_def
proof (elim exE conjE)
  fix rs
  assume ok: "db_ok d"
    and run: "run_each (fire_step jsonb uuid_str now clock sid tc ids)
      (enumerate 0 (due_cron_jobs coll locked clock batch d)) d rs d'"
  show "db_ok d'"
    using run_each_preserves [where P = db_ok, OF _ run ok] fire_step_db_ok by fastforce
qed

lemma CreateCronJob_db_ok: "db_ok d \<Longrightarrow> db_ok (snd (CreateCronJob jsonb net now clock gid p d))"
  by (rule create_cron.preserves) (auto intro: cron_commit_db_ok)

lemma SetCronJobEnabled_db_ok: "db_ok d \<Longrightarrow> db_ok (snd (SetCronJobEnabled uuid_parse now clock ref enabled net d))"
  by (rule enable.preserves) (auto intro: enable_commit_db_ok)

lemma FireDueCronJobs_db_ok:
  "db_ok d \<Longrightarrow> db_ok (snd (FireDueCronJobs jsonb uuid_str coll locked now clock sid batch tc ids net d))"
  by (rule fire.preserves) (auto intro: fire_commit_db_ok)

lemmas cron_store_db_ok = CreateCronJob_db_ok SetCronJobEnabled_db_ok FireDueCronJobs_db_ok

section \<open>Properties\<close>

lemma cron_next_after: "cron_next expr clock = Inr t \<Longrightarrow> clock < t"
proof -
  assume "cron_next expr clock = Inr t"
  then have "Next expr clock = Some (Inr t)" using Next_cron_next by simp
  then obtain s where "schedule_Next s clock = Inr t"
    by (auto simp: Next_def split: option.splits sum.splits)
  then have "first_match s (truncate_minute clock + minute_ns)
      (add_years 5 (truncate_minute clock + minute_ns)) = Some t"
    by (auto simp: schedule_Next_def Let_def split: option.splits)
  then show "clock < t" using first_match_Some truncate_minute_bounds(2) [of clock] by fastforce
qed

definition fire_slot :: "cron_fire \<Rightarrow> uuid \<times> instant" where
  "fire_slot f = slot (fire_cron_job f)"

definition ran :: "db \<Rightarrow> (uuid \<times> instant) set" where
  "ran d = run_slot ` set (cron_runs d)"

definition fire_ok :: "(uuid \<Rightarrow> string) \<Rightarrow> db \<Rightarrow> cron_fire \<Rightarrow> bool" where
  "fire_ok uuid_str d f \<longleftrightarrow> run_slot (fire_run f) = fire_slot f \<and>
     cr_job_id (fire_run f) = Some (job_id (fire_job f)) \<and> fire_job f \<in> set (jobs d) \<and>
     job_idempotency_key (fire_job f) = Some (slot_key uuid_str (fire_cron_job f))"

text \<open>What one iteration does to the slots and to the cron jobs.\<close>

lemma fire_step_slots:
  assumes "fire_step jsonb uuid_str now clock sid tc ids (k, c) d r d'"
  shows "ran d' = insert (slot c) (ran d)"
    "case r of None \<Rightarrow> slot c \<in> ran d
     | Some f \<Rightarrow> slot c \<notin> ran d \<and> fire_slot f = slot c \<and> fire_ok uuid_str d' f"
    "set (jobs d) \<subseteq> set (jobs d')"
    "\<exists>t. clock < t \<and> cron_jobs d' = update_rows (\<lambda>x. cj_id x = cj_id c)
       (fired_set now (truncate_minute (cj_next_run_at c)) t) (cron_jobs d)"
proof -
  from assms have "ran d' = insert (slot c) (ran d) \<and>
    (case r of None \<Rightarrow> slot c \<in> ran d
     | Some f \<Rightarrow> slot c \<notin> ran d \<and> fire_slot f = slot c \<and> fire_ok uuid_str d' f) \<and>
    set (jobs d) \<subseteq> set (jobs d') \<and>
    (\<exists>t. clock < t \<and> cron_jobs d' = update_rows (\<lambda>x. cj_id x = cj_id c)
       (fired_set now (truncate_minute (cj_next_run_at c)) t) (cron_jobs d))"
  proof (cases rule: fire_stepE)
    case (1 t job d1 d2)
    have d1: "cron_runs d1 = cron_runs d" "set (jobs d) \<subseteq> set (jobs d1)" "job \<in> set (jobs d1)"
      using 1(3) by (auto split: if_splits)
    note t = cron_next_after [OF 1(1)]
    show ?thesis
    proof (cases "slot c \<in> run_slot ` set (cron_runs d)")
      case True
      then have "slot c \<in> ran d" "r = None" "d2 = d1" using 1(4) by (simp_all add: ran_def)
      then show ?thesis using d1 t 1(5) by (auto simp: ran_def)
    next
      case False
      then obtain rn l where rn: "r = Some \<lparr>fire_cron_job = c, fire_run = rn, fire_job = job\<rparr>"
          "run_slot rn = slot c" "cr_job_id rn = Some (job_id job)" "jobs d2 = jobs d1"
          "cron_runs d2 = cron_runs d @ [rn]"
        using 1(4) by (auto simp: log_commit_def)
      then have "ran d' = insert (slot c) (ran d)" by (simp add: ran_def 1(5))
      moreover have "fire_ok uuid_str d' \<lparr>fire_cron_job = c, fire_run = rn, fire_job = job\<rparr>"
        using rn d1 1(2,5) by (simp add: fire_ok_def fire_slot_def)
      ultimately show ?thesis using False rn d1 t 1(5) by (auto simp: ran_def fire_slot_def)
    qed
  qed
  then show "ran d' = insert (slot c) (ran d)"
    "case r of None \<Rightarrow> slot c \<in> ran d
     | Some f \<Rightarrow> slot c \<notin> ran d \<and> fire_slot f = slot c \<and> fire_ok uuid_str d' f"
    "set (jobs d) \<subseteq> set (jobs d')"
    "\<exists>t. clock < t \<and> cron_jobs d' = update_rows (\<lambda>x. cj_id x = cj_id c)
       (fired_set now (truncate_minute (cj_next_run_at c)) t) (cron_jobs d)"
    by simp_all
qed

lemma fire_ok_mono: "fire_ok uuid_str d f \<Longrightarrow> set (jobs d) \<subseteq> set (jobs d') \<Longrightarrow> fire_ok uuid_str d' f"
  by (auto simp: fire_ok_def)

lemma fire_run:
  assumes "run_each (fire_step jsonb uuid_str now clock sid tc ids) (enumerate n cs) d rs d'"
    and "distinct (map cj_id cs)"
  shows "map fire_slot (List.map_filter (\<lambda>x. x) rs) = filter (\<lambda>p. p \<notin> ran d) (map slot cs) \<and>
    ran d' = ran d \<union> slot ` set cs \<and>
    (\<forall>f \<in> set (List.map_filter (\<lambda>x. x) rs). fire_ok uuid_str d' f) \<and>
    set (jobs d) \<subseteq> set (jobs d') \<and>
    (\<forall>x \<in> set (cron_jobs d'). if cj_id x \<in> cj_id ` set cs then clock < cj_next_run_at x else x \<in> set (cron_jobs d))"
  using assms
proof (induction cs arbitrary: n d rs)
  case Nil
  then show ?case by (simp add: map_filter_simps)
next
  case (Cons c cs)
  then obtain r d1 rs1 where step: "fire_step jsonb uuid_str now clock sid tc ids (n, c) d r d1"
      and rest: "run_each (fire_step jsonb uuid_str now clock sid tc ids) (enumerate (Suc n) cs) d1 rs1 d'"
      and rs: "rs = r # rs1"
    by auto
  have dist: "distinct (map cj_id cs)" "cj_id c \<notin> cj_id ` set cs" using Cons.prems(2) by auto
  then have "slot c \<notin> slot ` set cs" by (auto simp: slot_def)
  then have new: "filter (\<lambda>p. p \<notin> insert (slot c) (ran d)) (map slot cs) = filter (\<lambda>p. p \<notin> ran d) (map slot cs)"
    by (intro filter_cong) auto
  note s = fire_step_slots [OF step]
  have IH: "map fire_slot (List.map_filter (\<lambda>x. x) rs1) = filter (\<lambda>p. p \<notin> ran d1) (map slot cs)"
      "ran d' = ran d1 \<union> slot ` set cs" "\<forall>f \<in> set (List.map_filter (\<lambda>x. x) rs1). fire_ok uuid_str d' f"
      "set (jobs d1) \<subseteq> set (jobs d')"
      "\<forall>x \<in> set (cron_jobs d'). if cj_id x \<in> cj_id ` set cs then clock < cj_next_run_at x else x \<in> set (cron_jobs d1)"
    using Cons.IH [OF rest dist(1)] by blast+
  have "map fire_slot (List.map_filter (\<lambda>x. x) rs) = filter (\<lambda>p. p \<notin> ran d) (map slot (c # cs))"
    using s(2) IH(1) new by (auto simp: rs map_filter_simps s(1) split: option.splits)
  moreover have "\<forall>f \<in> set (List.map_filter (\<lambda>x. x) rs). fire_ok uuid_str d' f"
    using s(2) IH(3,4) fire_ok_mono by (auto simp: rs map_filter_simps split: option.splits)
  moreover have "\<forall>x \<in> set (cron_jobs d'). if cj_id x \<in> cj_id ` set (c # cs) then clock < cj_next_run_at x
      else x \<in> set (cron_jobs d)"
  proof
    fix x assume x: "x \<in> set (cron_jobs d')"
    show "if cj_id x \<in> cj_id ` set (c # cs) then clock < cj_next_run_at x else x \<in> set (cron_jobs d)"
      using IH(5) x s(4) dist(2) by (fastforce simp: set_update_rows fired_set_def split: if_splits)
  qed
  ultimately show ?case using IH(2,4) s(1,3) by auto
qed


lemma due_cron_facts:
  assumes "db_ok d"
  shows "distinct (map cj_id (due_cron_jobs coll locked clock batch d))"
    "\<forall>c \<in> set (due_cron_jobs coll locked clock batch d). c \<in> set (cron_jobs d) \<and> cj_enabled c \<and>
      cj_next_run_at c \<le> clock \<and> cj_id c \<notin> locked"
proof -
  have ids: "distinct (map cj_id (cron_jobs d))" using assms by (simp add: db_ok_def cron_ok_def)
  show "distinct (map cj_id (due_cron_jobs coll locked clock batch d))"
    unfolding due_cron_jobs_def take_map [symmetric]
    by (rule distinct_take) (simp only: distinct_map_order_by distinct_map_filter ids)
  show "\<forall>c \<in> set (due_cron_jobs coll locked clock batch d). c \<in> set (cron_jobs d) \<and> cj_enabled c \<and>
      cj_next_run_at c \<le> clock \<and> cj_id c \<notin> locked"
    by (auto simp: due_cron_jobs_def dest!: set_take_order_by)
qed

text \<open>
  C19. Every slot fires once. The slot of a cron job is its id and the minute it is due for. A
  successful \<open>FireDueCronJobs\<close> fires, in order, exactly the due slots that had not run before; all
  due slots have run afterwards, and no slot has two runs. Every fire has its run recorded and its
  job in the queue table under the slot's idempotency key. The next run of every due cron job lies
  after the scheduler's clock, so no scheduler whose clock is not ahead finds it due again.
\<close>

theorem FireDueCronJobs_once:
  assumes "db_ok d"
    and "FireDueCronJobs jsonb uuid_str coll locked now clock sid batch tc ids net d = (Inr fires, d')"
    and "due = due_cron_jobs coll locked clock batch d"
  shows "map fire_slot fires = filter (\<lambda>p. p \<notin> ran d) (map slot due) \<and>
    ran d' = ran d \<union> slot ` set due \<and> distinct (map run_slot (cron_runs d')) \<and>
    (\<forall>f \<in> set fires. fire_ok uuid_str d' f) \<and>
    (\<forall>locked' clock' batch' c. clock' \<le> clock \<and> c \<in> set (due_cron_jobs coll locked' clock' batch' d') \<longrightarrow>
      cj_id c \<notin> cj_id ` set due)"
proof -
  let ?sid = "if TrimSpace sid = [] then ''scheduler-unknown'' else sid"
  have c: "fire_commit jsonb uuid_str coll locked now clock ?sid batch tc ids d fires d'"
    by (rule fire.success [OF assms(2)])
  then obtain rs where rs: "run_each (fire_step jsonb uuid_str now clock ?sid tc ids) (enumerate 0 due) d rs d'"
      "fires = List.map_filter (\<lambda>x. x) rs"
    by (auto simp: fire_commit_def assms(3))
  have "distinct (map cj_id due)" using due_cron_facts(1) [OF assms(1)] assms(3) by simp
  note f = fire_run [OF rs(1) this]
  have ok: "db_ok d'" using assms(1) c by (rule fire_commit_db_ok)
  then have "distinct (map run_slot (cron_runs d'))"
    by (simp add: db_ok_def cron_ok_def run_slot_def [abs_def])
  moreover have "cj_id c \<notin> cj_id ` set due"
    if "clock' \<le> clock" "c \<in> set (due_cron_jobs coll locked' clock' batch' d')" for locked' clock' batch' c
  proof -
    have "c \<in> set (cron_jobs d')" "cj_next_run_at c \<le> clock" using due_cron_facts(2) [OF ok] that by force+
    then show ?thesis using f by force
  qed
  ultimately show ?thesis using f rs(2) by blast
qed

definition cron_params_sample :: cron_params where
  "cron_params_sample = \<lparr>crp_name = ''tick'', crp_queue = [], crp_type = ''demo.echo'', crp_payload = [],
     crp_schedule = ''*/5 * * * *'', crp_priority = 0, crp_max_attempts = 1, crp_timeout_seconds = 0\<rparr>"

definition cron_sample :: cron_job where
  "cron_sample = new_cron_job (\<lambda>s. s) 0 11 cron_params_sample 0"

definition cron_db :: db where
  "cron_db = empty_db\<lparr>cron_jobs := [cron_sample]\<rparr>"

lemma cron_db_ok: "db_ok cron_db"
  by (simp add: cron_db_def cron_sample_def new_cron_job_def empty_db_def db_ok_def jobs_ok_def idempotency_keys_def
      map_filter_simps logs_ok_def workers_ok_def cron_ok_def)

lemma cron_db_fires:
  "isl (fst (FireDueCronJobs (\<lambda>s. s) (\<lambda>u. ''u'') (\<lambda>x y. True) {} 30 30 ''s'' 10 \<lparr>tc_parent = [], tc_state = []\<rparr>
     (\<lambda>n. (1, 2, 3)) all_served cron_db)) = False"
  by code_simp

theorem FireDueCronJobs_once_witness:
  "\<exists>fires d'. FireDueCronJobs (\<lambda>s. s) (\<lambda>u. ''u'') (\<lambda>x y. True) {} 30 30 ''s'' 10 \<lparr>tc_parent = [], tc_state = []\<rparr>
     (\<lambda>n. (1, 2, 3)) all_served cron_db = (Inr fires, d') \<and>
   map fire_slot fires = [(11, 0)] \<and> ran d' = {(11, 0)}"
proof -
  let ?run = "FireDueCronJobs (\<lambda>s. s) (\<lambda>u. ''u'') (\<lambda>x y. True) {} 30 30 ''s'' 10 \<lparr>tc_parent = [], tc_state = []\<rparr>
     (\<lambda>n. (1, 2, 3)) all_served cron_db"
  obtain fires d' where run: "?run = (Inr fires, d')"
    using cron_db_fires by (cases ?run; cases "fst ?run") auto
  have due: "due_cron_jobs (\<lambda>x y. True) {} 30 10 cron_db = [cron_sample]"
    by (simp add: due_cron_jobs_def cron_db_def cron_sample_def new_cron_job_def empty_db_def batch_size_def)
  have "slot cron_sample = (11, 0)" by (simp add: slot_def cron_sample_def new_cron_job_def truncate_minute_def)
  then have "map fire_slot fires = [(11, 0)] \<and> ran d' = {(11, 0)}"
    using FireDueCronJobs_once [OF cron_db_ok run refl] due by (simp add: ran_def cron_db_def empty_db_def)
  then show ?thesis by (intro exI [of _ fires] exI [of _ d'] conjI run) simp_all
qed

lemma split_at_first: "x \<notin> set a \<Longrightarrow> x \<notin> set b \<Longrightarrow> a @ x # p = b @ x # q \<Longrightarrow> a = b \<and> p = q"
proof (induction a arbitrary: b)
  case Nil
  then show ?case by (cases b) auto
next
  case (Cons y a)
  then show ?case by (cases b) auto
qed

lemma truncate_minute_seconds:
  assumes "seconds_of (truncate_minute t) = seconds_of (truncate_minute u)"
  shows "truncate_minute t = truncate_minute u"
proof -
  obtain k where k: "truncate_minute t = minute_ns * k" using truncate_minute_dvd by (auto elim: dvdE)
  obtain l where l: "truncate_minute u = minute_ns * l" using truncate_minute_dvd by (auto elim: dvdE)
  show ?thesis using assms k l by (simp add: seconds_of_def)
qed

text \<open>
  Idempotency keys tell slots apart. If the textual form of a UUID is injective and has no
  colon, two cron jobs have the same idempotency key for their next firing only if they are the same
  cron job due in the same minute: firing one slot can never swallow the job of another.
\<close>

lemma slot_key_inj:
  assumes "inj uuid_str" and "\<forall>u. CHR '':'' \<notin> set (uuid_str u)"
    and "0 \<le> Year (truncate_minute (cj_next_run_at c))" and "0 \<le> Year (truncate_minute (cj_next_run_at c'))"
    and "slot_key uuid_str c = slot_key uuid_str c'"
  shows "slot c = slot c'"
proof -
  let ?t = "truncate_minute (cj_next_run_at c)" and ?u = "truncate_minute (cj_next_run_at c')"
  have "uuid_str (cj_id c) @ CHR '':'' # format_RFC3339 ?t = uuid_str (cj_id c') @ CHR '':'' # format_RFC3339 ?u"
    using assms(5) by (simp add: slot_key_def cronIdempotencyKey_def)
  then have "uuid_str (cj_id c) = uuid_str (cj_id c')" "format_RFC3339 ?t = format_RFC3339 ?u"
    using split_at_first [OF assms(2) [rule_format] assms(2) [rule_format]] by simp_all
  then have "cj_id c = cj_id c'" "?t = ?u"
    using injD [OF assms(1)] truncate_minute_seconds [OF format_RFC3339_inj [OF _ assms(3,4)]] by blast+
  then show ?thesis by (simp add: slot_def)
qed

definition bits_str :: "uuid \<Rightarrow> string" where
  "bits_str u = map (\<lambda>i. if bit u i then CHR ''1'' else CHR ''0'') [0..<128]"

lemma inj_bits_str: "inj bits_str"
proof (rule injI)
  fix u v :: uuid
  assume eq: "bits_str u = bits_str v"
  have "bit u i = bit v i" if "i < 128" for i
  proof -
    have "bits_str u ! i = bits_str v ! i" using eq by simp
    then show ?thesis using that by (simp add: bits_str_def split: if_splits)
  qed
  then show "u = v" by (intro bit_word_eqI) simp
qed

lemma slot_key_inj_witness:
  "slot_key bits_str cron_sample = slot_key bits_str (cron_sample\<lparr>cj_next_run_at := 30\<rparr>) \<and>
   slot cron_sample = slot (cron_sample\<lparr>cj_next_run_at := 30\<rparr>)"
proof -
  have colon: "\<forall>u. CHR '':'' \<notin> set (bits_str u)" by (auto simp: bits_str_def)
  have t: "truncate_minute (cj_next_run_at cron_sample) = 0"
    "truncate_minute (cj_next_run_at (cron_sample\<lparr>cj_next_run_at := 30\<rparr>)) = 0"
    by (simp_all add: cron_sample_def new_cron_job_def truncate_minute_def)
  have year: "0 \<le> Year 0" by code_simp
  have key: "slot_key bits_str cron_sample = slot_key bits_str (cron_sample\<lparr>cj_next_run_at := 30\<rparr>)"
    using t by (simp add: slot_key_def)
  then show ?thesis using slot_key_inj [OF inj_bits_str colon _ _ key] t year by simp
qed

lemma run_each_all:
  assumes "\<And>x d r d'. S x d r d' \<Longrightarrow> P x"
  shows "run_each S xs d rs d' \<Longrightarrow> x \<in> set xs \<Longrightarrow> P x"
  by (induction xs arbitrary: d rs) (auto dest: assms)

lemma no_fire_commit:
  assumes "c \<in> set (due_cron_jobs coll locked clock batch d)" and "cron_next (cj_schedule c) clock = Inl e"
  shows "\<not> fire_commit jsonb uuid_str coll locked now clock sid batch tc ids d fires d'"
proof
  assume "fire_commit jsonb uuid_str coll locked now clock sid batch tc ids d fires d'"
  then obtain rs where "run_each (fire_step jsonb uuid_str now clock sid tc ids)
      (enumerate 0 (due_cron_jobs coll locked clock batch d)) d rs d'"
    by (auto simp: fire_commit_def)
  moreover obtain k where "(k, c) \<in> set (enumerate 0 (due_cron_jobs coll locked clock batch d))"
    using assms(1) map_snd_enumerate [of 0 "due_cron_jobs coll locked clock batch d"]
    by (metis (no_types, lifting) imageE list.set_map prod.collapse)
  ultimately have "\<exists>t. cron_next (cj_schedule (snd (k, c))) clock = Inr t"
    by (rule run_each_all [where P = "\<lambda>kc. \<exists>t. cron_next (cj_schedule (snd kc)) clock = Inr t", rotated])
      (auto simp: fire_step_def Let_def)
  then show False using assms(2) by simp
qed

text \<open>
  C34. One bad schedule stops the batch. When the schedule of any due cron job has no next run, every
  call of \<open>FireDueCronJobs\<close> fails and leaves the database as it is: none of the other due cron jobs
  fires either, whatever the network does.
\<close>

theorem FireDueCronJobs_poisoned:
  assumes "c \<in> set (due_cron_jobs coll locked clock batch d)" and "cron_next (cj_schedule c) clock = Inl e"
  shows "snd (FireDueCronJobs jsonb uuid_str coll locked now clock sid batch tc ids net d) = d \<and>
    (\<exists>e'. fst (FireDueCronJobs jsonb uuid_str coll locked now clock sid batch tc ids net d) = Inl e')"
  using fire.rejected [OF no_fire_commit [OF assms]] by blast

definition bad_cron_db :: db where
  "bad_cron_db = cron_db\<lparr>cron_jobs := [cron_sample\<lparr>cj_schedule := ''never''\<rparr>, cron_sample\<lparr>cj_id := 12\<rparr>]\<rparr>"

theorem FireDueCronJobs_poisoned_witness:
  "\<exists>e. FireDueCronJobs (\<lambda>s. s) (\<lambda>u. ''u'') (\<lambda>x y. True) {} 30 30 ''s'' 10 \<lparr>tc_parent = [], tc_state = []\<rparr>
     (\<lambda>n. (1, 2, 3)) all_served bad_cron_db = (Inl e, bad_cron_db)"
proof -
  let ?run = "FireDueCronJobs (\<lambda>s. s) (\<lambda>u. ''u'') (\<lambda>x y. True) {} 30 30 ''s'' 10 \<lparr>tc_parent = [], tc_state = []\<rparr>
     (\<lambda>n. (1, 2, 3)) all_served bad_cron_db"
  have "cron_sample\<lparr>cj_schedule := ''never''\<rparr> \<in> set (due_cron_jobs (\<lambda>x y. True) {} 30 10 bad_cron_db)"
    by (simp add: due_cron_jobs_def bad_cron_db_def cron_db_def cron_sample_def new_cron_job_def empty_db_def
        batch_size_def asc_def asc_text_def ties_def)
  moreover have "cron_next ''never'' 30 = Inl FieldCount" by code_simp
  moreover have "cj_schedule (cron_sample\<lparr>cj_schedule := ''never''\<rparr>) = ''never''" by simp
  ultimately obtain e where "snd ?run = bad_cron_db" "fst ?run = Inl e"
    using FireDueCronJobs_poisoned [of "cron_sample\<lparr>cj_schedule := ''never''\<rparr>" "\<lambda>x y. True" "{}" 30 10 bad_cron_db
        FieldCount "\<lambda>s. s" "\<lambda>u. ''u''" 30 "''s''" "\<lparr>tc_parent = [], tc_state = []\<rparr>" "\<lambda>n. (1, 2, 3)" all_served]
    by auto
  then show ?thesis by (intro exI [of _ e] prod_eqI) simp_all
qed

end
