(* ===== verification/LeaseSystem.thy ===== *)
theory LeaseSystem
  imports CronStore
begin

text \<open>
  The store as a state machine. \<open>store_step\<close> is one write operation by any client (API, worker,
  scheduler, CLI), with any parameters, clocks and identifiers, under any behaviour of the network;
  a run is any sequence of them, so all interleavings of the clients' operations are covered.
  \<open>job_change\<close> sums up what a step can do to the jobs and their attempts; the properties of runs
  follow from it by cases.
\<close>

section \<open>Steps\<close>

inductive store_step :: "db \<Rightarrow> db \<Rightarrow> bool" where
  create: "store_step d (snd (CreateJob jsonb net now gid p d))"
| append_log: "store_step d (snd (AppendJobLog jsonb net now gid lp d))"
| retry: "store_step d (snd (RetryJob jsonb now gid i net d))"
| cancel: "store_step d (snd (CancelJob jsonb now gid i net d))"
| claim: "store_step d (snd (ClaimJob locked now gid t queue w lease net d))"
| complete: "store_step d (snd (CompleteJob now i t net d))"
| failure: "store_step d (snd (FailJob now i t m policy net d))"
| recover: "store_step d (snd (RecoverExpiredJobs locked now batch reason net d))"
| register: "store_step d (snd (RegisterWorker jsonb net now rp d))"
| heartbeat: "store_step d (snd (HeartbeatWorker now w status lease net d))"
| mark: "store_step d (snd (MarkWorkerStatus now w status net d))"
| create_cron: "store_step d (snd (CreateCronJob jsonb net now clock gid cp d))"
| enable: "store_step d (snd (SetCronJobEnabled uuid_parse now clock ref enabled net d))"
| fire: "store_step d (snd (FireDueCronJobs jsonb uuid_str coll locked now clock sid batch tc ids net d))"

text \<open>Inductive invariants of a transition system.\<close>

locale transition_system =
  fixes step :: "'s \<Rightarrow> 's \<Rightarrow> bool" and init :: 's
begin

definition reachable :: "'s \<Rightarrow> bool" where
  "reachable s \<longleftrightarrow> step\<^sup>*\<^sup>* init s"

end

locale inductive_invariant = transition_system step init
  for step :: "'s \<Rightarrow> 's \<Rightarrow> bool" and init :: 's +
  fixes good :: "'s \<Rightarrow> bool"
  assumes good_init: "good init"
    and good_step: "good s \<Longrightarrow> step s s' \<Longrightarrow> good s'"
begin

lemma good_run: "step\<^sup>*\<^sup>* s s' \<Longrightarrow> good s \<Longrightarrow> good s'"
  by (induction rule: rtranclp_induct) (auto intro: good_step)

lemma good_reachable: "reachable s \<Longrightarrow> good s"
  using good_run good_init by (auto simp: reachable_def)

text \<open>A relation between the two ends of a run, proved step by step under the invariant.\<close>

lemma run_relation:
  assumes "\<And>s. R s s" and "\<And>a b c. R a b \<Longrightarrow> R b c \<Longrightarrow> R a c"
    and "\<And>a b. good a \<Longrightarrow> step a b \<Longrightarrow> R a b"
  shows "step\<^sup>*\<^sup>* s s' \<Longrightarrow> good s \<Longrightarrow> R s s'"
proof (induction rule: rtranclp_induct)
  case base
  show ?case by (rule assms(1))
next
  case (step y z)
  then have "R y z" using good_run assms(3) by blast
  then show ?case using step assms(2) by blast
qed

text \<open>A property that the invariant keeps once it holds.\<close>

lemma run_stable:
  assumes "\<And>a b. good a \<Longrightarrow> step a b \<Longrightarrow> P a \<Longrightarrow> P b"
  shows "step\<^sup>*\<^sup>* s s' \<Longrightarrow> good s \<Longrightarrow> P s \<Longrightarrow> P s'"
proof (induction rule: rtranclp_induct)
  case (step y z)
  then show ?case using good_run assms by blast
qed simp

end

lemma store_step_db_ok: "db_ok d \<Longrightarrow> store_step d d' \<Longrightarrow> db_ok d'"
  by (erule store_step.cases) (auto intro: job_store_db_ok lease_store_db_ok worker_store_db_ok cron_store_db_ok)

interpretation store: inductive_invariant store_step empty_db db_ok
  by unfold_locales (auto intro: db_ok_empty store_step_db_ok)

section \<open>What a step does to the jobs\<close>

inductive job_change :: "db \<Rightarrow> db \<Rightarrow> bool" where
  added: "jobs d' = jobs d @ new \<Longrightarrow> attempts d' = attempts d \<Longrightarrow>
    \<forall>j \<in> set new. job_status j = Queued \<and> job_ok [] j \<Longrightarrow> job_change d d'"
| rewritten: "jobs d' = map f (jobs d) \<Longrightarrow> attempts d' = attempts d \<Longrightarrow>
    \<forall>j \<in> set (jobs d). f j = j \<or> (f j = retry_set now j \<and> retryable (job_status j)) \<or>
      (f j = cancel_set now j \<and> claimable (job_status j)) \<or>
      (f j = extend_lease now lease j \<and> job_status j = Running) \<Longrightarrow> job_change d d'"
| claimed: "j \<in> set (jobs d) \<Longrightarrow> claimable (job_status j) \<Longrightarrow>
    jobs d' = map (\<lambda>k. if k = j then claim_set now w lease t j else k) (jobs d) \<Longrightarrow>
    a = new_attempt now gid (job_id j) w t (job_attempt_count j + 1) \<Longrightarrow>
    t \<notin> att_lease_token ` set (attempts_of (job_id j) (attempts d)) \<Longrightarrow>
    attempts d' = attempts d @ [a] \<Longrightarrow> job_change d d'"
| closed: "set js \<subseteq> set (jobs d) \<Longrightarrow> \<forall>j \<in> set js. job_status j = Running \<and> ends_lease j (f j) s \<and>
      job_id (f j) = job_id j \<and> (s = AttemptFailed \<longrightarrow> job_status (f j) \<in> {RetryScheduled, DeadLetter}) \<Longrightarrow>
    closes g s \<Longrightarrow> jobs d' = map (\<lambda>j. if j \<in> set js then f j else j) (jobs d) \<Longrightarrow>
    attempts d' = update_rows (leased_in js) g (attempts d) \<Longrightarrow> job_change d d'"

inductive_cases job_changeE: "job_change d d'"

lemma job_change_same: "jobs d' = jobs d \<Longrightarrow> attempts d' = attempts d \<Longrightarrow> job_change d d'"
  by (rule job_change.added [where new = "[]"]) simp_all

lemma change_create: "create_commit jsonb now gid p d r d' \<Longrightarrow> job_change d d'"
  by (auto simp: create_commit_def new_job_ok intro: job_change_same
      job_change.added [where new = "[fst r]"] split: if_splits)

lemma change_log: "log_commit gid p d l d' \<Longrightarrow> job_change d d'"
  by (auto simp: log_commit_def intro: job_change_same)

lemma update_by_id:
  assumes "db_ok d" and "find_row job_id i (jobs d) = Some j"
  shows "update_rows (by_id i) f (jobs d) = map (\<lambda>k. if k = j then f j else k) (jobs d)"
  unfolding update_rows_def
proof (rule map_cong [OF refl])
  fix k assume "k \<in> set (jobs d)"
  then have "job_id k = i \<longleftrightarrow> k = j" using db_ok_row(2,3) [OF assms] by blast
  then show "(if job_id k = i then f k else k) = (if k = j then f j else k)" by (cases "k = j") simp_all
qed

lemma change_retry: "db_ok d \<Longrightarrow> retry_commit now gid i d r d' \<Longrightarrow> job_change d d'"
proof -
  assume ok: "db_ok d" and c: "retry_commit now gid i d r d'"
  then obtain j where j: "find_row job_id i (jobs d) = Some j" "retryable (job_status j)"
      "jobs d' = update_rows (by_id i) (retry_set now) (jobs d)" "attempts d' = attempts d"
    by (auto simp: manual_commit_def log_commit_def)
  show ?thesis
    by (rule job_change.rewritten [where f = "\<lambda>k. if k = j then retry_set now j else k" and now = now])
      (use j update_by_id [OF ok j(1)] in auto)
qed

lemma change_cancel: "db_ok d \<Longrightarrow> cancel_commit now gid i d r d' \<Longrightarrow> job_change d d'"
proof -
  assume ok: "db_ok d" and c: "cancel_commit now gid i d r d'"
  then obtain j where j: "find_row job_id i (jobs d) = Some j" "claimable (job_status j)"
      "jobs d' = update_rows (by_id i) (cancel_set now) (jobs d)" "attempts d' = attempts d"
    by (auto simp: manual_commit_def log_commit_def)
  show ?thesis
    by (rule job_change.rewritten [where f = "\<lambda>k. if k = j then cancel_set now j else k" and now = now])
      (use j update_by_id [OF ok j(1)] in auto)
qed

lemma change_claim: "db_ok d \<Longrightarrow> claim_commit locked now gid t queue w lease d r d' \<Longrightarrow> job_change d d'"
proof -
  assume ok: "db_ok d" and c: "claim_commit locked now gid t queue w lease d r d'"
  then show ?thesis
  proof (cases rule: claim_commit_cases)
    case idle
    then show ?thesis by (auto intro: job_change_same)
  next
    case (claimed j a)
    have "find_row job_id (job_id j) (jobs d) = Some j"
      by (rule find_row_unique [OF db_ok_distinct(1) [OF ok] claimed(2)])
    then show ?thesis
      using claimed update_by_id [OF ok]
      by (intro job_change.claimed [of j d d' now w lease t a gid]) (auto simp: claim_due_def)
  qed
qed

lemma close_lease_change:
  assumes ok: "db_ok d" and j: "j \<in> set (jobs d)" "job_fenced i t j"
    and f: "\<And>k. job_id (f k) = job_id k" and e: "ends_lease j (f j) s" and g: "closes g s"
    and st: "s = AttemptFailed \<longrightarrow> job_status (f j) \<in> {RetryScheduled, DeadLetter}"
  shows "job_change d (close_lease i t f g d)"
proof (rule job_change.closed [where js = "[j]" and f = f and g = g and s = s])
  note row = fenced_row [OF ok j]
  have "attempt_fenced i t = leased_in [j]"
    using j(2) by (auto simp: attempt_fenced_def leased_in_def job_fenced_def fun_eq_iff)
  then show "attempts (close_lease i t f g d) = update_rows (leased_in [j]) g (attempts d)"
    by (simp add: close_lease_def)
  show "jobs (close_lease i t f g d) = map (\<lambda>k. if k \<in> set [j] then f k else k) (jobs d)"
    using update_by_id [OF ok row(1), of f] by (auto simp: close_lease_def)
  show "\<forall>k \<in> set [j]. job_status k = Running \<and> ends_lease k (f k) s \<and> job_id (f k) = job_id k \<and>
      (s = AttemptFailed \<longrightarrow> job_status (f k) \<in> {RetryScheduled, DeadLetter})"
    using row(3) e st f by simp
qed (use j g in simp_all)

lemma change_complete: "db_ok d \<Longrightarrow> complete_commit now i t d r d' \<Longrightarrow> job_change d d'"
proof -
  assume ok: "db_ok d" and c: "complete_commit now i t d r d'"
  obtain j where j: "j \<in> set (jobs d)" "job_fenced i t j"
      "d' = close_lease i t (complete_set now) (attempt_succeed now) d"
    using complete_commit_close [OF ok c] by blast
  note row = fenced_row [OF ok j(1,2)]
  show ?thesis
    unfolding j(3)
    by (rule close_lease_change [where s = AttemptSucceeded, OF ok j(1,2) job_touchD(1) [OF job_touchI(2)]
          ends_leaseI(1) [OF row(4,3)] closes_attempt(1)]) simp
qed

lemma fail_set_status: "job_status (fail_set now delay m j k) \<in> {RetryScheduled, DeadLetter}"
  "job_status (recover_set now m j k) \<in> {RetryScheduled, DeadLetter}"
  by (simp_all add: fail_set_def recover_set_def reschedule_set_def dead_letter_set_def)

lemma change_fail: "db_ok d \<Longrightarrow> fail_commit now i t m policy d r d' \<Longrightarrow> job_change d d'"
proof -
  assume ok: "db_ok d" and c: "fail_commit now i t m policy d r d'"
  obtain j where j: "j \<in> set (jobs d)" "job_fenced i t j"
      "d' = close_lease i t (fail_set now (DelayForAttempt (Normalize policy) (job_attempt_count j)) m j)
         (attempt_fail now m) d"
    using fail_commit_cases [OF ok c] by blast
  note row = fenced_row [OF ok j(1,2)]
  show ?thesis
    unfolding j(3)
    by (rule close_lease_change [where s = AttemptFailed
          and f = "fail_set now (DelayForAttempt (Normalize policy) (job_attempt_count j)) m j", OF ok j(1,2) job_touchD(1) [OF job_touchI(5)]
          ends_leaseI(2) [OF row(4,3)] closes_attempt(2)]) (use fail_set_status(1) in blast)
qed

lemma change_recover: "db_ok d \<Longrightarrow> recover_commit locked now batch m d rs d' \<Longrightarrow> job_change d d'"
proof -
  assume ok: "db_ok d" and c: "recover_commit locked now batch m d rs d'"
  let ?js = "expired_jobs locked now batch d"
  note facts = expired_jobs_facts [OF ok, of locked now batch]
  have "\<forall>j \<in> set ?js. j \<in> set (jobs d) \<and> job_status j = Running" using facts(1) by blast
  note b = recover_fold [OF ok this facts(2), of now m]
  have d': "d' = fold (recover_step now m) ?js d" using c by (simp add: recover_commit_def)
  show ?thesis
  proof (rule job_change.closed [where js = ?js and f = "\<lambda>j. recover_set now m j j" and g = "attempt_fail now m"
      and s = AttemptFailed])
    show "\<forall>j \<in> set ?js. job_status j = Running \<and> ends_lease j (recover_set now m j j) AttemptFailed \<and>
        job_id (recover_set now m j j) = job_id j \<and>
        (AttemptFailed = AttemptFailed \<longrightarrow> job_status (recover_set now m j j) \<in> {RetryScheduled, DeadLetter})"
    proof
      fix j assume "j \<in> set ?js"
      then have j: "j \<in> set (jobs d)" "job_status j = Running" using facts(1) by blast+
      then have "job_ok (attempts_of (job_id j) (attempts d)) j" using ok by (simp add: db_ok_def jobs_ok_def)
      then show "job_status j = Running \<and> ends_lease j (recover_set now m j j) AttemptFailed \<and>
        job_id (recover_set now m j j) = job_id j \<and>
        (AttemptFailed = AttemptFailed \<longrightarrow> job_status (recover_set now m j j) \<in> {RetryScheduled, DeadLetter})"
        using ends_leaseI(3) j(2) fail_set_status(2) by simp
    qed
  qed (use b facts(1) d' in auto)
qed

lemma change_beat: "db_ok d \<Longrightarrow> beat_commit now w status lease d r d' \<Longrightarrow> job_change d d'"
  by (rule job_change.rewritten [where f = "\<lambda>j. if 0 < lease \<and> leased_by w j then extend_lease now lease j else j"
      and now = now and lease = lease])
    (auto simp: beat_commit_def update_rows_def leased_by_def)

lemma change_register: "register_commit jsonb now p d w d' \<Longrightarrow> job_change d d'"
  by (auto simp: register_commit_def intro: job_change_same)

lemma change_cron: "cron_commit jsonb now clock gid p d c d' \<Longrightarrow> job_change d d'"
  "enable_commit now clock enabled d c d' \<Longrightarrow> job_change d d'"
  by (auto simp: cron_commit_def enable_commit_def intro: job_change_same)

lemma fire_step_jobs:
  assumes "fire_step jsonb uuid_str now clock sid tc ids (k, c) d r d'"
  shows "\<exists>new. jobs d' = jobs d @ new \<and> attempts d' = attempts d \<and> (\<forall>j \<in> set new. job_status j = Queued \<and> job_ok [] j)"
  using assms
proof (cases rule: fire_stepE)
  case (1 t job d1 d2)
  have d2: "jobs d2 = jobs d1" "attempts d2 = attempts d1"
    using 1(4) by (auto simp: log_commit_def split: if_splits)
  have "\<exists>new. jobs d1 = jobs d @ new \<and> attempts d1 = attempts d \<and> (\<forall>j \<in> set new. job_status j = Queued \<and> job_ok [] j)"
  proof (cases "key_taken (Some (slot_key uuid_str c)) d")
    case True
    then show ?thesis using 1(3) by simp
  next
    case False
    then show ?thesis
      using 1(3) cron_fired_job_ok by (intro exI [of _ "[job]"]) (auto simp: cron_fired_job_def)
  qed
  then show ?thesis using d2 1(5) by simp
qed

lemma change_fire:
  assumes "fire_commit jsonb uuid_str coll locked now clock sid batch tc ids d fires d'"
  shows "job_change d d'"
proof -
  obtain rs where run: "run_each (fire_step jsonb uuid_str now clock sid tc ids)
      (enumerate 0 (due_cron_jobs coll locked clock batch d)) d rs d'"
    using assms by (auto simp: fire_commit_def)
  have "run_each (fire_step jsonb uuid_str now clock sid tc ids) xs d rs d' \<Longrightarrow>
    \<exists>new. jobs d' = jobs d @ new \<and> attempts d' = attempts d \<and> (\<forall>j \<in> set new. job_status j = Queued \<and> job_ok [] j)"
    for xs d rs
  proof (induction xs arbitrary: d rs)
    case (Cons x xs)
    then obtain r d1 rs1 where step: "fire_step jsonb uuid_str now clock sid tc ids (fst x, snd x) d r d1"
        and rest: "run_each (fire_step jsonb uuid_str now clock sid tc ids) xs d1 rs1 d'"
      by auto
    obtain n1 where n1: "jobs d1 = jobs d @ n1" "attempts d1 = attempts d" "\<forall>j \<in> set n1. job_status j = Queued \<and> job_ok [] j"
      using fire_step_jobs [OF step] by blast
    obtain n2 where n2: "jobs d' = jobs d1 @ n2" "attempts d' = attempts d1" "\<forall>j \<in> set n2. job_status j = Queued \<and> job_ok [] j"
      using Cons.IH [OF rest] by blast
    show ?case by (rule exI [of _ "n1 @ n2"]) (use n1 n2 in auto)
  qed simp
  from this [OF run] show ?thesis by (auto intro: job_change.added)
qed

lemma operation_change:
  assumes "store_operation run commit" and "\<And>a d'. commit d a d' \<Longrightarrow> job_change d d'"
  shows "job_change d (snd (run net d))"
proof -
  have "job_change d d" by (rule job_change_same) simp_all
  then show ?thesis using store_operation.effect [OF assms(1), of net d] assms(2) by auto
qed

lemma change_mark: "job_change d (snd (MarkWorkerStatus now w status net d))"
  using MarkWorkerStatus_effect [of now w status net d] by (auto intro: job_change_same)

lemmas operation_changes =
  operation_change [OF create.store_operation_axioms change_create]
  operation_change [OF append_log.store_operation_axioms change_log]
  operation_change [OF retry.store_operation_axioms change_retry]
  operation_change [OF cancel.store_operation_axioms change_cancel]
  operation_change [OF claim.store_operation_axioms change_claim]
  operation_change [OF complete.store_operation_axioms change_complete]
  operation_change [OF failure.store_operation_axioms change_fail]
  operation_change [OF recover.store_operation_axioms change_recover]
  operation_change [OF register.store_operation_axioms change_register]
  operation_change [OF heartbeat.store_operation_axioms change_beat]
  operation_change [OF create_cron.store_operation_axioms change_cron(1)]
  operation_change [OF enable.store_operation_axioms change_cron(2)]
  operation_change [OF fire.store_operation_axioms change_fire]

lemma store_step_change: "db_ok d \<Longrightarrow> store_step d d' \<Longrightarrow> job_change d d'"
  by (erule store_step.cases) (auto intro: operation_changes change_mark)

section \<open>The abstract job\<close>

text \<open>
  What the queue promises about one job: the edges of its life cycle. A new job
  starts \<open>Queued\<close>.
\<close>

fun lifecycle :: "job_status \<Rightarrow> job_status \<Rightarrow> bool" where
  "lifecycle Queued s \<longleftrightarrow> s \<in> {Running, Cancelled}"
| "lifecycle RetryScheduled s \<longleftrightarrow> s \<in> {Running, Cancelled}"
| "lifecycle Running s \<longleftrightarrow> s \<in> {Succeeded, RetryScheduled, DeadLetter}"
| "lifecycle Failed s \<longleftrightarrow> s = Queued"
| "lifecycle DeadLetter s \<longleftrightarrow> s = Queued"
| "lifecycle Cancelled s \<longleftrightarrow> s = Queued"
| "lifecycle Succeeded s \<longleftrightarrow> False"

definition status_of :: "db \<Rightarrow> uuid \<Rightarrow> job_status option" where
  "status_of d i = map_option job_status (find_row job_id i (jobs d))"

text \<open>The abstract queue: every job either stays, or moves along an edge, or is new.\<close>

definition queue_step :: "(uuid \<Rightarrow> job_status option) \<Rightarrow> (uuid \<Rightarrow> job_status option) \<Rightarrow> bool" where
  "queue_step m m' \<longleftrightarrow> (\<forall>i. m' i = m i \<or> (m i = None \<and> m' i = Some Queued) \<or>
     (\<exists>s s'. m i = Some s \<and> m' i = Some s' \<and> lifecycle s s'))"

locale refinement = inductive_invariant step init good
  for step :: "'s \<Rightarrow> 's \<Rightarrow> bool" and init :: 's and good :: "'s \<Rightarrow> bool" +
  fixes view :: "'s \<Rightarrow> 'a" and astep :: "'a \<Rightarrow> 'a \<Rightarrow> bool"
  assumes simulates: "good s \<Longrightarrow> step s s' \<Longrightarrow> astep (view s) (view s')"
begin

lemma run_simulated: "step\<^sup>*\<^sup>* s s' \<Longrightarrow> good s \<Longrightarrow> astep\<^sup>*\<^sup>* (view s) (view s')"
proof (induction rule: rtranclp_induct)
  case (step y z)
  then have "astep (view y) (view z)" using good_run simulates by blast
  then show ?case using step by (meson rtranclp.rtrancl_into_rtrancl)
qed simp

end

lemma retry_lifecycle: "retryable s \<Longrightarrow> lifecycle s Queued"
  by (cases s) (auto simp: retryable_def)

lemma cancel_lifecycle: "claimable s \<Longrightarrow> lifecycle s Cancelled"
  by (cases s) (auto simp: claimable_def)

lemma claim_lifecycle: "claimable s \<Longrightarrow> lifecycle s Running"
  by (cases s) (auto simp: claimable_def)

lemma ends_lease_lifecycle: "ends_lease j k s \<Longrightarrow> s = AttemptFailed \<longrightarrow> job_status k \<in> {RetryScheduled, DeadLetter} \<Longrightarrow>
    s \<noteq> AttemptRunning \<Longrightarrow> lifecycle Running (job_status k)"
  by (cases s) (auto simp: ends_lease_def)

text \<open>A job's row after a change: the row it had, rewritten along an edge or not at all.\<close>

lemma find_row_map:
  "(\<And>r. r \<in> set rs \<Longrightarrow> key (f r) = key r) \<Longrightarrow> find_row key k (map f rs) = map_option f (find_row key k rs)"
  by (induction rs) (auto simp: find_row_def)

lemma find_row_append:
  "find_row key k (rs @ qs) = (case find_row key k rs of Some r \<Rightarrow> Some r | None \<Rightarrow> find_row key k qs)"
  by (induction rs) (auto simp: find_row_def)

lemma job_change_row:
  assumes "job_change d d'"
  shows "case find_row job_id i (jobs d) of
      None \<Rightarrow> (case find_row job_id i (jobs d') of None \<Rightarrow> True | Some j \<Rightarrow> job_status j = Queued)
    | Some j \<Rightarrow> (\<exists>k. find_row job_id i (jobs d') = Some k \<and>
        (job_status k = job_status j \<or> lifecycle (job_status j) (job_status k)))"
  using assms
proof cases
  case (added new)
  then show ?thesis
    by (auto simp: find_row_append split: option.splits dest: find_row_Some)
next
  case (rewritten f now lease)
  have id: "job_id (f j) = job_id j" if "j \<in> set (jobs d)" for j using rewritten(3) that by auto
  show ?thesis
  proof (cases "find_row job_id i (jobs d)")
    case None
    then show ?thesis by (simp add: rewritten(1) find_row_map id)
  next
    case (Some j)
    then have "j \<in> set (jobs d)" using find_row_Some by fast
    then have "job_status (f j) = job_status j \<or> lifecycle (job_status j) (job_status (f j))"
      using rewritten(3) retry_lifecycle cancel_lifecycle by fastforce
    then show ?thesis using Some by (simp add: rewritten(1) find_row_map id)
  qed
next
  case (claimed j now w lease t a gid)
  let ?f = "\<lambda>k. if k = j then claim_set now w lease t j else k"
  have id: "job_id (?f k) = job_id k" for k by simp
  show ?thesis
    using claim_lifecycle [OF claimed(2)]
    by (simp add: claimed(3) find_row_map id split: option.splits)
next
  case (closed js f s g)
  let ?f = "\<lambda>k. if k \<in> set js then f k else k"
  have id: "job_id (?f k) = job_id k" for k using closed(2) by simp
  have "lifecycle (job_status k) (job_status (f k))" if "k \<in> set js" for k
    using that closed(2) ends_lease_lifecycle [of k "f k" s] closesD(6) [OF closed(3)] by simp
  then show ?thesis
    by (simp add: closed(4) find_row_map id split: option.splits)
qed

interpretation queue: refinement store_step empty_db db_ok status_of queue_step
proof
  fix d d'
  assume "db_ok d" "store_step d d'"
  then have change: "job_change d d'" by (rule store_step_change)
  show "queue_step (status_of d) (status_of d')"
    unfolding queue_step_def
  proof
    fix i
    show "status_of d' i = status_of d i \<or> (status_of d i = None \<and> status_of d' i = Some Queued) \<or>
      (\<exists>s s'. status_of d i = Some s \<and> status_of d' i = Some s' \<and> lifecycle s s')"
      using job_change_row [OF change, of i] by (auto simp: status_of_def split: option.splits)
  qed
qed

section \<open>What a run keeps\<close>

definition finished :: "attempt \<Rightarrow> bool" where
  "finished a \<longleftrightarrow> att_status a \<noteq> AttemptRunning"

definition keeps_history :: "db \<Rightarrow> db \<Rightarrow> bool" where
  "keeps_history d d' \<longleftrightarrow> (\<forall>a \<in> set (attempts d). finished a \<longrightarrow> a \<in> set (attempts d'))"

lemma job_change_history:
  assumes "job_change d d'"
  shows "keeps_history d d'"
  using assms
proof cases
  case (closed js f s g)
  then show ?thesis by (auto simp: keeps_history_def set_update_rows finished_def leased_in_def)
qed (auto simp: keeps_history_def)

lemma run_history:
  assumes "db_ok d" and "store_step\<^sup>*\<^sup>* d d'"
  shows "keeps_history d d'"
proof (rule store.run_relation [of keeps_history, OF _ _ _ assms(2,1)])
  show "keeps_history s s" for s by (simp add: keeps_history_def)
  show "keeps_history a c" if "keeps_history a b" "keeps_history b c" for a b c
    using that by (auto simp: keeps_history_def)
  show "keeps_history a b" if "db_ok a" "store_step a b" for a b
    using that by (auto intro: job_change_history store_step_change)
qed

text \<open>A token whose attempt is finished is not the current lease of its job.\<close>

lemma finished_not_leased:
  assumes ok: "db_ok d" and a: "a \<in> set (attempts d)" "finished a"
  shows "\<not> holds_lease d (att_job_id a) (att_lease_token a)"
proof
  let ?i = "att_job_id a"
  assume "holds_lease d ?i (att_lease_token a)"
  then obtain j where j: "j \<in> set (jobs d)" "job_fenced ?i (att_lease_token a) j" using holds_lease_row by blast
  note row = fenced_row [OF ok j]
  from leased_attempts [OF row(4,2)] obtain bs b where
      as: "attempts_of ?i (attempts d) = bs @ [b]" "att_status b = AttemptRunning" "att_lease_token b = att_lease_token a"
    and "\<forall>c \<in> set bs. att_status c \<noteq> AttemptRunning" "\<forall>c \<in> set bs. att_status c \<noteq> AttemptSucceeded" .
  have "distinct (map att_lease_token (bs @ [b]))" using row(4) as(1) by (simp add: job_ok_def)
  then have "att_lease_token b \<notin> att_lease_token ` set bs" by simp
  then have "a \<notin> set bs" using as(3) by (metis imageI)
  moreover have "a \<in> set (bs @ [b])" using a(1) as(1) set_attempts_of [of a ?i "attempts d"] by simp
  ultimately have "a = b" by simp
  then show False using a(2) as(2) by (simp add: finished_def)
qed

text \<open>Success is final.\<close>

definition succeeded_with :: "job \<Rightarrow> attempt list \<Rightarrow> db \<Rightarrow> bool" where
  "succeeded_with j as d \<longleftrightarrow> j \<in> set (jobs d) \<and> attempts_of (job_id j) (attempts d) = as"

lemma job_change_success:
  assumes ok: "db_ok d" and change: "job_change d d'" and s: "job_status j = Succeeded" "succeeded_with j as d"
  shows "succeeded_with j as d'"
  using change
proof cases
  case (added new)
  then show ?thesis using s by (simp add: succeeded_with_def)
next
  case (rewritten f now lease)
  have j: "j \<in> set (jobs d)" using s(2) by (simp add: succeeded_with_def)
  then have "f j = j" using rewritten(3) s(1) by (auto simp: retryable_def claimable_def)
  then show ?thesis using s j rewritten(1,2) by (auto simp: succeeded_with_def image_iff intro!: bexI [of _ j])
next
  case (claimed k now w lease t a gid)
  have j: "j \<in> set (jobs d)" using s(2) by (simp add: succeeded_with_def)
  then have "j \<noteq> k" using claimed(2) s(1) by (auto simp: claimable_def)
  then have "job_id k \<noteq> job_id j" using j claimed(1) key_unique [OF db_ok_distinct(1) [OF ok]] by blast
  then show ?thesis
    using s j claimed(3-6) \<open>j \<noteq> k\<close> by (auto simp: succeeded_with_def table_simps image_iff intro!: bexI [of _ j])
next
  case (closed js f s' g)
  have j: "j \<in> set (jobs d)" using s(2) by (simp add: succeeded_with_def)
  then have notin: "j \<notin> set js" using closed(2) s(1) by auto
  have "job_ok as j" using ok j s(2) by (auto simp: db_ok_def jobs_ok_def succeeded_with_def)
  then have idle: "\<forall>a \<in> set as. att_status a \<noteq> AttemptRunning"
    using s(1) by (auto simp: job_ok_def lease_ok_def split: option.splits)
  have "attempts_of (job_id j) (attempts d') = update_rows (leased_in js) g as"
    using s(2) closed(5) by (simp add: succeeded_with_def attempts_of_update closesD [OF closed(3)])
  also have "\<dots> = as" by (rule update_rows_none) (use idle in \<open>auto simp: leased_in_def\<close>)
  finally show ?thesis
    using j notin closed(4) by (auto simp: succeeded_with_def image_iff intro!: bexI [of _ j])
qed

section \<open>Properties\<close>

text \<open>
  C9. The invariant of the store. In every database that any interleaving of the store's write
  operations can reach from the empty one, with arbitrary parameters, clocks, identifiers and network
  faults, keys and references are intact and every job agrees with its attempts.
\<close>

theorem reachable_db_ok: "store_step\<^sup>*\<^sup>* empty_db d \<Longrightarrow> db_ok d"
  by (rule store.good_run [OF _ db_ok_empty])

text \<open>A run: a job is created, claimed and completed.\<close>

definition claimed_sample :: db where
  "claimed_sample = snd (ClaimJob {} 200 1 9 [] ''w'' 30000000000 all_served sample_db)"

definition done_sample :: db where
  "done_sample = snd (CompleteJob 300 7 9 all_served claimed_sample)"

lemma sample_run:
  "store_step\<^sup>*\<^sup>* empty_db sample_db" "store_step\<^sup>*\<^sup>* empty_db claimed_sample" "store_step\<^sup>*\<^sup>* empty_db done_sample"
proof -
  have "store_step empty_db sample_db"
    using store_step.create [of empty_db id all_served 100 7 sample_params] sample_create by simp
  then show a: "store_step\<^sup>*\<^sup>* empty_db sample_db" by simp
  have "store_step sample_db claimed_sample" unfolding claimed_sample_def by (rule store_step.claim)
  with a show b: "store_step\<^sup>*\<^sup>* empty_db claimed_sample" by (rule rtranclp.rtrancl_into_rtrancl)
  have "store_step claimed_sample done_sample" unfolding done_sample_def by (rule store_step.complete)
  with b show "store_step\<^sup>*\<^sup>* empty_db done_sample" by (rule rtranclp.rtrancl_into_rtrancl)
qed

theorem reachable_db_ok_witness: "db_ok done_sample"
  by (rule reachable_db_ok [OF sample_run(3)])

text \<open>
  C3. One execution at a time, one success at most. In every reachable database a job has exactly one
  running attempt while it is running and none otherwise, exactly one successful attempt if it is
  succeeded and none otherwise, its attempts are numbered from 1 without gaps, and there are never
  more of them than its attempt limit allows; two callers cannot hold the lease of the same job.
\<close>

theorem reachable_executions:
  assumes "store_step\<^sup>*\<^sup>* empty_db d" and "j \<in> set (jobs d)"
  shows "length (filter (\<lambda>a. att_status a = AttemptRunning) (attempts_of (job_id j) (attempts d))) =
      (if job_status j = Running then 1 else 0) \<and>
    length (filter (\<lambda>a. att_status a = AttemptSucceeded) (attempts_of (job_id j) (attempts d))) =
      (if job_status j = Succeeded then 1 else 0) \<and>
    map att_number (attempts_of (job_id j) (attempts d)) = [1..job_attempt_count j] \<and>
    job_attempt_count j \<le> normalizedMaxAttempts (job_max_attempts j) \<and>
    (\<forall>t u. holds_lease d (job_id j) t \<and> holds_lease d (job_id j) u \<longrightarrow> t = u)"
proof -
  have ok: "db_ok d" by (rule store.good_run [OF assms(1) db_ok_empty])
  let ?as = "attempts_of (job_id j) (attempts d)"
  have j: "job_ok ?as j" using ok assms(2) by (simp add: db_ok_def jobs_ok_def)
  have one: "length (filter P xs) = (if xs \<noteq> [] \<and> P (last xs) then 1 else 0)"
    if "\<forall>x \<in> set (butlast xs). \<not> P x" for P and xs :: "attempt list"
    using that by (cases xs rule: rev_cases) (auto simp: filter_empty_conv)
  have run: "\<forall>a \<in> set (butlast ?as). att_status a \<noteq> AttemptRunning"
      "job_status j = Running \<longleftrightarrow> ?as \<noteq> [] \<and> att_status (last ?as) = AttemptRunning"
    using j last_in_set [of ?as] by (auto simp: job_ok_def lease_ok_def split: option.splits dest: in_set_butlastD)
  have suc: "\<forall>a \<in> set (butlast ?as). att_status a \<noteq> AttemptSucceeded"
      "job_status j = Succeeded \<longleftrightarrow> ?as \<noteq> [] \<and> att_status (last ?as) = AttemptSucceeded"
  proof -
    show b: "\<forall>a \<in> set (butlast ?as). att_status a \<noteq> AttemptSucceeded" using j by (simp add: job_ok_def status_ok_def)
    have "job_status j = Succeeded \<longleftrightarrow> (\<exists>a \<in> set ?as. att_status a = AttemptSucceeded)"
      using j by (simp add: job_ok_def status_ok_def)
    then show "job_status j = Succeeded \<longleftrightarrow> ?as \<noteq> [] \<and> att_status (last ?as) = AttemptSucceeded"
      using b by (cases ?as rule: rev_cases) auto
  qed
  have "t = u" if "holds_lease d (job_id j) t" "holds_lease d (job_id j) u" for t u
  proof -
    have "job_lease_token j = Some v" if "holds_lease d (job_id j) v" for v
      using that key_unique [OF db_ok_distinct(1) [OF ok] _ assms(2)]
      by (auto simp: holds_lease_def list_ex_iff job_fenced_def)
    then show ?thesis using that by (metis option.inject)
  qed
  then show ?thesis
    using one [OF run(1)] one [OF suc(1)] run(2) suc(2) j by (auto simp: job_ok_def count_ok_def)
qed

theorem reachable_executions_witness:
  "length (filter (\<lambda>a. att_status a = AttemptSucceeded) (attempts_of 7 (attempts done_sample))) = 1"
proof -
  have "map job_id (jobs done_sample) = [7] \<and> map job_status (jobs done_sample) = [Succeeded]"
    by code_simp
  then obtain j where j: "j \<in> set (jobs done_sample)" "job_id j = 7" "job_status j = Succeeded"
    by (cases "jobs done_sample") auto
  then show ?thesis using reachable_executions [OF sample_run(3) j(1)] by simp
qed

text \<open>
  C8. Refinement. Seen through the statuses of its jobs, every step of the store is a step of the
  abstract queue: each job stays as it is, is new and queued, or moves along one edge of the life
  cycle. Jobs never disappear, and a succeeded job never changes its status.
\<close>

theorem store_refines_queue:
  assumes "store_step\<^sup>*\<^sup>* empty_db d" and "store_step d d'"
  shows "queue_step (status_of d) (status_of d')"
  by (rule queue.simulates [OF store.good_run [OF assms(1) db_ok_empty] assms(2)])

theorem store_refines_queue_witness: "queue_step (status_of claimed_sample) (status_of done_sample)"
proof -
  have "store_step claimed_sample done_sample" unfolding done_sample_def by (rule store_step.complete)
  then show ?thesis by (rule store_refines_queue [OF sample_run(2)])
qed

text \<open>
  C10. Success is final. Once a job has succeeded, its row and all its attempts stay exactly as they
  are in every continuation: it is never claimed, retried, cancelled or failed again.
\<close>

theorem success_is_final:
  assumes "store_step\<^sup>*\<^sup>* empty_db d" and "store_step\<^sup>*\<^sup>* d d'" and "j \<in> set (jobs d)" and "job_status j = Succeeded"
  shows "j \<in> set (jobs d') \<and> attempts_of (job_id j) (attempts d') = attempts_of (job_id j) (attempts d)"
proof -
  let ?P = "succeeded_with j (attempts_of (job_id j) (attempts d))"
  have ok: "db_ok d" by (rule store.good_run [OF assms(1) db_ok_empty])
  have "?P d'"
  proof (rule store.run_stable [of ?P, OF _ assms(2) ok])
    show "?P b" if "db_ok a" "store_step a b" "?P a" for a b
      using that job_change_success [OF _ store_step_change assms(4)] by blast
  qed (use assms(3) in \<open>simp add: succeeded_with_def\<close>)
  then show ?thesis by (simp add: succeeded_with_def)
qed

theorem success_is_final_witness:
  "\<exists>j \<in> set (jobs (snd (RetryJob id 400 5 7 all_served done_sample))). job_status j = Succeeded"
proof -
  have "map job_status (jobs done_sample) = [Succeeded]" by code_simp
  then obtain j where j: "j \<in> set (jobs done_sample)" "job_status j = Succeeded"
    by (cases "jobs done_sample") auto
  have "store_step\<^sup>*\<^sup>* done_sample (snd (RetryJob id 400 5 7 all_served done_sample))"
    by (rule r_into_rtranclp) (rule store_step.retry)
  then show ?thesis using success_is_final [OF sample_run(3) _ j] j(2) by blast
qed

text \<open>
  C2. A lost lease stays lost. Once an attempt is finished, by completion, failure or recovery, its
  record never changes, and its lease token is rejected by \<open>CompleteJob\<close> and \<open>FailJob\<close> in every
  continuation, even when the same job is claimed again.
\<close>

theorem finished_attempt_fenced:
  assumes "store_step\<^sup>*\<^sup>* empty_db d" and "store_step\<^sup>*\<^sup>* d d'"
    and "a \<in> set (attempts d)" and "att_status a \<noteq> AttemptRunning"
  shows "a \<in> set (attempts d') \<and>
    snd (CompleteJob now (att_job_id a) (att_lease_token a) net d') = d' \<and>
    snd (FailJob now (att_job_id a) (att_lease_token a) m policy net d') = d' \<and>
    (\<exists>e. fst (CompleteJob now (att_job_id a) (att_lease_token a) net d') = Inl e) \<and>
    (\<exists>e. fst (FailJob now (att_job_id a) (att_lease_token a) m policy net d') = Inl e)"
proof -
  have ok: "db_ok d" by (rule store.good_run [OF assms(1) db_ok_empty])
  have ok': "db_ok d'" by (rule store.good_run [OF assms(2) ok])
  have "finished a" using assms(4) by (simp add: finished_def)
  then have a: "a \<in> set (attempts d')" "\<not> holds_lease d' (att_job_id a) (att_lease_token a)"
    using run_history [OF ok assms(2)] assms(3) finished_not_leased [OF ok'] by (auto simp: keeps_history_def)
  show ?thesis
    using a(1) complete.rejected [OF stale_complete [OF a(2)]] failure.rejected [OF stale_fail [OF a(2)]] by blast
qed

theorem finished_attempt_fenced_witness:
  "\<exists>e. fst (CompleteJob 500 7 9 all_served done_sample) = Inl e"
proof -
  have "map (\<lambda>a. (att_job_id a, att_lease_token a, att_status a)) (attempts done_sample) = [(7, 9, AttemptSucceeded)]"
    by code_simp
  then obtain a where a: "a \<in> set (attempts done_sample)" "att_job_id a = 7" "att_lease_token a = 9"
      "att_status a \<noteq> AttemptRunning"
    by (cases "attempts done_sample") auto
  show ?thesis
    using finished_attempt_fenced [OF sample_run(3) rtranclp.rtrancl_refl a(1,4)] a(2,3) by auto
qed

end
