(* ===== verification/Reports.thy ===== *)
theory Reports
  imports LeaseSystem
begin

text \<open>
  The reports of \<open>storage.go\<close>: \<open>ListQueues\<close> and \<open>ObservabilitySnapshot\<close> with \<open>queryQueueMetrics\<close>.
  Common table expressions become functions of the database; \<open>unnest(queues)\<close> is \<open>worker_queues\<close>.
  The snapshot runs four statements outside a transaction, so each sees the database of its own
  moment: \<open>seen k\<close> is the one the \<open>k\<close>-th statement reads.
\<close>

section \<open>Definitions\<close>

record queue_summary =
  qs_queue :: string
  qs_total_jobs :: int
  qs_queued :: int
  qs_running :: int
  qs_retry_scheduled :: int
  qs_succeeded :: int
  qs_dead_letter :: int
  qs_cancelled :: int
  qs_active_workers :: int
  qs_oldest_available_at :: "instant option"

record job_status_metric =
  jm_queue :: string
  jm_status :: job_status
  jm_count :: int

record queue_metric =
  qm_queue :: string
  qm_value :: int

record snapshot =
  sn_jobs_by_status :: "job_status_metric list"
  sn_queue_depth :: "queue_metric list"
  sn_active_jobs :: "queue_metric list"
  sn_active_workers :: "queue_metric list"

definition count_jobs :: "(job_status \<Rightarrow> bool) \<Rightarrow> string \<Rightarrow> db \<Rightarrow> int" where
  "count_jobs p q d = int (length (filter (\<lambda>j. job_queue j = q \<and> p (job_status j)) (jobs d)))"

definition worker_queues :: "db \<Rightarrow> (worker \<times> string) list" where
  "worker_queues d = concat (map (\<lambda>w. map (\<lambda>q. (w, q)) (wk_queues w)) (workers d))"

definition active_workers :: "string \<Rightarrow> db \<Rightarrow> int" where
  "active_workers q d =
     int (length (filter (\<lambda>x. snd x = q \<and> wk_status (fst x) = WorkerRunning) (worker_queues d)))"

text \<open>\<open>min(...)\<close> of a column, NULL for no rows.\<close>

fun sql_min :: "int list \<Rightarrow> int option" where
  "sql_min [] = None"
| "sql_min (x # xs) = (case sql_min xs of None \<Rightarrow> Some x | Some y \<Rightarrow> Some (min x y))"

definition all_queues :: "db \<Rightarrow> string list" where
  "all_queues d = remdups (map job_queue (jobs d) @ map snd (worker_queues d))"

definition queue_order :: "(string \<Rightarrow> string \<Rightarrow> bool) \<Rightarrow> string \<Rightarrow> string \<Rightarrow> bool" where
  "queue_order coll = asc_text coll (\<lambda>q. q) ties"

definition queue_summary_row :: "db \<Rightarrow> string \<Rightarrow> queue_summary" where
  "queue_summary_row d q =
     \<lparr>qs_queue = q, qs_total_jobs = count_jobs (\<lambda>s. True) q d,
      qs_queued = count_jobs (\<lambda>s. s = Queued) q d, qs_running = count_jobs (\<lambda>s. s = Running) q d,
      qs_retry_scheduled = count_jobs (\<lambda>s. s = RetryScheduled) q d,
      qs_succeeded = count_jobs (\<lambda>s. s = Succeeded) q d,
      qs_dead_letter = count_jobs (\<lambda>s. s = DeadLetter) q d,
      qs_cancelled = count_jobs (\<lambda>s. s = Cancelled) q d,
      qs_active_workers = active_workers q d,
      qs_oldest_available_at = sql_min (map job_available_at
        (filter (\<lambda>j. job_queue j = q \<and> claimable (job_status j)) (jobs d)))\<rparr>"

definition ListQueues :: "(string \<Rightarrow> string \<Rightarrow> bool) \<Rightarrow> net \<Rightarrow> db \<Rightarrow> queue_summary list result" where
  "ListQueues coll net d =
     run_sql (query (\<lambda>d. map (queue_summary_row d) (order_by (queue_order coll) (all_queues d)))) (net 0) d"

definition status_metrics :: "(string \<Rightarrow> string \<Rightarrow> bool) \<Rightarrow> db \<Rightarrow> job_status_metric list" where
  "status_metrics coll d =
     map (\<lambda>qs. \<lparr>jm_queue = fst qs, jm_status = snd qs, jm_count = count_jobs (\<lambda>s. s = snd qs) (fst qs) d\<rparr>)
       (order_by (asc_text coll fst (asc_text coll (\<lambda>qs. job_status_text (snd qs)) ties))
         (remdups (map (\<lambda>j. (job_queue j, job_status j)) (jobs d))))"

definition queue_metrics :: "(string \<Rightarrow> string \<Rightarrow> bool) \<Rightarrow> (job_status \<Rightarrow> bool) \<Rightarrow> db \<Rightarrow> queue_metric list" where
  "queue_metrics coll p d =
     map (\<lambda>q. \<lparr>qm_queue = q, qm_value = count_jobs p q d\<rparr>) (order_by (queue_order coll) (all_queues d))"

definition worker_metrics :: "(string \<Rightarrow> string \<Rightarrow> bool) \<Rightarrow> db \<Rightarrow> queue_metric list" where
  "worker_metrics coll d =
     map (\<lambda>q. \<lparr>qm_queue = q, qm_value = active_workers q d\<rparr>)
       (order_by (queue_order coll)
         (remdups (map snd (filter (\<lambda>x. wk_status (fst x) = WorkerRunning) (worker_queues d)))))"

text \<open>A read: its result alone, as the database does not change.\<close>

definition read_sql :: "(db \<Rightarrow> 'a) \<Rightarrow> reply \<Rightarrow> db \<Rightarrow> error + 'a" where
  "read_sql f r d = fst (run_sql (query f) r d)"

definition ObservabilitySnapshot ::
  "(string \<Rightarrow> string \<Rightarrow> bool) \<Rightarrow> net \<Rightarrow> (nat \<Rightarrow> db) \<Rightarrow> error + snapshot" where
  "ObservabilitySnapshot coll net seen =
     (case read_sql (status_metrics coll) (net 0) (seen 0) of
        Inl e \<Rightarrow> Inl e
      | Inr byStatus \<Rightarrow>
     (case read_sql (queue_metrics coll claimable) (net 1) (seen 1) of
        Inl e \<Rightarrow> Inl e
      | Inr queueDepth \<Rightarrow>
     (case read_sql (queue_metrics coll (\<lambda>s. s = Running)) (net 2) (seen 2) of
        Inl e \<Rightarrow> Inl e
      | Inr activeJobs \<Rightarrow>
     (case read_sql (worker_metrics coll) (net 3) (seen 3) of
        Inl e \<Rightarrow> Inl e
      | Inr activeWorkers \<Rightarrow>
          Inr \<lparr>sn_jobs_by_status = byStatus, sn_queue_depth = queueDepth, sn_active_jobs = activeJobs,
               sn_active_workers = activeWorkers\<rparr>))))"

section \<open>Facts\<close>

lemma sql_min_None: "sql_min xs = None \<longleftrightarrow> xs = []"
  by (cases xs) (auto split: option.splits)

lemma sql_min_Some: "sql_min xs = Some m \<Longrightarrow> m \<in> set xs \<and> (\<forall>x \<in> set xs. m \<le> x)"
proof (induction xs arbitrary: m)
  case (Cons x xs)
  show ?case
  proof (cases "sql_min xs")
    case None
    then show ?thesis using Cons.prems by (simp add: sql_min_None)
  next
    case (Some y)
    then have "y \<in> set xs" "\<forall>z \<in> set xs. y \<le> z" "m = min x y" using Cons by auto
    then show ?thesis by (cases "x \<le> y") (auto simp: min_def)
  qed
qed simp

lemma count_jobs_add:
  "(\<And>s. p s \<Longrightarrow> \<not> r s) \<Longrightarrow> count_jobs p q d + count_jobs r q d = count_jobs (\<lambda>s. p s \<or> r s) q d"
proof -
  assume disj: "\<And>s. p s \<Longrightarrow> \<not> r s"
  have "length (filter (\<lambda>j. job_queue j = q \<and> p (job_status j)) js) + length (filter (\<lambda>j. job_queue j = q \<and> r (job_status j)) js) =
      length (filter (\<lambda>j. job_queue j = q \<and> (p (job_status j) \<or> r (job_status j))) js)" for js
    by (induction js) (simp_all add: disj)
  from this [of "jobs d"] show ?thesis unfolding count_jobs_def by (simp flip: of_nat_add)
qed

lemma count_jobs_nonneg: "0 \<le> count_jobs p q d"
  by (simp add: count_jobs_def)

lemma all_queues_set: "set (all_queues d) = job_queue ` set (jobs d) \<union> (\<Union>w \<in> set (workers d). set (wk_queues w))"
  by (auto simp: all_queues_def worker_queues_def image_iff)

lemma sum_indicator: "distinct ks \<Longrightarrow> (\<Sum>k\<leftarrow>ks. if x = k then 1 else (0::int)) = (if x \<in> set ks then 1 else 0)"
  by (induction ks) auto

lemma count_by_key:
  "distinct ks \<Longrightarrow> key ` set xs \<subseteq> set ks \<Longrightarrow>
    (\<Sum>k\<leftarrow>ks. int (length (filter (\<lambda>x. key x = k) xs))) = int (length xs)"
proof (induction xs)
  case (Cons x xs)
  have "(\<Sum>k\<leftarrow>ks. int (length (filter (\<lambda>y. key y = k) (x # xs)))) =
      (\<Sum>k\<leftarrow>ks. (if key x = k then 1 else 0) + int (length (filter (\<lambda>y. key y = k) xs)))"
    by (intro arg_cong [where f = sum_list] map_cong) auto
  also have "\<dots> = (\<Sum>k\<leftarrow>ks. if key x = k then 1 else 0) + int (length xs)"
    using Cons by (simp add: sum_list_addf)
  also have "(\<Sum>k\<leftarrow>ks. if key x = k then 1 else (0::int)) = 1"
    using Cons.prems by (simp add: sum_indicator)
  finally show ?case by simp
qed simp

lemma status_partition:
  "\<forall>j \<in> set js. job_status j \<noteq> Failed \<Longrightarrow> length (filter (\<lambda>j. job_queue j = q) js) =
      length (filter (\<lambda>j. job_queue j = q \<and> job_status j = Queued) js) +
      length (filter (\<lambda>j. job_queue j = q \<and> job_status j = Running) js) +
      length (filter (\<lambda>j. job_queue j = q \<and> job_status j = RetryScheduled) js) +
      length (filter (\<lambda>j. job_queue j = q \<and> job_status j = Succeeded) js) +
      length (filter (\<lambda>j. job_queue j = q \<and> job_status j = DeadLetter) js) +
      length (filter (\<lambda>j. job_queue j = q \<and> job_status j = Cancelled) js)"
proof (induction js)
  case (Cons j js)
  then show ?case by (cases "job_status j") simp_all
qed simp

text \<open>Every job has one of the statuses that \<open>ListQueues\<close> counts: \<open>Failed\<close> never occurs.\<close>

lemma count_jobs_split:
  assumes "db_ok d"
  shows "count_jobs (\<lambda>s. True) q d =
    count_jobs (\<lambda>s. s = Queued) q d + count_jobs (\<lambda>s. s = Running) q d + count_jobs (\<lambda>s. s = RetryScheduled) q d +
    count_jobs (\<lambda>s. s = Succeeded) q d + count_jobs (\<lambda>s. s = DeadLetter) q d + count_jobs (\<lambda>s. s = Cancelled) q d"
proof -
  have "\<forall>j \<in> set (jobs d). job_status j \<noteq> Failed"
    using assms by (auto simp: db_ok_def jobs_ok_def job_ok_def status_ok_def)
  then have "length (filter (\<lambda>j. job_queue j = q) (jobs d)) =
      length (filter (\<lambda>j. job_queue j = q \<and> job_status j = Queued) (jobs d)) +
      length (filter (\<lambda>j. job_queue j = q \<and> job_status j = Running) (jobs d)) +
      length (filter (\<lambda>j. job_queue j = q \<and> job_status j = RetryScheduled) (jobs d)) +
      length (filter (\<lambda>j. job_queue j = q \<and> job_status j = Succeeded) (jobs d)) +
      length (filter (\<lambda>j. job_queue j = q \<and> job_status j = DeadLetter) (jobs d)) +
      length (filter (\<lambda>j. job_queue j = q \<and> job_status j = Cancelled) (jobs d))"
    using status_partition by blast
  then show ?thesis by (simp add: count_jobs_def)
qed

section \<open>Properties\<close>

text \<open>
  C33. The queue report adds up. An answered \<open>ListQueues\<close> has one row for every queue that a job or a
  worker names, and no other; its totals add up to the number of jobs; the status columns of each
  row add up to its total, so no job is missing from the report; and the oldest waiting time is the
  least of the queue's waiting jobs, absent exactly when none waits.
\<close>

theorem ListQueues_adds_up:
  assumes "db_ok d" and "ListQueues coll net d = (Inr rows, d')"
  shows "d' = d \<and> distinct (map qs_queue rows) \<and>
    set (map qs_queue rows) = job_queue ` set (jobs d) \<union> (\<Union>w \<in> set (workers d). set (wk_queues w)) \<and>
    sum_list (map qs_total_jobs rows) = int (length (jobs d)) \<and>
    (\<forall>r \<in> set rows. qs_total_jobs r = qs_queued r + qs_running r + qs_retry_scheduled r + qs_succeeded r +
        qs_dead_letter r + qs_cancelled r \<and>
      (case qs_oldest_available_at r of
         None \<Rightarrow> qs_queued r + qs_retry_scheduled r = 0
       | Some t \<Rightarrow> (\<exists>j \<in> set (jobs d). job_queue j = qs_queue r \<and> claimable (job_status j) \<and> job_available_at j = t) \<and>
           (\<forall>j \<in> set (jobs d). job_queue j = qs_queue r \<and> claimable (job_status j) \<longrightarrow> t \<le> job_available_at j)))"
proof -
  let ?qs = "order_by (queue_order coll) (all_queues d)"
  have rows: "rows = map (queue_summary_row d) ?qs" "d' = d"
    using assms(2) by (auto simp: ListQueues_def run_sql_query split: if_splits)
  have names: "map qs_queue rows = ?qs" unfolding rows by (simp add: comp_def queue_summary_row_def)
  have dist: "distinct ?qs" by (simp add: all_queues_def)
  have sum: "sum_list (map qs_total_jobs rows) = int (length (jobs d))"
    using count_by_key [OF dist, of job_queue "jobs d"] unfolding rows
    by (simp add: comp_def queue_summary_row_def count_jobs_def all_queues_set)
  have row: "qs_total_jobs r = qs_queued r + qs_running r + qs_retry_scheduled r + qs_succeeded r +
        qs_dead_letter r + qs_cancelled r \<and>
      (case qs_oldest_available_at r of
         None \<Rightarrow> qs_queued r + qs_retry_scheduled r = 0
       | Some t \<Rightarrow> (\<exists>j \<in> set (jobs d). job_queue j = qs_queue r \<and> claimable (job_status j) \<and> job_available_at j = t) \<and>
           (\<forall>j \<in> set (jobs d). job_queue j = qs_queue r \<and> claimable (job_status j) \<longrightarrow> t \<le> job_available_at j))"
    if r_in: "r \<in> set rows" for r
  proof -
    obtain q where r: "r = queue_summary_row d q" using r_in rows(1) by auto
    have waiting: "qs_queued r + qs_retry_scheduled r = count_jobs claimable q d"
      using count_jobs_add [of "\<lambda>s. s = Queued" "\<lambda>s. s = RetryScheduled" q d]
      by (simp add: r queue_summary_row_def) (simp add: count_jobs_def claimable_def)
    show ?thesis
    proof (cases "qs_oldest_available_at r")
      case None
      then have "count_jobs claimable q d = 0"
        by (simp add: r queue_summary_row_def sql_min_None count_jobs_def)
      then show ?thesis
        using None waiting count_jobs_split [OF assms(1), of q] by (simp add: r queue_summary_row_def)
    next
      case (Some t)
      then have "sql_min (map job_available_at (filter (\<lambda>j. job_queue j = q \<and> claimable (job_status j)) (jobs d))) = Some t"
        by (simp add: r queue_summary_row_def)
      from sql_min_Some [OF this] show ?thesis
        using Some count_jobs_split [OF assms(1), of q] by (auto simp: r queue_summary_row_def)
    qed
  qed
  have "set (map qs_queue rows) = job_queue ` set (jobs d) \<union> (\<Union>w \<in> set (workers d). set (wk_queues w))"
    unfolding names by (simp add: all_queues_set)
  then show ?thesis using rows(2) names dist sum row by simp
qed

theorem ListQueues_adds_up_witness:
  "\<exists>rows. ListQueues (\<lambda>x y. True) all_served busy_db = (Inr rows, busy_db) \<and>
     sum_list (map qs_total_jobs rows) = 1"
proof -
  have ok: "db_ok busy_db" using running_db_ok by (simp add: busy_db_def db_ok_def workers_ok_def running_db_def empty_db_def)
  obtain rows where run: "ListQueues (\<lambda>x y. True) all_served busy_db = (Inr rows, busy_db)"
    by (simp add: ListQueues_def run_sql_query)
  have "length (jobs busy_db) = 1" by (simp add: busy_db_def running_db_def)
  then show ?thesis using ListQueues_adds_up [OF ok run] run by auto
qed

text \<open>
  The gauges agree with the status counts. When no write falls between the four statements of an
  answered snapshot, the queue depth of a queue is its queued plus its retry-scheduled jobs and its
  active jobs are its running ones, both as the per-status metrics report them, and the per-status
  counts add up to the number of jobs.
\<close>

lemma ObservabilitySnapshot_agrees:
  assumes "\<forall>k. seen k = d" and "ObservabilitySnapshot coll net seen = Inr sn"
  shows "(\<forall>m \<in> set (sn_queue_depth sn). qm_value m =
      sum_list (map jm_count (filter (\<lambda>x. jm_queue x = qm_queue m \<and> claimable (jm_status x)) (sn_jobs_by_status sn)))) \<and>
    (\<forall>m \<in> set (sn_active_jobs sn). qm_value m =
      sum_list (map jm_count (filter (\<lambda>x. jm_queue x = qm_queue m \<and> jm_status x = Running) (sn_jobs_by_status sn)))) \<and>
    sum_list (map jm_count (sn_jobs_by_status sn)) = int (length (jobs d)) \<and>
    map qm_queue (sn_queue_depth sn) = map qm_queue (sn_active_jobs sn)"
proof -
  have sn: "sn_jobs_by_status sn = status_metrics coll d" "sn_queue_depth sn = queue_metrics coll claimable d"
      "sn_active_jobs sn = queue_metrics coll (\<lambda>s. s = Running) d"
    using assms by (auto simp: ObservabilitySnapshot_def read_sql_def run_sql_query split: if_splits)
  define keys where "keys = order_by (asc_text coll fst (asc_text coll (\<lambda>qs. job_status_text (snd qs)) ties))
         (remdups (map (\<lambda>j. (job_queue j, job_status j)) (jobs d)))"
  have keys: "distinct keys" "set keys = (\<lambda>j. (job_queue j, job_status j)) ` set (jobs d)"
    by (simp_all add: keys_def)
  have part: "sum_list (map jm_count (filter (\<lambda>x. P (jm_queue x) (jm_status x)) (status_metrics coll d))) =
      int (length (filter (\<lambda>j. P (job_queue j) (job_status j)) (jobs d)))" for P
  proof -
    let ?ks = "filter (\<lambda>qs. P (fst qs) (snd qs)) keys"
    let ?js = "filter (\<lambda>j. P (job_queue j) (job_status j)) (jobs d)"
    have "sum_list (map jm_count (filter (\<lambda>x. P (jm_queue x) (jm_status x)) (status_metrics coll d))) =
        (\<Sum>k\<leftarrow>?ks. int (length (filter (\<lambda>j. (job_queue j, job_status j) = k) ?js)))"
      unfolding status_metrics_def keys_def [symmetric] filter_map comp_def map_map
      by (intro arg_cong [where f = sum_list] map_cong)
        (auto simp: count_jobs_def conj_commute intro!: arg_cong [where f = length] filter_cong)
    also have "\<dots> = int (length ?js)"
      by (rule count_by_key) (use keys in auto)
    finally show ?thesis .
  qed
  have all: "sum_list (map jm_count (status_metrics coll d)) = int (length (jobs d))"
    using part [of "\<lambda>q s. True"] by simp
  show ?thesis
    using all unfolding sn queue_metrics_def
    by (auto simp: part [of "\<lambda>x s. x = _ \<and> claimable s"] part [of "\<lambda>x s. x = _ \<and> s = Running"] count_jobs_def comp_def)
qed

lemma ObservabilitySnapshot_agrees_witness:
  "\<exists>sn. ObservabilitySnapshot (\<lambda>x y. True) all_served (\<lambda>k. busy_db) = Inr sn \<and>
     sum_list (map jm_count (sn_jobs_by_status sn)) = 1"
proof -
  obtain sn where run: "ObservabilitySnapshot (\<lambda>x y. True) all_served (\<lambda>k. busy_db) = Inr sn"
    by (simp add: ObservabilitySnapshot_def read_sql_def run_sql_query)
  have "length (jobs busy_db) = 1" by (simp add: busy_db_def running_db_def)
  then show ?thesis using ObservabilitySnapshot_agrees [OF _ run, of busy_db] run by auto
qed

end
