(* ===== verification/Telemetry.thy ===== *)
theory Telemetry
  imports Reports "HOL-Library.AList" "HOL-Library.List_Lexorder"
begin

text \<open>
  What the program reports about itself: the metrics of \<open>internal/observability/metrics.go\<close> and
  \<open>store_collector.go\<close>, the trace fields of \<open>tracing.go\<close>, the NATS subjects of
  \<open>internal/signals/nats.go\<close> and the JSON that goes into the durable job logs.

  A \<open>Record...\<close> function of the metrics is the list of the samples that it takes; the registry and
  its exposition are Prometheus's. A span is what the tracer, outside the repository, put into the
  context: its trace and span identifiers, or nothing.
\<close>

section \<open>Text\<close>

text \<open>\<open>strconv.Itoa\<close> and \<open>strconv.FormatBool\<close>.\<close>

definition Itoa :: "int \<Rightarrow> string" where
  "Itoa n = (if n < 0 then CHR ''-'' # pad_digits 1 (nat (- n)) else pad_digits 1 (nat n))"

definition FormatBool :: "bool \<Rightarrow> string" where
  "FormatBool b = (if b then ''true'' else ''false'')"

section \<open>Signals\<close>

definition JobAvailableSubject :: "string \<Rightarrow> string" where
  "JobAvailableSubject queue =
     (let queue = (if queue = [] then ''default'' else queue) in ''pulsequeue.jobs.available.'' @ queue)"

text \<open>The subject and the queue group of a worker's subscription.\<close>

definition SubscribeJobAvailable :: "string \<Rightarrow> string \<times> string" where
  "SubscribeJobAvailable queue = (JobAvailableSubject queue, ''pulsequeue-workers-'' @ queue)"

section \<open>Metrics\<close>

datatype family =
    HttpRequests | HttpDuration | JobsSubmitted | JobsStarted | JobsSucceeded | JobsFailed | JobsRetried
  | JobsDeadLettered | JobDuration | JobLatency | WorkerHeartbeats | SchedulerTicks | SchedulerRecovered
  | CronJobsFired | NatsPublishFailed

fun family_labels :: "family \<Rightarrow> string list" where
  "family_labels HttpRequests = [''service'', ''method'', ''route'', ''status'']"
| "family_labels HttpDuration = [''service'', ''method'', ''route'', ''status'']"
| "family_labels JobsSubmitted = [''service'', ''queue'', ''job_type'', ''existing'']"
| "family_labels JobsStarted = [''service'', ''queue'', ''job_type'']"
| "family_labels JobsSucceeded = [''service'', ''queue'', ''job_type'']"
| "family_labels JobsFailed = [''service'', ''queue'', ''job_type'', ''final_status'']"
| "family_labels JobsRetried = [''service'', ''queue'', ''job_type'']"
| "family_labels JobsDeadLettered = [''service'', ''queue'', ''job_type'']"
| "family_labels JobDuration = [''service'', ''queue'', ''job_type'', ''status'']"
| "family_labels JobLatency = [''service'', ''queue'', ''job_type'']"
| "family_labels WorkerHeartbeats = [''service'', ''queue'', ''status'']"
| "family_labels SchedulerTicks = [''service'', ''result'']"
| "family_labels SchedulerRecovered = [''service'', ''queue'', ''status'']"
| "family_labels CronJobsFired = [''service'', ''queue'', ''job_type'']"
| "family_labels NatsPublishFailed = [''service'', ''component'', ''queue'']"

text \<open>\<open>Inc()\<close> of a counter, \<open>Observe\<close> of a histogram (the duration in nanoseconds), with label values.\<close>

datatype sample = Inc family "string list" | Observe family "string list" duration

record metrics =
  mt_service :: string

definition NewMetrics :: "string \<Rightarrow> metrics" where
  "NewMetrics serviceName =
     \<lparr>mt_service = (if serviceName = [] then ''pulsequeue'' else serviceName)\<rparr>"

definition normalizeLabel :: "string \<Rightarrow> string \<Rightarrow> string" where
  "normalizeLabel v fallback = (if v = [] then fallback else v)"

definition normalizeRoute :: "string \<Rightarrow> string" where
  "normalizeRoute route = (if route = [] then ''unknown'' else route)"

text \<open>A nil \<open>*Metrics\<close> records nothing.\<close>

definition with_metrics :: "metrics option \<Rightarrow> (string \<Rightarrow> sample list) \<Rightarrow> sample list" where
  "with_metrics m f = (case m of None \<Rightarrow> [] | Some m \<Rightarrow> f (mt_service m))"

definition RecordHTTPRequest :: "metrics option \<Rightarrow> string \<Rightarrow> string \<Rightarrow> int \<Rightarrow> duration \<Rightarrow> sample list" where
  "RecordHTTPRequest m meth route status duration = with_metrics m (\<lambda>service.
     [Inc HttpRequests [service, meth, normalizeRoute route, Itoa status],
      Observe HttpDuration [service, meth, normalizeRoute route, Itoa status] duration])"

definition RecordJobSubmitted :: "metrics option \<Rightarrow> string \<Rightarrow> string \<Rightarrow> bool \<Rightarrow> sample list" where
  "RecordJobSubmitted m queue jobType existing = with_metrics m (\<lambda>service.
     [Inc JobsSubmitted [service, normalizeLabel queue ''default'', normalizeLabel jobType ''unknown'', FormatBool existing]])"

text \<open>\<open>wall\<close> is the process's clock, as in \<open>time.Since(job.CreatedAt)\<close>.\<close>

definition RecordJobStarted :: "metrics option \<Rightarrow> instant \<Rightarrow> job \<Rightarrow> sample list" where
  "RecordJobStarted m wall job = with_metrics m (\<lambda>service.
     let labels = [service, normalizeLabel (job_queue job) ''default'', normalizeLabel (job_type job) ''unknown'']
     in [Inc JobsStarted labels, Observe JobLatency labels (wall - job_created_at job)])"

definition RecordJobSucceeded :: "metrics option \<Rightarrow> job \<Rightarrow> duration \<Rightarrow> sample list" where
  "RecordJobSucceeded m job duration = with_metrics m (\<lambda>service.
     let queue = normalizeLabel (job_queue job) ''default''; jobType = normalizeLabel (job_type job) ''unknown''
     in [Inc JobsSucceeded [service, queue, jobType],
         Observe JobDuration [service, queue, jobType, job_status_text Succeeded] duration])"

definition RecordJobFailed :: "metrics option \<Rightarrow> job \<Rightarrow> string \<Rightarrow> duration \<Rightarrow> sample list" where
  "RecordJobFailed m job finalStatus duration = with_metrics m (\<lambda>service.
     let queue = normalizeLabel (job_queue job) ''default''; jobType = normalizeLabel (job_type job) ''unknown'';
         status = normalizeLabel finalStatus (job_status_text Failed)
     in [Inc JobsFailed [service, queue, jobType, status],
         Observe JobDuration [service, queue, jobType, status] duration] @
        (if finalStatus = job_status_text DeadLetter then [Inc JobsDeadLettered [service, queue, jobType]] else []))"

definition RecordJobRetried :: "metrics option \<Rightarrow> job \<Rightarrow> sample list" where
  "RecordJobRetried m job = with_metrics m (\<lambda>service.
     [Inc JobsRetried [service, normalizeLabel (job_queue job) ''default'', normalizeLabel (job_type job) ''unknown'']])"

definition RecordWorkerHeartbeat :: "metrics option \<Rightarrow> string \<Rightarrow> string \<Rightarrow> sample list" where
  "RecordWorkerHeartbeat m queue status = with_metrics m (\<lambda>service.
     [Inc WorkerHeartbeats [service, normalizeLabel queue ''default'', normalizeLabel status ''unknown'']])"

definition RecordSchedulerTick :: "metrics option \<Rightarrow> string \<Rightarrow> sample list" where
  "RecordSchedulerTick m res = with_metrics m (\<lambda>service.
     [Inc SchedulerTicks [service, normalizeLabel res ''unknown'']])"

definition RecordSchedulerRecovered :: "metrics option \<Rightarrow> job \<Rightarrow> sample list" where
  "RecordSchedulerRecovered m job = with_metrics m (\<lambda>service.
     [Inc SchedulerRecovered [service, normalizeLabel (job_queue job) ''default'',
        normalizeLabel (job_status_text (job_status job)) ''unknown'']] @
     (if job_status job = DeadLetter
      then [Inc JobsDeadLettered [service, normalizeLabel (job_queue job) ''default'', normalizeLabel (job_type job) ''unknown'']]
      else []))"

definition RecordCronJobFired :: "metrics option \<Rightarrow> job \<Rightarrow> sample list" where
  "RecordCronJobFired m job = with_metrics m (\<lambda>service.
     [Inc CronJobsFired [service, normalizeLabel (job_queue job) ''default'', normalizeLabel (job_type job) ''unknown'']])"

definition RecordNATSPublishFailure :: "metrics option \<Rightarrow> string \<Rightarrow> string \<Rightarrow> sample list" where
  "RecordNATSPublishFailure m component queue = with_metrics m (\<lambda>service.
     [Inc NatsPublishFailed [service, normalizeLabel component ''unknown'', normalizeLabel queue ''default'']])"

section \<open>The store collector\<close>

datatype gauge_family = ScrapeError | JobsByStatus | QueueDepth | ActiveJobs | ActiveWorkers

datatype gauge = Gauge (gauge_of: gauge_family) (gauge_labels: "string list") (gauge_value: int)

fun gauge_family_labels :: "gauge_family \<Rightarrow> string list" where
  "gauge_family_labels ScrapeError = []"
| "gauge_family_labels JobsByStatus = [''queue'', ''status'']"
| "gauge_family_labels QueueDepth = [''queue'']"
| "gauge_family_labels ActiveJobs = [''queue'']"
| "gauge_family_labels ActiveWorkers = [''queue'']"

definition Describe :: "gauge_family list" where
  "Describe = [ScrapeError, JobsByStatus, QueueDepth, ActiveJobs, ActiveWorkers]"

definition Collect :: "error + snapshot \<Rightarrow> gauge list" where
  "Collect result =
     (case result of
        Inl e \<Rightarrow> [Gauge ScrapeError [] 1]
      | Inr snapshot \<Rightarrow>
          [Gauge ScrapeError [] 0] @
          map (\<lambda>x. Gauge JobsByStatus [jm_queue x, job_status_text (jm_status x)] (jm_count x)) (sn_jobs_by_status snapshot) @
          map (\<lambda>x. Gauge QueueDepth [qm_queue x] (qm_value x)) (sn_queue_depth snapshot) @
          map (\<lambda>x. Gauge ActiveJobs [qm_queue x] (qm_value x)) (sn_active_jobs snapshot) @
          map (\<lambda>x. Gauge ActiveWorkers [qm_queue x] (qm_value x)) (sn_active_workers snapshot))"

section \<open>Tracing\<close>

type_synonym span = "(string \<times> string) option"

definition TraceLogFields :: "span \<Rightarrow> (string \<times> string) list" where
  "TraceLogFields span =
     (case span of None \<Rightarrow> [] | Some (trace_id, span_id) \<Rightarrow> [(''trace_id'', trace_id), (''span_id'', span_id)])"

definition TraceContextFromJob :: "job \<Rightarrow> trace_context" where
  "TraceContextFromJob j =
     \<lparr>tc_parent = (case job_traceparent j of None \<Rightarrow> [] | Some s \<Rightarrow> s),
      tc_state = (case job_tracestate j of None \<Rightarrow> [] | Some s \<Rightarrow> s)\<rparr>"

definition normalizeOTLPEndpoint :: "string \<Rightarrow> string" where
  "normalizeOTLPEndpoint endpoint =
     (let endpoint = TrimSpace endpoint;
          endpoint = TrimPrefix endpoint ''http://'';
          endpoint = TrimPrefix endpoint ''https://'';
          endpoint = TrimSuffix endpoint ''/v1/traces''
      in TrimRight1 endpoint (CHR ''/''))"

section \<open>Log fields\<close>

text \<open>
  A \<open>map[string]any\<close> of strings and integers: an association list with distinct keys. \<open>json.Marshal\<close>
  prints it with its keys in byte order (strings as in \<open>json_quote\<close>).
\<close>

datatype json_value = JText string | JInt int

type_synonym json_map = "(string \<times> json_value) list"

fun json_text :: "json_value \<Rightarrow> string" where
  "json_text (JText s) = json_quote s"
| "json_text (JInt n) = Itoa n"

fun marshal_members :: "json_map \<Rightarrow> string" where
  "marshal_members [] = []"
| "marshal_members [(k, v)] = json_quote k @ CHR '':'' # json_text v"
| "marshal_members ((k, v) # m # ms) = json_quote k @ CHR '':'' # json_text v @ CHR '','' # marshal_members (m # ms)"

definition mustJSON :: "json_map \<Rightarrow> string" where
  "mustJSON fs =
     CHR 0x7B # marshal_members (order_by (asc (\<lambda>kv. map (of_char :: char \<Rightarrow> nat) (fst kv)) ties) fs) @ [CHR 0x7D]"

definition addTraceFields :: "span \<Rightarrow> json_map \<Rightarrow> json_map" where
  "addTraceFields span fs = fold (\<lambda>(k, v). AList.update k (JText v)) (TraceLogFields span) fs"

section \<open>Facts\<close>

declare pad_digits.simps(1) [simp del]

lemma pad_digits_0: "pad_digits 0 0 = []" "0 < n \<Longrightarrow> pad_digits 0 n = pad_digits 0 (n div 10) @ [char_of (48 + n mod 10)]"
  by (simp_all add: pad_digits.simps(1))

lemma pad_digits_0_first:
  "0 < n \<Longrightarrow> \<exists>c s. pad_digits 0 n = c # s \<and> c \<noteq> CHR ''0'' \<and> json_digit c \<and> (\<forall>x \<in> set s. json_digit x)"
proof (induction "0 :: nat" n rule: pad_digits.induct)
  case (1 n)
  have digit: "json_digit (char_of (48 + m mod 10))" for m :: nat
    by (simp add: json_digit_def of_char_of)
  show ?case
  proof (cases "n < 10")
    case True
    then have "pad_digits 0 n = [char_of (48 + n)]" using 1(2) by (simp add: pad_digits_0)
    moreover have "char_of (48 + n) \<noteq> CHR ''0''"
    proof
      assume "char_of (48 + n) = CHR ''0''"
      then have "(of_char (char_of (48 + n) :: char) :: nat) = of_char CHR ''0''" by simp
      then show False using True 1(2) by (simp add: of_char_of)
    qed
    moreover have "json_digit (char_of (48 + n))" using digit [of n] True by simp
    ultimately show ?thesis by simp
  next
    case False
    then have "n \<noteq> 0" "0 < n div 10" by auto
    with 1 obtain c s where "pad_digits 0 (n div 10) = c # s" "c \<noteq> CHR ''0''" "json_digit c" "\<forall>x \<in> set s. json_digit x"
      by blast
    then show ?thesis using \<open>n \<noteq> 0\<close> digit [of n] by (simp add: pad_digits_0)
  qed
qed

lemma pad_digits_1: "0 < n \<Longrightarrow> pad_digits 1 n = pad_digits 0 n"
  by (simp add: pad_digits_0)

lemma Itoa_not_Nil [simp]: "Itoa n \<noteq> []"
  by (simp add: Itoa_def)

lemma Itoa_0: "Itoa 0 = ''0''"
  by code_simp

lemma json_scan_digits:
  "\<forall>x \<in> set s. json_digit x \<Longrightarrow> json_scan (NumDigits, stack) s = Some (NumDigits, stack)"
  by (induction s) auto

lemma json_digit_not:
  assumes "json_digit c"
  shows "c \<noteq> CHR 0x22" "c \<noteq> CHR ''-''" "c \<noteq> CHR ''t''" "c \<noteq> CHR ''f''" "c \<noteq> CHR ''n''" "c \<noteq> CHR 0x7B"
    "c \<noteq> CHR ''[''" "\<not> json_space c" "c \<noteq> CHR ''+''"
  using assms by (auto simp: json_digit_def json_space_def)

text \<open>A printed number, read as a value, leaves the scanner in a state that any end of value ends.\<close>

lemma json_scan_Itoa:
  "\<exists>st \<in> {NumDigits, NumZero}. json_scan (BeginValue, stack) (Itoa n) = Some (st, stack)"
proof (cases "n = 0")
  case True
  then show ?thesis by (simp add: Itoa_0 json_begin_value_def json_space_def)
next
  case False
  obtain c s where digits: "pad_digits 1 (nat \<bar>n\<bar>) = c # s" "c \<noteq> CHR ''0''" "json_digit c" "\<forall>x \<in> set s. json_digit x"
    using pad_digits_0_first [of "nat \<bar>n\<bar>"] pad_digits_1 [of "nat \<bar>n\<bar>"] False by auto
  show ?thesis
  proof (cases "n < 0")
    case True
    then have "Itoa n = CHR ''-'' # c # s" using digits(1) by (simp add: Itoa_def)
    then show ?thesis using digits(2-4) json_scan_digits
      by (simp add: json_begin_value_def json_space_def)
  next
    case False
    then have "Itoa n = c # s" using digits(1) by (simp add: Itoa_def)
    then show ?thesis using digits(2-4) json_scan_digits json_digit_not [OF digits(3)]
      by (simp add: json_begin_value_def)
  qed
qed

lemma json_scan_value_then:
  "c = CHR '','' \<or> c = CHR 0x7D \<Longrightarrow>
    json_scan (BeginValue, ObjectValue # stack) (json_text v @ [c]) =
      (if c = CHR '','' then Some (BeginString, ObjectKey # stack) else json_pop stack)"
proof (cases v)
  case (JText s)
  then show "c = CHR '','' \<or> c = CHR 0x7D \<Longrightarrow> ?thesis"
    by (auto simp: json_scan_append json_scan_quote json_space_def json_pop_def)
next
  case (JInt n)
  obtain st where "st = NumDigits \<or> st = NumZero"
      "json_scan (BeginValue, ObjectValue # stack) (Itoa n) = Some (st, ObjectValue # stack)"
    using json_scan_Itoa [of "ObjectValue # stack" n] by auto
  then show "c = CHR '','' \<or> c = CHR 0x7D \<Longrightarrow> ?thesis"
    using JInt by (auto simp: json_scan_append json_space_def json_pop_def json_after_zero_def json_digit_def)
qed

lemma json_scan_marshal:
  "fs \<noteq> [] \<Longrightarrow> st \<in> {BeginString, BeginStringOrEmpty} \<Longrightarrow>
    json_scan (st, ObjectKey # stack) (marshal_members fs @ [CHR 0x7D]) = json_pop stack"
proof (induction fs arbitrary: st rule: marshal_members.induct)
  case (2 k v)
  then show ?case using json_scan_value_then [of "CHR 0x7D" stack v]
    by (auto simp: json_scan_append json_scan_quote json_space_def)
next
  case (3 k v m ms)
  have step: "json_scan (BeginValue, ObjectValue # stack) (json_text v @ CHR '','' # r) =
      json_scan (BeginString, ObjectKey # stack) r" for r
    using json_scan_value_then [of "CHR '',''" stack v] json_scan_append [of _ "json_text v @ [CHR '','']" r]
    by simp
  have "json_scan (st, ObjectKey # stack) (json_quote k) = Some (EndValue, ObjectKey # stack)"
    using 3(3) by (intro json_scan_quote) auto
  then show ?case using 3(1) [of BeginString] step by (simp add: json_scan_append [of _ "json_quote k"] json_space_def)
qed simp

lemma json_Valid_mustJSON [simp]: "json_Valid (mustJSON fs)"
proof (cases "fs = []")
  case True
  then show ?thesis by (simp add: mustJSON_def)
next
  case False
  then show ?thesis
    by (simp add: json_Valid_def mustJSON_def json_begin_value_def json_space_def json_push_def
        json_scan_marshal json_pop_def)
qed

lemma mustJSON_not_Nil [simp]: "mustJSON fs \<noteq> []"
  by (simp add: mustJSON_def)

definition well_labelled :: "sample \<Rightarrow> bool" where
  "well_labelled x \<longleftrightarrow>
     (case x of
        Inc f ls \<Rightarrow> length ls = length (family_labels f) \<and> [] \<notin> set ls
      | Observe f ls t \<Rightarrow> length ls = length (family_labels f) \<and> [] \<notin> set ls)"

definition dead_letters :: "sample list \<Rightarrow> nat" where
  "dead_letters xs = length (filter (\<lambda>x. case x of Inc JobsDeadLettered _ \<Rightarrow> True | _ \<Rightarrow> False) xs)"

lemma normalizeLabel_not_Nil: "fallback \<noteq> [] \<Longrightarrow> normalizeLabel v fallback \<noteq> []"
  by (simp add: normalizeLabel_def)

lemma job_status_text_not_Nil [simp]: "job_status_text s \<noteq> []"
  by (cases s) simp_all

lemmas not_Nil = Itoa_not_Nil [symmetric] job_status_text_not_Nil [symmetric]

lemma job_status_text_inj: "job_status_text s = job_status_text t \<longleftrightarrow> s = t"
  by (cases s; cases t) simp_all

lemmas record_defs = RecordHTTPRequest_def RecordJobSubmitted_def RecordJobStarted_def RecordJobSucceeded_def
  RecordJobFailed_def RecordJobRetried_def RecordWorkerHeartbeat_def RecordSchedulerTick_def
  RecordSchedulerRecovered_def RecordCronJobFired_def RecordNATSPublishFailure_def with_metrics_def

section \<open>Properties\<close>

text \<open>
  Samples fit their metrics. Whatever the service name, queue, type or status texts, empty ones
  included, every sample that a \<open>Record\<close> function takes names as many label values as its metric has
  labels (with another number Prometheus panics) and none of them is empty; and the dead-letter
  counter goes up by one exactly for a failure or a recovery that ends in the dead letters.
\<close>

lemma Record_well_labelled:
  assumes "meth \<noteq> []" and "m = Some (NewMetrics svc)"
  shows "(\<forall>x \<in> set (RecordHTTPRequest m meth route status t @ RecordJobSubmitted m queue jt existing @
        RecordJobStarted m wall j @ RecordJobSucceeded m j t @ RecordJobFailed m j final t @ RecordJobRetried m j @
        RecordWorkerHeartbeat m queue ws @ RecordSchedulerTick m r @ RecordSchedulerRecovered m j @
        RecordCronJobFired m j @ RecordNATSPublishFailure m component queue). well_labelled x) \<and>
    dead_letters (RecordJobFailed m j final t) = (if final = job_status_text DeadLetter then 1 else 0) \<and>
    dead_letters (RecordSchedulerRecovered m j) = (if job_status j = DeadLetter then 1 else 0)"
  using assms
  by (simp add: record_defs well_labelled_def dead_letters_def Let_def FormatBool_def NewMetrics_def
      normalizeLabel_def normalizeRoute_def not_Nil)

lemma Record_well_labelled_witness:
  "dead_letters (RecordJobFailed (Some (NewMetrics [])) sample_job ''dead_letter'' 5) = 1"
  using Record_well_labelled [where meth = "''GET''" and m = "Some (NewMetrics [])" and j = sample_job
      and final = "''dead_letter''" and t = 5] by simp

text \<open>
  A scrape is well-formed. Whatever the four statements of the snapshot saw, each in its own
  database state, and whatever the network did, \<open>Collect\<close> emits only described metrics, with the right
  number of labels and no metric twice with the same labels (Prometheus rejects the whole scrape
  otherwise); the scrape error gauge is 1, and the only sample, exactly when the snapshot failed.
\<close>

lemma Collect_well_formed:
  shows "distinct (map (\<lambda>g. (gauge_of g, gauge_labels g)) (Collect (ObservabilitySnapshot coll net seen))) \<and>
    (\<forall>g \<in> set (Collect (ObservabilitySnapshot coll net seen)). gauge_of g \<in> set Describe \<and>
      length (gauge_labels g) = length (gauge_family_labels (gauge_of g))) \<and>
    (case ObservabilitySnapshot coll net seen of
       Inl e \<Rightarrow> Collect (ObservabilitySnapshot coll net seen) = [Gauge ScrapeError [] 1]
     | Inr sn \<Rightarrow> Gauge ScrapeError [] 0 \<in> set (Collect (ObservabilitySnapshot coll net seen)))"
proof (cases "ObservabilitySnapshot coll net seen")
  case (Inl e)
  then show ?thesis by (simp add: Collect_def Describe_def)
next
  case (Inr sn)
  have sn: "sn_jobs_by_status sn = status_metrics coll (seen 0)" "sn_queue_depth sn = queue_metrics coll claimable (seen 1)"
      "sn_active_jobs sn = queue_metrics coll (\<lambda>s. s = Running) (seen 2)" "sn_active_workers sn = worker_metrics coll (seen 3)"
    using Inr by (auto simp: ObservabilitySnapshot_def read_sql_def run_sql_query split: if_splits)
  have "distinct (map (\<lambda>x. (jm_queue x, jm_status x)) (sn_jobs_by_status sn))"
    by (simp add: sn status_metrics_def comp_def)
  then have status: "distinct (map (\<lambda>x. (JobsByStatus, [jm_queue x, job_status_text (jm_status x)])) (sn_jobs_by_status sn))"
    by (simp add: distinct_map inj_on_def job_status_text_inj)
  have queue: "distinct (map (\<lambda>x. (f, [qm_queue x])) ms)" if "distinct (map qm_queue ms)" for ms and f :: gauge_family
    using that by (simp add: distinct_map inj_on_def)
  have queues: "distinct (map qm_queue (sn_queue_depth sn))" "distinct (map qm_queue (sn_active_jobs sn))"
      "distinct (map qm_queue (sn_active_workers sn))"
    by (simp_all add: sn queue_metrics_def worker_metrics_def comp_def all_queues_def)
  show ?thesis
    using status queue [OF queues(1), of QueueDepth] queue [OF queues(2), of ActiveJobs] queue [OF queues(3), of ActiveWorkers]
    by (auto simp: Inr Collect_def Describe_def comp_def)
qed

lemma Collect_well_formed_witness:
  "distinct (map (\<lambda>g. (gauge_of g, gauge_labels g)) (Collect (ObservabilitySnapshot (\<lambda>x y. True) all_served (\<lambda>i. sample_db))))"
  using Collect_well_formed [of "\<lambda>x y. True" all_served "\<lambda>i. sample_db"] by blast

end
