(* ===== verification/Client.thy ===== *)
theory Client
  imports Telemetry "HOL-Library.State_Monad"
begin

text \<open>
  How the processes (API, worker, scheduler) use the store. A handler is a computation in the state
  monad over \<open>proc\<close>: the database it talks to, the number of calls made so far, and what it has
  published and recorded. Everything outside the process is a \<open>world\<close>: the network, the clocks, the
  identifiers and locks that each call meets, and what the other clients do to the database before
  it (\<open>w_others\<close>, any sequence of store operations in a \<open>fair\<close> world). Call number \<open>k\<close> reads the
  \<open>k\<close>-th entry of each.

  \<open>store_only\<close> says that a computation reaches the database through store operations alone, so that
  the properties of \<open>LeaseSystem\<close> hold across it; \<open>triple\<close> is a Hoare triple.
\<close>

section \<open>The world\<close>

record world =
  w_jsonb :: "string \<Rightarrow> string"
  w_uuid_str :: "uuid \<Rightarrow> string"
  w_uuid_parse :: "string \<Rightarrow> uuid option"
  w_coll :: "string \<Rightarrow> string \<Rightarrow> bool"
  w_net :: "nat \<Rightarrow> net"
  w_now :: "nat \<Rightarrow> instant"
  w_clock :: "nat \<Rightarrow> instant"
  w_ids :: "nat \<Rightarrow> nat \<Rightarrow> uuid"
  w_locked :: "nat \<Rightarrow> uuid set"
  w_others :: "nat \<Rightarrow> db \<Rightarrow> db"
  w_publish :: "nat \<Rightarrow> bool"
  w_span :: span

datatype event = Sampled sample | Published string bool

record proc =
  p_db :: db
  p_calls :: nat
  p_events :: "event list"

type_synonym 'a cmd = "(proc, 'a) state"

abbreviation ret :: "'a \<Rightarrow> 'a cmd" where
  "ret \<equiv> State_Monad.return"

section \<open>Steps of a process\<close>

definition store_call :: "world \<Rightarrow> (nat \<Rightarrow> db \<Rightarrow> 'a result) \<Rightarrow> (error + 'a) cmd" where
  "store_call w f = State (\<lambda>s.
     let k = p_calls s; (r, d) = f k (w_others w k (p_db s))
     in (r, s\<lparr>p_db := d, p_calls := Suc k\<rparr>))"

text \<open>\<open>PublishJobAvailable\<close>: the subject of the queue and the queue's name; true when NATS took it.\<close>

definition publish :: "world \<Rightarrow> string \<Rightarrow> bool cmd" where
  "publish w queue = State (\<lambda>s.
     let k = p_calls s
     in (w_publish w k, s\<lparr>p_calls := Suc k, p_events := p_events s @ [Published queue (w_publish w k)]\<rparr>))"

definition take_samples :: "sample list \<Rightarrow> unit cmd" where
  "take_samples xs = State (\<lambda>s. ((), s\<lparr>p_events := p_events s @ map Sampled xs\<rparr>))"

text \<open>The number of the next call, to read a clock or a random choice of the moment.\<close>

definition moment :: "nat cmd" where
  "moment = State (\<lambda>s. (p_calls s, s))"

fun each_cmd :: "('x \<Rightarrow> unit cmd) \<Rightarrow> 'x list \<Rightarrow> unit cmd" where
  "each_cmd f [] = ret ()"
| "each_cmd f (x # xs) = do { f x; each_cmd f xs }"

section \<open>Store operations as calls\<close>

definition append_log_call :: "world \<Rightarrow> log_params \<Rightarrow> (error + job_log) cmd" where
  "append_log_call w p = store_call w (\<lambda>k. AppendJobLog (w_jsonb w) (w_net w k) (w_now w k) (w_ids w k 0) p)"

section \<open>Hoare triples\<close>

named_theorems hoare \<open>rules for triples\<close>
named_theorems store_only_rules \<open>computations that reach the database through store operations\<close>

definition triple :: "(proc \<Rightarrow> bool) \<Rightarrow> 'a cmd \<Rightarrow> ('a \<Rightarrow> proc \<Rightarrow> bool) \<Rightarrow> bool" where
  "triple P m Q \<longleftrightarrow> (\<forall>s. P s \<longrightarrow> (case run_state m s of (a, s') \<Rightarrow> Q a s'))"

lemma tripleI: "(\<And>s a s'. P s \<Longrightarrow> run_state m s = (a, s') \<Longrightarrow> Q a s') \<Longrightarrow> triple P m Q"
  by (auto simp: triple_def)

lemma tripleD: "triple P m Q \<Longrightarrow> P s \<Longrightarrow> run_state m s = (a, s') \<Longrightarrow> Q a s'"
  by (auto simp: triple_def)

lemma triple_conseq: "triple P m Q \<Longrightarrow> (\<And>s. P' s \<Longrightarrow> P s) \<Longrightarrow> (\<And>a s. Q a s \<Longrightarrow> Q' a s) \<Longrightarrow> triple P' m Q'"
  unfolding triple_def by (fastforce split: prod.splits)

lemma triple_return [hoare]: "(\<And>s. P s \<Longrightarrow> Q a s) \<Longrightarrow> triple P (ret a) Q"
  by (simp add: triple_def)

lemma triple_bind: "triple P m R \<Longrightarrow> (\<And>a. triple (R a) (f a) Q) \<Longrightarrow> triple P (m \<bind> f) Q"
  unfolding triple_def by (fastforce split: prod.splits)

lemma triple_if [hoare]:
  "(b \<Longrightarrow> triple P m Q) \<Longrightarrow> (\<not> b \<Longrightarrow> triple P n Q) \<Longrightarrow> triple P (if b then m else n) Q"
  by simp

lemma triple_sum [hoare]:
  "(\<And>e. x = Inl e \<Longrightarrow> triple P (f e) Q) \<Longrightarrow> (\<And>a. x = Inr a \<Longrightarrow> triple P (g a) Q) \<Longrightarrow>
    triple P (case x of Inl e \<Rightarrow> f e | Inr a \<Rightarrow> g a) Q"
  by (cases x) simp_all

lemma triple_option [hoare]:
  "(x = None \<Longrightarrow> triple P m Q) \<Longrightarrow> (\<And>a. x = Some a \<Longrightarrow> triple P (g a) Q) \<Longrightarrow>
    triple P (case x of None \<Rightarrow> m | Some a \<Rightarrow> g a) Q"
  by (cases x) simp_all

section \<open>Computations of store operations\<close>

definition fair :: "world \<Rightarrow> bool" where
  "fair w \<longleftrightarrow> (\<forall>k d. store_step\<^sup>*\<^sup>* d (w_others w k d))"

definition store_only :: "'a cmd \<Rightarrow> bool" where
  "store_only m \<longleftrightarrow> state_io_rel (\<lambda>s s'. store_step\<^sup>*\<^sup>* (p_db s) (p_db s')) m"

lemma store_onlyD: "store_only m \<Longrightarrow> run_state m s = (a, s') \<Longrightarrow> store_step\<^sup>*\<^sup>* (p_db s) (p_db s')"
  by (metis store_only_def state_io_rel_def snd_conv)

lemma store_only_return [store_only_rules]: "store_only (ret a)"
  by (simp add: store_only_def state_io_rel_def)

lemma store_only_bind [store_only_rules]:
  assumes "store_only m" and "\<And>a. store_only (f a)"
  shows "store_only (m \<bind> f)"
proof -
  have "store_step\<^sup>*\<^sup>* (p_db s) (p_db (snd (run_state (m \<bind> f) s)))" for s
  proof -
    obtain a s1 where 1: "run_state m s = (a, s1)" by fastforce
    obtain b s2 where 2: "run_state (f a) s1 = (b, s2)" by fastforce
    have "store_step\<^sup>*\<^sup>* (p_db s) (p_db s2)"
      using store_onlyD [OF assms(1) 1] store_onlyD [OF assms(2) 2] by (rule rtranclp_trans)
    then show ?thesis by (simp add: 1 2)
  qed
  then show ?thesis by (simp add: store_only_def state_io_rel_def)
qed

lemma store_only_call [store_only_rules]:
  assumes "fair w" and "\<And>k d. snd (f k d) = d \<or> store_step d (snd (f k d))"
  shows "store_only (store_call w f)"
proof -
  have "store_step\<^sup>*\<^sup>* d (snd (f k (w_others w k d)))" for k d
    using assms(1) assms(2) [of k "w_others w k d"] rtranclp.rtrancl_into_rtrancl unfolding fair_def by metis
  then show ?thesis by (simp add: store_only_def state_io_rel_def store_call_def Let_def split_beta)
qed

lemma store_only_quiet [store_only_rules]:
  "store_only (publish w q)" "store_only (take_samples xs)" "store_only moment"
  by (simp_all add: store_only_def state_io_rel_def publish_def take_samples_def moment_def Let_def)

lemma store_only_if [store_only_rules]:
  "store_only m \<Longrightarrow> store_only n \<Longrightarrow> store_only (if b then m else n)"
  by simp

lemma store_only_sum [store_only_rules]:
  "(\<And>e. store_only (f e)) \<Longrightarrow> (\<And>a. store_only (g a)) \<Longrightarrow> store_only (case x of Inl e \<Rightarrow> f e | Inr a \<Rightarrow> g a)"
  by (cases x) simp_all

lemma store_only_option [store_only_rules]:
  "store_only m \<Longrightarrow> (\<And>a. store_only (g a)) \<Longrightarrow> store_only (case x of None \<Rightarrow> m | Some a \<Rightarrow> g a)"
  by (cases x) simp_all

lemma store_only_prod [store_only_rules]:
  "(\<And>a b. store_only (f a b)) \<Longrightarrow> store_only (case x of (a, b) \<Rightarrow> f a b)"
  by (cases x) simp

lemma store_only_each [store_only_rules]: "(\<And>x. store_only (f x)) \<Longrightarrow> store_only (each_cmd f xs)"
  by (induction xs) (simp_all add: store_only_return store_only_bind)

text \<open>Reads leave the database alone.\<close>

lemma read_no_step:
  "snd (run_sql (query f) r d) = d" "snd (GetJob net i d) = d" "snd (ListDueQueues coll net now n d) = d"
  by (simp_all add: run_sql_query GetJob_def scan_result_def ListDueQueues_def split: sum.split)

lemma store_only_log [store_only_rules]: "fair w \<Longrightarrow> store_only (append_log_call w p)"
  unfolding append_log_call_def by (intro store_only_rules disjI2 store_step.append_log)

text \<open>What the other clients cannot undo stays true across a computation.\<close>

definition stable :: "(db \<Rightarrow> bool) \<Rightarrow> bool" where
  "stable I \<longleftrightarrow> (\<forall>d d'. db_ok d \<longrightarrow> store_step d d' \<longrightarrow> I d \<longrightarrow> I d')"

abbreviation inv :: "(db \<Rightarrow> bool) \<Rightarrow> proc \<Rightarrow> bool" where
  "inv I s \<equiv> db_ok (p_db s) \<and> I (p_db s)"

lemma stable_run: "stable I \<Longrightarrow> store_step\<^sup>*\<^sup>* d d' \<Longrightarrow> db_ok d \<Longrightarrow> I d \<Longrightarrow> db_ok d' \<and> I d'"
  using store.run_stable [of I d d'] store.good_run [of d d'] by (auto simp: stable_def)

lemma triple_stable: "stable I \<Longrightarrow> store_only m \<Longrightarrow> triple (inv I) m (\<lambda>_. inv I)"
  proof (rule tripleI)
  fix s a s'
  assume I: "stable I" "store_only m" and s: "inv I s" "run_state m s = (a, s')"
  show "inv I s'" by (rule stable_run [OF I(1) store_onlyD [OF I(2) s(2)]]) (use s(1) in simp_all)
qed

text \<open>A call of a store operation, in a fair world, from a state where \<open>I\<close> holds.\<close>

lemma triple_store_call:
  assumes "fair w" and "stable I"
    and "\<And>k d. db_ok d \<Longrightarrow> I d \<Longrightarrow> (case f k d of (r, d') \<Rightarrow> db_ok d' \<and> Q r d')"
  shows "triple (inv I) (store_call w f) (\<lambda>r. inv (Q r))"
proof (rule tripleI)
  fix s a s'
  assume s: "inv I s" and run: "run_state (store_call w f) s = (a, s')"
  let ?d = "w_others w (p_calls s) (p_db s)"
  have "store_step\<^sup>*\<^sup>* (p_db s) ?d" using assms(1) by (simp add: fair_def)
  then have "db_ok ?d \<and> I ?d" using stable_run [OF assms(2)] s by blast
  then have "case f (p_calls s) ?d of (r, d') \<Rightarrow> db_ok d' \<and> Q r d'" by (intro assms(3)) simp_all
  then show "inv (Q a) s'" using run by (auto simp: store_call_def Let_def split: prod.splits)
qed

section \<open>Undisturbed runs\<close>

text \<open>A world in which nobody else writes while the process works.\<close>

definition quiet :: "world \<Rightarrow> bool" where
  "quiet w \<longleftrightarrow> (\<forall>k d. w_others w k d = d)"

lemma triple_quiet_call:
  assumes "quiet w" and "\<And>k d. R d \<Longrightarrow> (case f k d of (r, d') \<Rightarrow> Q r d')"
  shows "triple (\<lambda>s. R (p_db s)) (store_call w f) (\<lambda>r s. Q r (p_db s))"
proof (rule tripleI)
  fix s a s'
  assume R: "R (p_db s)" and run: "run_state (store_call w f) s = (a, s')"
  have "case f (p_calls s) (p_db s) of (r, d') \<Rightarrow> Q r d'" by (rule assms(2) [OF R])
  then show "Q a (p_db s')"
    using run assms(1) by (auto simp: store_call_def Let_def quiet_def split: prod.splits)
qed

lemma triple_silent:
  "triple (\<lambda>s. R (p_db s)) moment (\<lambda>_ s. R (p_db s))" "triple (\<lambda>s. R (p_db s)) (take_samples xs) (\<lambda>_ s. R (p_db s))"
  "triple (\<lambda>s. R (p_db s)) (publish w q) (\<lambda>_ s. R (p_db s))"
  by (simp_all add: triple_def moment_def take_samples_def publish_def Let_def)

text \<open>Like \<open>triple_quiet_call\<close>, with the number of the call.\<close>

lemma triple_numbered_call:
  assumes "quiet w" and "\<And>k d. R d k \<Longrightarrow> (case f k d of (r, d') \<Rightarrow> Q r d' (Suc k))"
  shows "triple (\<lambda>s. R (p_db s) (p_calls s)) (store_call w f) (\<lambda>r s. Q r (p_db s) (p_calls s))"
proof (rule tripleI)
  fix s a s'
  assume R: "R (p_db s) (p_calls s)" and run: "run_state (store_call w f) s = (a, s')"
  have "case f (p_calls s) (p_db s) of (r, d') \<Rightarrow> Q r d' (Suc (p_calls s))" by (rule assms(2) [OF R])
  then show "Q a (p_db s') (p_calls s')"
    using run assms(1) by (auto simp: store_call_def Let_def quiet_def split: prod.splits)
qed

lemma triple_numbered_silent:
  "triple (\<lambda>s. R (p_db s) (p_calls s)) moment (\<lambda>_ s. R (p_db s) (p_calls s))"
  "triple (\<lambda>s. R (p_db s) (p_calls s)) (take_samples xs) (\<lambda>_ s. R (p_db s) (p_calls s))"
  by (simp_all add: triple_def moment_def take_samples_def)

text \<open>A world for examples.\<close>

definition sample_world :: world where
  "sample_world = \<lparr>w_jsonb = id, w_uuid_str = (\<lambda>u. ''u''), w_uuid_parse = (\<lambda>s. None), w_coll = (\<lambda>x y. True),
     w_net = (\<lambda>k. all_served), w_now = (\<lambda>k. 300 + int k), w_clock = (\<lambda>k. 300 + int k),
     w_ids = (\<lambda>k i. word_of_int (100 + 10 * int k + int i)), w_locked = (\<lambda>k. {}), w_others = (\<lambda>k d. d),
     w_publish = (\<lambda>k. True), w_span = None\<rparr>"

lemma sample_world_quiet: "quiet sample_world" "fair sample_world" "w_net sample_world k = all_served"
  by (simp_all add: sample_world_def quiet_def fair_def)

section \<open>Signals of a run\<close>

text \<open>What a run has published.\<close>

definition published :: "proc \<Rightarrow> string list" where
  "published s = List.map_filter (\<lambda>e. case e of Published q _ \<Rightarrow> Some q | Sampled _ \<Rightarrow> None) (p_events s)"

lemma published_samples [simp]: "published (s\<lparr>p_events := p_events s @ map Sampled xs\<rparr>) = published s"
  by (simp add: published_def map_filter_def filter_empty_conv)

lemma published_quiet:
  "run_state (take_samples xs) s = (u, s') \<Longrightarrow> published s' = published s"
  by (auto simp: take_samples_def)

lemma published_each:
  assumes "\<And>x s u s'. run_state (f x) s = (u, s') \<Longrightarrow> published s' = published s"
  shows "run_state (each_cmd f xs) s = (u, s') \<Longrightarrow> published s' = published s"
proof (induction xs arbitrary: s)
  case (Cons x xs)
  obtain v s1 where 1: "run_state (f x) s = (v, s1)" by (rule prod.exhaust)
  then show ?case using Cons.IH [of s1] Cons.prems assms [OF 1] by simp
qed simp

lemma store_call_run:
  "run_state (store_call w f) s = (x, s') \<Longrightarrow>
    f (p_calls s) (w_others w (p_calls s) (p_db s)) = (x, p_db s') \<and> published s' = published s"
  by (auto simp: store_call_def Let_def published_def split: prod.splits)

end
