(* ===== verification/Worker.thy ===== *)
theory Worker
  imports Client
begin

text \<open>
  \<open>internal/worker/worker.go\<close>: the settings of a runner, registration, heartbeats, the wake-up
  channel, and the work loop that drains a queue: claim a job, run its handler, complete or fail it
  under the claimed lease, write the durable log.

  The handlers' JSON decoders (\<open>encoding/json\<close> into a map, a message, a duration) and the outcome of
  the race between a handler's timer and its deadline are a \<open>payloads\<close>; structured logging to
  standard output and span attributes are left out.
\<close>

section \<open>The runner\<close>

record runner =
  rn_queue :: string
  rn_worker_id :: string
  rn_concurrency :: int
  rn_lease :: duration
  rn_poll :: duration
  rn_heartbeat :: duration
  rn_policy :: retry_policy
  rn_metrics :: "metrics option"

definition NewRunner ::
  "string \<Rightarrow> string \<Rightarrow> int \<Rightarrow> duration \<Rightarrow> duration \<Rightarrow> duration \<Rightarrow> retry_policy \<Rightarrow> metrics option \<Rightarrow> runner" where
  "NewRunner queue workerID concurrency leaseDuration pollInterval heartbeatInterval retryPolicy m =
     \<lparr>rn_queue = (if queue = [] then ''default'' else queue),
      rn_worker_id = workerID,
      rn_concurrency = (if concurrency \<le> 0 then 1 else concurrency),
      rn_lease = leaseDuration,
      rn_poll = pollInterval,
      rn_heartbeat = (if heartbeatInterval \<le> 0 then 10 * second else heartbeatInterval),
      rn_policy = Normalize retryPolicy,
      rn_metrics = (case m of None \<Rightarrow> Some (NewMetrics ''pulsequeue-worker'') | Some m \<Rightarrow> Some m)\<rparr>"

text \<open>\<open>hostname\<close> is \<open>os.Hostname()\<close>, None where it fails.\<close>

definition register_call :: "world \<Rightarrow> runner \<Rightarrow> string option \<Rightarrow> (error + worker) cmd" where
  "register_call w r hostname =
     (let hostname = (case hostname of None \<Rightarrow> ''unknown'' | Some h \<Rightarrow> if h = [] then ''unknown'' else h)
      in store_call w (\<lambda>k. RegisterWorker (w_jsonb w) (w_net w k) (w_now w k)
           \<lparr>rg_id = rn_worker_id r, rg_hostname = hostname, rg_queues = [rn_queue r],
            rg_concurrency = wrap32 (rn_concurrency r),
            rg_metadata = CHR 0x7B # json_quote ''runtime'' @ CHR '':'' # json_quote ''go'' @ [CHR 0x7D]\<rparr>))"

text \<open>One iteration of the heartbeat loop, with the status that the atomic value holds.\<close>

definition heartbeat_once :: "world \<Rightarrow> runner \<Rightarrow> string \<Rightarrow> unit cmd" where
  "heartbeat_once w r current =
     (let current = (if current = [] then worker_status_text WorkerRunning else current)
      in do {
        res \<leftarrow> store_call w (\<lambda>k. HeartbeatWorker (w_now w k) (rn_worker_id r) current (rn_lease r) (w_net w k));
        case res of
          Inl e \<Rightarrow> ret ()
        | Inr u \<Rightarrow> take_samples (RecordWorkerHeartbeat (rn_metrics r) (rn_queue r) current)
      })"

text \<open>The wake-up channel: \<open>buffered\<close> signals of at most \<open>capacity\<close>; up to \<open>n\<close> sends that do not block.\<close>

fun signalWake :: "nat \<Rightarrow> nat \<Rightarrow> nat \<Rightarrow> nat" where
  "signalWake capacity 0 buffered = buffered"
| "signalWake capacity (Suc n) buffered =
     (if buffered < capacity then signalWake capacity n (Suc buffered) else buffered)"

section \<open>Handlers\<close>

datatype handler_error = HandlerError string | DeadlineExceeded

record payloads =
  pd_map :: "string \<Rightarrow> bool"
  pd_message :: "string \<Rightarrow> string option"
  pd_duration_ms :: "string \<Rightarrow> int option"
  pd_timer_first :: "duration \<Rightarrow> duration \<Rightarrow> bool"

definition invalid_payload :: handler_error where
  "invalid_payload = HandlerError ''invalid payload JSON''"

text \<open>The deadline of the handler's context.\<close>

definition job_deadline :: "job \<Rightarrow> duration option" where
  "job_deadline j =
     (case job_timeout_seconds j of
        None \<Rightarrow> None
      | Some t \<Rightarrow> if t > 0 then Some (wrap64 (t * second)) else None)"

definition runHandler :: "payloads \<Rightarrow> job \<Rightarrow> handler_error option" where
  "runHandler pd j =
     (if job_type j = ''demo.echo''
      then (if pd_map pd (job_payload j) then None else Some invalid_payload)
      else if job_type j = ''demo.fail''
      then
        (case (if job_payload j \<noteq> [] then pd_message pd (job_payload j) else Some []) of
           None \<Rightarrow> Some invalid_payload
         | Some message \<Rightarrow> Some (HandlerError (if message = [] then ''demo failure'' else message)))
      else if job_type j = ''demo.sleep''
      then
        (case (if job_payload j \<noteq> [] then pd_duration_ms pd (job_payload j) else Some 0) of
           None \<Rightarrow> Some invalid_payload
         | Some ms \<Rightarrow>
             let ms = (if ms \<le> 0 then 5000 else ms); sleep = wrap64 (ms * 1000000)
             in (case job_deadline j of
                   None \<Rightarrow> None
                 | Some deadline \<Rightarrow> if pd_timer_first pd sleep deadline then None else Some DeadlineExceeded))
      else Some (HandlerError (''unknown job type: '' @ job_type j)))"

definition failure_message :: "handler_error \<Rightarrow> string" where
  "failure_message e = (case e of HandlerError m \<Rightarrow> m | DeadlineExceeded \<Rightarrow> ''job timed out'')"

section \<open>Executing a job\<close>

text \<open>\<open>since\<close> is \<open>time.Since(started)\<close>, read at the given call number and, where twice, reading.\<close>

definition Milliseconds :: "duration \<Rightarrow> int" where
  "Milliseconds d = quot d 1000000"

definition job_log_fields :: "world \<Rightarrow> runner \<Rightarrow> job \<Rightarrow> attempt \<Rightarrow> json_map \<Rightarrow> json_map" where
  "job_log_fields w r job attempt fs =
     addTraceFields (w_span w)
       (AList.update ''worker_id'' (JText (rn_worker_id r))
         (AList.update ''queue'' (JText (job_queue job))
           (AList.update ''job_type'' (JText (job_type job))
             (AList.update ''attempt_id'' (JText (w_uuid_str w (att_id attempt)))
               (AList.update ''attempt'' (JInt (att_number attempt)) fs)))))"

definition worker_log :: "world \<Rightarrow> runner \<Rightarrow> job \<Rightarrow> attempt \<Rightarrow> string \<Rightarrow> string \<Rightarrow> json_map \<Rightarrow> unit cmd" where
  "worker_log w r job attempt level message fs = do {
     append_log_call w \<lparr>lp_job_id = job_id job, lp_attempt_id = Some (att_id attempt), lp_level = level,
       lp_message = message, lp_fields = mustJSON (job_log_fields w r job attempt fs)\<rparr>;
     ret ()
   }"

definition fail_job :: "world \<Rightarrow> runner \<Rightarrow> job \<Rightarrow> attempt \<Rightarrow> string \<Rightarrow> duration \<Rightarrow> int \<Rightarrow> unit cmd" where
  "fail_job w r job attempt message duration sl =
     (case job_lease_token job of
        None \<Rightarrow> ret ()
      | Some token \<Rightarrow> do {
          res \<leftarrow> store_call w (\<lambda>k. FailJob (w_now w k) (job_id job) token message (rn_policy r) (w_net w k));
          case res of
            Inl e \<Rightarrow> ret ()
          | Inr updated \<Rightarrow> do {
              take_samples (RecordJobFailed (rn_metrics r) job (job_status_text (job_status updated)) duration);
              worker_log w r job attempt ''warn'' ''job failed''
                [(''slot'', JInt sl), (''status'', JText (job_status_text (job_status updated))),
                 (''duration_ms'', JInt (Milliseconds duration)), (''error'', JText message)]
            }
        })"

definition execute :: "world \<Rightarrow> payloads \<Rightarrow> (nat \<Rightarrow> nat \<Rightarrow> duration) \<Rightarrow> runner \<Rightarrow> job \<times> attempt \<Rightarrow> int \<Rightarrow> unit cmd" where
  "execute w pd since r claimed sl =
     (let job = fst claimed; attempt = snd claimed
      in case job_lease_token job of
        None \<Rightarrow> ret ()
      | Some token \<Rightarrow> do {
          k \<leftarrow> moment;
          take_samples (RecordJobStarted (rn_metrics r) (w_clock w k) job);
          worker_log w r job attempt ''info'' ''job started''
            [(''slot'', JInt sl), (''status'', JText (job_status_text (job_status job)))];
          k \<leftarrow> moment;
          case runHandler pd job of
            Some e \<Rightarrow> fail_job w r job attempt (failure_message e) (since k 0) sl
          | None \<Rightarrow> do {
              res \<leftarrow> store_call w (\<lambda>k. CompleteJob (w_now w k) (job_id job) token (w_net w k));
              case res of
                Inl e \<Rightarrow> ret ()
              | Inr u \<Rightarrow> do {
                  k \<leftarrow> moment;
                  take_samples (RecordJobSucceeded (rn_metrics r) job (since k 1));
                  worker_log w r job attempt ''info'' ''job succeeded''
                    [(''slot'', JInt sl), (''status'', JText (job_status_text Succeeded)),
                     (''duration_ms'', JInt (Milliseconds (since k 0)))]
                }
            }
        })"

text \<open>
  The drain loop: it ends with an error (\<open>Some (Some e)\<close>) or without (\<open>Some None\<close>); \<open>None\<close> means that
  the fuel \<open>n\<close> ran out. \<open>cancelled k\<close> is whether the context is done when the loop looks.
\<close>

fun drain ::
  "world \<Rightarrow> payloads \<Rightarrow> (nat \<Rightarrow> nat \<Rightarrow> duration) \<Rightarrow> (nat \<Rightarrow> bool) \<Rightarrow> runner \<Rightarrow> int \<Rightarrow> nat \<Rightarrow> error option option cmd" where
  "drain w pd since cancelled r sl 0 = ret None"
| "drain w pd since cancelled r sl (Suc n) = do {
     res \<leftarrow> store_call w (\<lambda>k. ClaimJob (w_locked w k) (w_now w k) (w_ids w k 0) (w_ids w k 1) (rn_queue r)
       (rn_worker_id r) (rn_lease r) (w_net w k));
     case res of
       Inl e \<Rightarrow> ret (Some (Some e))
     | Inr claim \<Rightarrow> (case claim of
           None \<Rightarrow> ret (Some None)
         | Some claimed \<Rightarrow> do {
             execute w pd since r claimed sl;
             k \<leftarrow> moment;
             if cancelled k then ret (Some None) else drain w pd since cancelled r sl n
           })
   }"

section \<open>Only store operations\<close>

lemma store_only_worker_log [store_only_rules]: "fair w \<Longrightarrow> store_only (worker_log w r job attempt level message fs)"
  unfolding worker_log_def by (intro store_only_rules)

lemma store_only_fail_job [store_only_rules]: "fair w \<Longrightarrow> store_only (fail_job w r job attempt message t sl)"
  unfolding fail_job_def by (intro store_only_rules disjI2 store_step.failure)

lemma store_only_execute [store_only_rules]: "fair w \<Longrightarrow> store_only (execute w pd since r claimed sl)"
  unfolding execute_def Let_def by (intro store_only_rules disjI2 store_step.complete)

lemma store_only_drain [store_only_rules]: "fair w \<Longrightarrow> store_only (drain w pd since cancelled r sl n)"
proof (induction n)
  case (Suc n)
  then show ?case
    unfolding drain.simps by (intro store_only_rules disjI2 store_step.claim)
qed (simp add: store_only_return)

lemma store_only_register [store_only_rules]: "fair w \<Longrightarrow> store_only (register_call w r h)"
  unfolding register_call_def Let_def by (intro store_only_rules disjI2 store_step.register)

lemma store_only_heartbeat [store_only_rules]: "fair w \<Longrightarrow> store_only (heartbeat_once w r current)"
  unfolding heartbeat_once_def Let_def by (intro store_only_rules disjI2 store_step.heartbeat)

section \<open>Settling an attempt\<close>

definition opened :: "attempt \<Rightarrow> db \<Rightarrow> bool" where
  "opened a d \<longleftrightarrow> (\<exists>b \<in> set (attempts d). att_id b = att_id a \<and> att_job_id b = att_job_id a \<and> att_lease_token b = att_lease_token a)"

definition settled :: "attempt \<Rightarrow> db \<Rightarrow> bool" where
  "settled a d \<longleftrightarrow> (\<exists>b \<in> set (attempts d). att_id b = att_id a \<and> finished b)"

lemma stable_settled: "stable (settled a)"
proof -
  have "settled a d'" if "db_ok d" "store_step d d'" "settled a d" for d d'
    using job_change_history [OF store_step_change [OF that(1,2)]] that(3)
    by (auto simp: settled_def keeps_history_def)
  then show ?thesis by (simp add: stable_def)
qed

lemma stable_opened: "stable (opened a)"
proof -
  have "opened a d'" if "db_ok d" "store_step d d'" and o: "opened a d" for d d'
    using store_step_change [OF that(1,2)]
  proof cases
    case (closed js f s g)
    from o obtain b where b: "b \<in> set (attempts d)" "att_id b = att_id a" "att_job_id b = att_job_id a"
        "att_lease_token b = att_lease_token a" unfolding opened_def by blast
    let ?c = "if leased_in js b then g b else b"
    have "?c \<in> set (attempts d')" using b(1) closed(5) by (auto simp: set_update_rows)
    moreover have "att_id ?c = att_id a" "att_job_id ?c = att_job_id a" "att_lease_token ?c = att_lease_token a"
      using b(2-4) closesD [OF closed(3)] by simp_all
    ultimately show ?thesis unfolding opened_def by blast
  qed (use o in \<open>auto simp: opened_def\<close>)
  then show ?thesis by (simp add: stable_def)
qed

text \<open>A running attempt's token is the lease of its job.\<close>

lemma running_holds:
  assumes ok: "db_ok d" and b: "b \<in> set (attempts d)" "att_status b = AttemptRunning"
  shows "holds_lease d (att_job_id b) (att_lease_token b)"
proof -
  have "att_job_id b \<in> job_id ` set (jobs d)" using ok b(1) by (auto simp: db_ok_def jobs_ok_def)
  then obtain j where j: "j \<in> set (jobs d)" "job_id j = att_job_id b" by auto
  let ?as = "attempts_of (job_id j) (attempts d)"
  have "job_ok ?as j" using ok j(1) by (simp add: db_ok_def jobs_ok_def)
  then have lease: "lease_ok ?as j" by (simp add: job_ok_def)
  have in_as: "b \<in> set ?as" using b(1) j(2) by simp
  then obtain t where t: "job_lease_token j = Some t" using lease b(2) by (auto simp: lease_ok_def split: option.splits)
  then have "b \<notin> set (butlast ?as)" "?as \<noteq> []" using lease b(2) by (auto simp: lease_ok_def)
  then have "b = last ?as"
    using in_as by (metis append_butlast_last_id insert_iff list.simps(15) rotate1.simps(2) set_rotate1)
  then have "att_lease_token b = t" "job_status j = Running" using lease t by (simp_all add: lease_ok_def)
  then have "job_fenced (att_job_id b) (att_lease_token b) j" using j(2) t by (simp add: job_fenced_def)
  then show ?thesis using j(1) by (auto simp: holds_lease_def list_ex_iff)
qed

lemma close_settles:
  assumes "opened a d" and g: "closes g s"
  shows "settled a (close_lease (att_job_id a) (att_lease_token a) f g d)"
proof -
  obtain b where b: "b \<in> set (attempts d)" "att_id b = att_id a" "att_job_id b = att_job_id a"
      "att_lease_token b = att_lease_token a" using assms(1) unfolding opened_def by blast
  let ?c = "if attempt_fenced (att_job_id a) (att_lease_token a) b then g b else b"
  have "?c \<in> set (attempts (close_lease (att_job_id a) (att_lease_token a) f g d))"
    using b(1) by (auto simp: close_lease_def set_update_rows)
  moreover have "att_id ?c = att_id a" using b(2) closesD [OF g] by simp
  moreover have "finished ?c" using b(3,4) closesD [OF g] by (auto simp: finished_def attempt_fenced_def)
  ultimately show ?thesis unfolding settled_def by blast
qed

lemma stale_settled:
  assumes "db_ok d" and "opened a d" and "\<not> holds_lease d (att_job_id a) (att_lease_token a)"
  shows "settled a d"
proof -
  obtain b where b: "b \<in> set (attempts d)" "att_id b = att_id a" "att_job_id b = att_job_id a"
      "att_lease_token b = att_lease_token a" using assms(2) unfolding opened_def by blast
  then have "finished b" using running_holds [OF assms(1) b(1)] assms(3) by (auto simp: finished_def)
  then show ?thesis using b(1,2) unfolding settled_def by blast
qed

lemma CompleteJob_settles:
  assumes "db_ok d" and "opened a d"
  shows "settled a (snd (CompleteJob now (att_job_id a) (att_lease_token a) all_served d))"
  using close_settles [OF assms(2) closes_attempt(1)] stale_settled [OF assms] by (simp add: CompleteJob_served [OF assms(1)])

lemma FailJob_settles:
  assumes "db_ok d" and "opened a d"
  shows "settled a (snd (FailJob now (att_job_id a) (att_lease_token a) m policy all_served d))"
proof (cases "holds_lease d (att_job_id a) (att_lease_token a)")
  case True
  then obtain j where "j \<in> set (jobs d)" "job_fenced (att_job_id a) (att_lease_token a) j" using holds_lease_row by blast
  then show ?thesis using close_settles [OF assms(2) closes_attempt(2)] by (simp add: FailJob_served [OF assms(1)])
next
  case False
  then show ?thesis using stale_settled [OF assms] by (simp add: FailJob_stale)
qed

lemma settle_call:
  assumes "fair w" and "\<And>k d. db_ok d \<Longrightarrow> db_ok (snd (f k d))" and "\<And>k d. db_ok d \<Longrightarrow> opened a d \<Longrightarrow> settled a (snd (f k d))"
  shows "triple (inv (opened a)) (store_call w f) (\<lambda>r. inv (settled a))"
  by (rule triple_store_call [OF assms(1) stable_opened]) (use assms(2,3) in \<open>auto simp: split_beta\<close>)

lemma execute_triple:
  assumes w: "fair w" "\<And>k. w_net w k = all_served"
    and c: "job_id job = att_job_id a" "job_lease_token job = Some (att_lease_token a)"
  shows "triple (inv (opened a)) (execute w pd since r (job, a) sl) (\<lambda>_. inv (settled a))"
proof -
  note keep = triple_stable [OF stable_opened] and kept = triple_stable [OF stable_settled]
  have fail: "triple (inv (opened a)) (fail_job w r job a m t sl) (\<lambda>_. inv (settled a))" for m t
    unfolding fail_job_def c option.case
    by (rule triple_bind [OF settle_call [OF w(1)]], simp add: FailJob_db_ok, simp add: w(2) FailJob_settles,
        rule kept, intro store_only_rules w(1))
  have complete: "triple (inv (opened a)) (store_call w (\<lambda>k. CompleteJob (w_now w k) (job_id job) (att_lease_token a) (w_net w k)))
      (\<lambda>_. inv (settled a))"
    unfolding c by (rule settle_call [OF w(1)]) (simp_all add: CompleteJob_db_ok w(2) CompleteJob_settles)
  show ?thesis
    unfolding execute_def Let_def fst_conv snd_conv c(2) option.case
  proof (rule triple_bind [OF keep [OF store_only_quiet(3)]], rule triple_bind [OF keep [OF store_only_quiet(2)]],
      rule triple_bind [OF keep [OF store_only_worker_log [OF w(1)]]], rule triple_bind [OF keep [OF store_only_quiet(3)]],
      rule triple_option, goal_cases)
    case 1
    show ?case by (rule triple_bind [OF complete], rule kept) (intro store_only_rules w(1))
  next
    case 2
    show ?case by (rule fail)
  qed
qed

section \<open>Draining without interference\<close>

text \<open>How many claims the jobs still allow.\<close>

definition job_remaining :: "job \<Rightarrow> nat" where
  "job_remaining j = nat (normalizedMaxAttempts (job_max_attempts j) - job_attempt_count j)"

definition remaining :: "db \<Rightarrow> nat" where
  "remaining d = sum_list (map job_remaining (jobs d))"

lemma remaining_touch:
  assumes "\<And>j. job_remaining (f j) = job_remaining j"
  shows "remaining (close_lease i t f g d) = remaining d"
proof -
  have "map job_remaining (update_rows (by_id i) f (jobs d)) = map job_remaining (jobs d)"
    by (rule map_update_rows) (simp add: assms)
  then show ?thesis by (simp add: remaining_def close_lease_def)
qed

lemma job_remaining_sets:
  "job_remaining (complete_set now j) = job_remaining j" "job_remaining (fail_set now delay m k j) = job_remaining j"
  by (simp_all add: job_remaining_def complete_set_def fail_set_def reschedule_set_def dead_letter_set_def)

lemma remaining_CompleteJob:
  assumes "db_ok d"
  shows "remaining (snd (CompleteJob now i t net d)) = remaining d"
  using complete.effect [of now i t net d]
proof
  assume "\<exists>a. complete_commit now i t d a (snd (CompleteJob now i t net d))"
  then obtain a where "complete_commit now i t d a (snd (CompleteJob now i t net d))" ..
  with assms show ?thesis
    by (cases rule: complete_commit_close) (simp add: remaining_touch job_remaining_sets)
qed simp

lemma remaining_FailJob:
  assumes "db_ok d"
  shows "remaining (snd (FailJob now i t m policy net d)) = remaining d"
  using failure.effect [of now i t m policy net d]
proof
  assume "\<exists>a. fail_commit now i t m policy d a (snd (FailJob now i t m policy net d))"
  then obtain a where "fail_commit now i t m policy d a (snd (FailJob now i t m policy net d))" ..
  with assms show ?thesis
    by (cases rule: fail_commit_cases) (simp add: remaining_touch job_remaining_sets)
qed simp

lemma AppendJobLog_jobs:
  "jobs (snd (AppendJobLog jsonb net now gid p d)) = jobs d" "attempts (snd (AppendJobLog jsonb net now gid p d)) = attempts d"
  using append_log.effect [of jsonb net now gid p d] by (auto simp: log_commit_def)

lemma update_one:
  assumes "distinct (map job_id js)" and "j \<in> set js" and "job_remaining (f j) < job_remaining j"
  shows "sum_list (map job_remaining (update_rows (by_id (job_id j)) f js)) < sum_list (map job_remaining js)"
  using assms
proof (induction js)
  case (Cons k js)
  show ?case
  proof (cases "k = j")
    case True
    then have "job_id j \<notin> job_id ` set js" using Cons.prems(1) by simp
    then have "\<forall>x \<in> set js. job_id x \<noteq> job_id j" by (metis image_eqI)
    then have "update_rows (by_id (job_id j)) f js = js" by (intro update_rows_none) auto
    then show ?thesis using True Cons.prems(3) by simp
  next
    case False
    then have "j \<in> set js" "job_id k \<noteq> job_id j" using Cons.prems(1,2) by auto
    then show ?thesis using Cons by simp
  qed
qed simp

lemma claim_commit_remaining:
  assumes ok: "db_ok d" and c: "claim_commit locked now gid t queue w lease d (Some x) d'"
  shows "remaining d' < remaining d"
  using ok c
proof (cases rule: claim_commit_cases)
  case (claimed j a)
  have "job_ok (attempts_of (job_id j) (attempts d)) j" using ok claimed(2) by (simp add: db_ok_def jobs_ok_def)
  then have "job_attempt_count j < normalizedMaxAttempts (job_max_attempts j)"
    using claimed(4) by (simp add: job_ok_def count_ok_def claim_due_def)
  then have "job_remaining (claim_set now w lease t j) < job_remaining j"
    by (simp add: job_remaining_def claim_set_def)
  then show ?thesis
    using update_one [OF db_ok_distinct(1) [OF ok] claimed(2)] by (simp add: remaining_def claimed(9))
qed simp

lemma execute_remaining:
  assumes q: "quiet w"
  shows "triple (inv (\<lambda>d. remaining d \<le> m)) (execute w pd since r claimed sl) (\<lambda>_. inv (\<lambda>d. remaining d \<le> m))"
proof -
  let ?I = "inv (\<lambda>d. remaining d \<le> m)"
  note call = triple_quiet_call [OF q, where R = "\<lambda>d. db_ok d \<and> remaining d \<le> m" and Q = "\<lambda>r d. db_ok d \<and> remaining d \<le> m"]
  note silent = triple_silent [where R = "\<lambda>d. db_ok d \<and> remaining d \<le> m"]
  have log: "triple ?I (worker_log w r job a level message fs) (\<lambda>_. ?I)" for job a level message fs
    unfolding worker_log_def append_log_call_def
    by (rule triple_bind [OF call triple_return])
      (simp_all add: split_beta AppendJobLog_db_ok remaining_def AppendJobLog_jobs)
  have fail: "triple ?I (fail_job w r job a msg t sl) (\<lambda>_. ?I)" for job a msg t
    unfolding fail_job_def
    by (intro triple_option triple_return triple_bind [OF call] triple_sum triple_bind [OF silent(2)] log)
      (simp_all add: split_beta FailJob_db_ok remaining_FailJob)
  show ?thesis
    unfolding execute_def Let_def
    by (intro triple_option triple_return triple_bind [OF silent(1)] triple_bind [OF silent(2)] triple_bind [OF log] fail
        triple_bind [OF call] triple_sum log)
      (simp_all add: split_beta CompleteJob_db_ok remaining_CompleteJob)
qed

definition exhausted :: "world \<Rightarrow> runner \<Rightarrow> proc \<Rightarrow> bool" where
  "exhausted w r s \<longleftrightarrow> (\<exists>k. p_calls s = Suc k \<and>
     picked (w_locked w k) (w_now w k) (if rn_queue r = [] then ''default'' else rn_queue r) (p_db s) = [])"

lemma ClaimJob_outcome:
  assumes "db_ok d"
  shows "case ClaimJob locked now gid t queue w lease net d of
      (Inl e, d') \<Rightarrow> True
    | (Inr None, d') \<Rightarrow> d' = d \<and> picked locked now (if queue = [] then ''default'' else queue) d = []
    | (Inr (Some x), d') \<Rightarrow> db_ok d' \<and> remaining d' < remaining d"
proof -
  obtain c d' where run: "ClaimJob locked now gid t queue w lease net d = (c, d')" by fastforce
  show ?thesis
  proof (cases c)
    case (Inl e)
    then show ?thesis using run by simp
  next
    case (Inr x)
    note commit = claim.success [OF run [unfolded Inr]]
    show ?thesis
    proof (cases x)
      case None
      then show ?thesis using commit run Inr by (simp add: claim_commit_def)
    next
      case (Some y)
      then show ?thesis
        using commit run Inr claim_commit_remaining [OF assms] ClaimJob_db_ok [OF assms] by (metis (no_types, lifting) case_prod_conv
            old.sum.simps(6) option.case(2) snd_conv)
    qed
  qed
qed

lemma drain_run:
  assumes "quiet w" and "db_ok (p_db s)" and "remaining (p_db s) < n"
    and "run_state (drain w pd since cancelled r sl n) s = (out, s')"
  shows "\<exists>res. out = Some res \<and> (res = None \<and> (\<forall>k. \<not> cancelled k) \<longrightarrow> exhausted w r s')"
  using assms(2-4)
proof (induction n arbitrary: s)
  case (Suc n)
  let ?k = "p_calls s" and ?d = "p_db s"
  obtain c d1 where claim: "ClaimJob (w_locked w ?k) (w_now w ?k) (w_ids w ?k 0) (w_ids w ?k 1) (rn_queue r)
      (rn_worker_id r) (rn_lease r) (w_net w ?k) ?d = (c, d1)" by fastforce
  let ?s1 = "s\<lparr>p_db := d1, p_calls := Suc ?k\<rparr>"
  have quiet: "w_others w ?k ?d = ?d" using assms(1) by (simp add: quiet_def)
  have call: "run_state (store_call w (\<lambda>k. ClaimJob (w_locked w k) (w_now w k) (w_ids w k 0) (w_ids w k 1) (rn_queue r)
      (rn_worker_id r) (rn_lease r) (w_net w k))) s = (c, ?s1)"
    using claim by (simp add: store_call_def Let_def quiet)
  note outcome = ClaimJob_outcome [OF Suc.prems(1), where locked = "w_locked w ?k" and now = "w_now w ?k" and gid = "w_ids w ?k 0"
      and t = "w_ids w ?k 1" and queue = "rn_queue r" and w = "rn_worker_id r" and lease = "rn_lease r" and net = "w_net w ?k",
      unfolded claim]
  show ?case
  proof (cases c)
    case (Inl e)
    then show ?thesis using Suc.prems(3) call by auto
  next
    case (Inr x)
    show ?thesis
    proof (cases x)
      case None
      then have "out = Some None" "s' = ?s1" using Suc.prems(3) call Inr by auto
      moreover have "exhausted w r ?s1" using outcome Inr None by (auto simp: exhausted_def)
      ultimately show ?thesis by simp
    next
      case (Some cl)
      obtain u s2 where ex: "run_state (execute w pd since r cl sl) ?s1 = (u, s2)" by (rule prod.exhaust)
      have "db_ok d1" "remaining d1 < remaining ?d" using outcome Inr Some by simp_all
      then have s2: "db_ok (p_db s2)" "remaining (p_db s2) \<le> remaining d1"
        using tripleD [OF execute_remaining [OF assms(1), where m = "remaining d1"] _ ex]
        by simp_all
      show ?thesis
      proof (cases "cancelled (p_calls s2)")
        case True
        then show ?thesis using Suc.prems(3) call Inr Some ex by (auto simp: moment_def)
      next
        case False
        then have "run_state (drain w pd since cancelled r sl n) s2 = (out, s')"
          using Suc.prems(3) call Inr Some ex by (simp add: moment_def)
        then show ?thesis using Suc.IH [OF s2(1)] s2(2) \<open>remaining d1 < remaining ?d\<close> Suc.prems(2) by simp
      qed
    qed
  qed
qed simp

section \<open>The outcome of an execution\<close>

text \<open>The rows that the outcome of the handler asks for.\<close>

definition outcome_set :: "instant \<Rightarrow> retry_policy \<Rightarrow> job \<Rightarrow> handler_error option \<Rightarrow> job \<Rightarrow> job" where
  "outcome_set now policy j res =
     (case res of
        None \<Rightarrow> complete_set now
      | Some e \<Rightarrow> fail_set now (DelayForAttempt (Normalize policy) (job_attempt_count j)) (failure_message e) j)"

definition outcome_attempt :: "instant \<Rightarrow> handler_error option \<Rightarrow> attempt \<Rightarrow> attempt" where
  "outcome_attempt now res = (case res of None \<Rightarrow> attempt_succeed now | Some e \<Rightarrow> attempt_fail now (failure_message e))"

lemma execute_run:
  assumes q: "quiet w" and net: "\<And>k. w_net w k = all_served" and d: "db_ok d" and j: "j \<in> set (jobs d)" "job_fenced (job_id job) t j"
    and t: "job_lease_token job = Some t"
    and d1: "d1 = close_lease (job_id job) t (outcome_set (w_now w (Suc k0)) (rn_policy r) j (runHandler pd job))
      (outcome_attempt (w_now w (Suc k0)) (runHandler pd job)) d"
  shows "triple (\<lambda>s. p_db s = d \<and> p_calls s = k0) (execute w pd since r (job, a) sl)
    (\<lambda>_ s. jobs (p_db s) = jobs d1 \<and> attempts (p_db s) = attempts d1)"
proof -
  let ?R = "\<lambda>n s. db_ok (p_db s) \<and> jobs (p_db s) = jobs d \<and> attempts (p_db s) = attempts d \<and> p_calls s = n"
  let ?Q = "\<lambda>s. jobs (p_db s) = jobs d1 \<and> attempts (p_db s) = attempts d1"
  have log: "triple (?R k0) (worker_log w r job a level message fs) (\<lambda>_. ?R (Suc k0))" for level message fs
    unfolding worker_log_def append_log_call_def
    by (rule triple_bind [OF triple_numbered_call [OF q, where R = "\<lambda>d' k. db_ok d' \<and> jobs d' = jobs d \<and> attempts d' = attempts d \<and> k = k0"
          and Q = "\<lambda>_ d' k. db_ok d' \<and> jobs d' = jobs d \<and> attempts d' = attempts d \<and> k = Suc k0"] triple_return])
      (simp_all add: split_beta AppendJobLog_db_ok AppendJobLog_jobs)
  have last: "triple ?Q (worker_log w r job a level message fs) (\<lambda>_. ?Q)" for level message fs
    unfolding worker_log_def append_log_call_def
    by (rule triple_bind [OF triple_quiet_call [OF q, where R = "\<lambda>d'. jobs d' = jobs d1 \<and> attempts d' = attempts d1"
          and Q = "\<lambda>_ d'. jobs d' = jobs d1 \<and> attempts d' = attempts d1"] triple_return])
      (simp_all add: split_beta AppendJobLog_jobs)
  note silent = triple_silent [where R = "\<lambda>d'. jobs d' = jobs d1 \<and> attempts d' = attempts d1"]
  note numbered = triple_numbered_silent [where R = "\<lambda>d' n. db_ok d' \<and> jobs d' = jobs d \<and> attempts d' = attempts d \<and> n = k" for k]
  have close: "jobs (close_lease i u f g e) = jobs (close_lease i u f g d)" "attempts (close_lease i u f g e) = attempts (close_lease i u f g d)"
    if "jobs e = jobs d" "attempts e = attempts d" for i u f g e using that by (simp_all add: close_lease_def)
  have lease: "holds_lease d (job_id job) t" using j by (auto simp: holds_lease_def list_ex_iff)
  have held: "holds_lease e (job_id job) t" if "jobs e = jobs d" for e using lease that by (simp add: holds_lease_def)
  have fail: "triple (?R (Suc k0)) (fail_job w r job a (failure_message e) dur sl) (\<lambda>_. ?Q)"
    if e: "runHandler pd job = Some e" for e dur
    unfolding fail_job_def t option.case
  proof (rule triple_bind [OF triple_numbered_call [OF q, where R = "\<lambda>d' k. db_ok d' \<and> jobs d' = jobs d \<and> attempts d' = attempts d \<and> k = Suc k0"
          and Q = "\<lambda>_ d' k. jobs d' = jobs d1 \<and> attempts d' = attempts d1"]], goal_cases)
    case (1 k e')
    then have "db_ok e'" "j \<in> set (jobs e')" using j(1) by simp_all
    note served = FailJob_served [OF this j(2)]
    have e': "jobs e' = jobs d" "attempts e' = attempts d" "k = Suc k0" using 1 by simp_all
    show ?case unfolding net served case_prod_conv
      by (simp add: close [OF e'(1,2)] e'(3) d1 e outcome_set_def outcome_attempt_def)
  next
    case (2 res)
    show ?case by (intro triple_sum triple_return triple_bind [OF silent(2)] last) simp
  qed
  have complete: "triple (?R (Suc k0)) (store_call w (\<lambda>k. CompleteJob (w_now w k) (job_id job) t (w_net w k))) (\<lambda>_. ?Q)"
    if e: "runHandler pd job = None"
  proof (rule triple_numbered_call [OF q, where R = "\<lambda>d' k. db_ok d' \<and> jobs d' = jobs d \<and> attempts d' = attempts d \<and> k = Suc k0"
          and Q = "\<lambda>_ d' k. jobs d' = jobs d1 \<and> attempts d' = attempts d1"], goal_cases)
    case (1 k e')
    then have e': "db_ok e'" "jobs e' = jobs d" "attempts e' = attempts d" "k = Suc k0" by simp_all
    show ?case
      by (simp add: net CompleteJob_served [OF e'(1)] held [OF e'(2)] close [OF e'(2,3)] e'(4) d1 e outcome_set_def
          outcome_attempt_def)
  qed
  have body: "triple (?R k0) (execute w pd since r (job, a) sl) (\<lambda>_. ?Q)"
    unfolding execute_def Let_def fst_conv snd_conv t option.case
  proof (rule triple_bind [OF numbered(1)], rule triple_bind [OF numbered(2)], rule triple_bind [OF log],
      rule triple_bind [OF numbered(1)], rule triple_option, goal_cases)
    case 1
    then show ?case by (intro triple_bind [OF complete] triple_sum triple_return triple_bind [OF silent(1)] triple_bind [OF silent(2)] last) simp_all
  next
    case 2
    then show ?case by (rule fail)
  qed
  show ?thesis by (rule triple_conseq [OF body]) (use d in simp_all)
qed

section \<open>A claim whose answer is lost\<close>

text \<open>
  Rounds of a scheduler's recovery at \<open>tr\<close> and a heartbeat of the worker at \<open>tb\<close>; \<open>timely\<close> says that no
  recovery comes after the end of the lease, as the last heartbeat set it.
\<close>

fun rounds :: "string \<Rightarrow> duration \<Rightarrow> (instant \<times> instant) list \<Rightarrow> db \<Rightarrow> db" where
  "rounds w lease [] d = d"
| "rounds w lease ((tr, tb) # xs) d = rounds w lease xs (snd (HeartbeatWorker tb w ''running'' lease all_served
     (snd (RecoverExpiredJobs {} tr 50 ''job lease expired'' all_served d))))"

fun timely :: "duration \<Rightarrow> instant \<Rightarrow> (instant \<times> instant) list \<Rightarrow> bool" where
  "timely lease until [] \<longleftrightarrow> True"
| "timely lease until ((tr, tb) # xs) \<longleftrightarrow> tr < until \<and> timely lease (tb + intervalLiteral lease) xs"

definition held_by :: "string \<Rightarrow> uuid \<Rightarrow> instant \<Rightarrow> db \<Rightarrow> bool" where
  "held_by w t until d \<longleftrightarrow> db_ok d \<and> w \<in> wk_id ` set (workers d) \<and>
     (\<exists>j \<in> set (jobs d). job_lease_token j = Some t \<and> leased_by w j \<and> job_locked_until j = Some until)"

lemma workers_recover: "workers (fold (recover_step now m) js d) = workers d"
  by (induction js arbitrary: d) (simp_all add: recover_step_def close_lease_def split: option.split)

lemma held_by_recover:
  assumes h: "held_by w t until d" and "now < until"
  shows "held_by w t until (snd (RecoverExpiredJobs locked now batch m net d))"
  using recover.effect [of locked now batch m net d]
proof
  assume "\<exists>rs. recover_commit locked now batch (if m = [] then ''job lease expired'' else m) d rs
      (snd (RecoverExpiredJobs locked now batch m net d))"
  then obtain m' where d': "snd (RecoverExpiredJobs locked now batch m net d) =
      fold (recover_step now m') (expired_jobs locked now batch d) d" by (auto simp: recover_commit_def)
  have ok: "db_ok d" using h by (simp add: held_by_def)
  obtain j where j: "j \<in> set (jobs d)" "job_lease_token j = Some t" "leased_by w j" "job_locked_until j = Some until"
    using h by (auto simp: held_by_def)
  note facts = expired_jobs_facts [OF ok, of locked now batch]
  have "j \<notin> set (expired_jobs locked now batch d)" using facts(1) j(4) assms(2) by (auto simp: lease_expired_def)
  moreover have "\<forall>j \<in> set (expired_jobs locked now batch d). j \<in> set (jobs d) \<and> job_status j = Running" using facts(1) by blast
  note b = recover_fold [OF ok this facts(2), of now m']
  ultimately have "j \<in> set (jobs (snd (RecoverExpiredJobs locked now batch m net d)))"
    using j(1) by (auto simp: d' b image_iff intro!: bexI [of _ j])
  then show ?thesis using j(2-4) h b unfolding held_by_def d' by (auto simp: workers_recover)
qed (use h in simp)

lemma HeartbeatWorker_served:
  assumes "db_ok d" and "w \<in> wk_id ` set (workers d)" and "TrimSpace w \<noteq> []" and "0 < lease"
  shows "\<exists>d'. HeartbeatWorker now w ''running'' lease all_served d = (Inr (), d')"
proof -
  have "distinct (map wk_id (workers d))" using assms(1) by (simp add: db_ok_def workers_ok_def)
  then have "affected (\<lambda>x. wk_id x = w) (workers d) \<le> 1" by (rule affected_key_le_1) simp
  moreover have "affected (\<lambda>x. wk_id x = w) (workers d) \<noteq> 0" using assms(2) by (subst affected_pos) auto
  ultimately have "affected (\<lambda>x. wk_id x = w) (workers d) = 1" by simp
  moreover have "worker_status_of ''running'' = Some WorkerRunning" by code_simp
  ultimately show ?thesis
    using assms(2-4) by (simp add: HeartbeatWorker_def run_tx_def tx_bind_def sql_def set_worker_status_def
        exec_jobs_def tx_return_def)
qed

lemma held_by_beat:
  assumes h: "held_by w t until d" and w: "TrimSpace w \<noteq> []" and l: "0 < lease"
  shows "held_by w t (now + intervalLiteral lease) (snd (HeartbeatWorker now w ''running'' lease all_served d))"
proof -
  have ok: "db_ok d" "w \<in> wk_id ` set (workers d)" using h by (simp_all add: held_by_def)
  obtain d' where run: "HeartbeatWorker now w ''running'' lease all_served d = (Inr (), d')"
    using HeartbeatWorker_served [OF ok w l] by blast
  have d': "workers d' = update_rows (\<lambda>x. wk_id x = w) (beat now s) (workers d)"
      "jobs d' = update_rows (leased_by w) (extend_lease now lease) (jobs d)" if "worker_status_of ''running'' = Some s" for s
    using heartbeat.success [OF run] l that by (auto simp: beat_commit_def)
  have s: "worker_status_of ''running'' = Some WorkerRunning" by code_simp
  obtain j where j: "j \<in> set (jobs d)" "job_lease_token j = Some t" "leased_by w j" using h by (auto simp: held_by_def)
  have "extend_lease now lease j \<in> set (jobs d')" using j(1,3) by (auto simp: d'(2) [OF s] set_update_rows)
  moreover have "job_lease_token (extend_lease now lease j) = Some t" "leased_by w (extend_lease now lease j)"
      "job_locked_until (extend_lease now lease j) = Some (now + intervalLiteral lease)"
    using j(2,3) by (simp_all add: extend_lease_def leased_by_def)
  moreover have "wk_id ` set (workers d') = wk_id ` set (workers d)"
    unfolding d'(1) [OF s] by (rule image_update_rows) (simp add: beat_def)
  moreover have "db_ok d'" using HeartbeatWorker_db_ok [OF ok(1)] run by (metis snd_conv)
  ultimately have "held_by w t (now + intervalLiteral lease) d'"
    using ok(2) unfolding held_by_def by (intro conjI bexI [of _ "extend_lease now lease j"]) simp_all
  then show ?thesis by (simp add: run)
qed

lemma held_by_rounds:
  assumes "TrimSpace w \<noteq> []" and "0 < lease"
  shows "held_by w t until d \<Longrightarrow> timely lease until xs \<Longrightarrow> \<exists>u. held_by w t u (rounds w lease xs d)"
proof (induction xs arbitrary: d until)
  case (Cons x xs)
  obtain tr tb where x: "x = (tr, tb)" by (rule prod.exhaust)
  have "held_by w t (tb + intervalLiteral lease) (snd (HeartbeatWorker tb w ''running'' lease all_served
      (snd (RecoverExpiredJobs {} tr 50 ''job lease expired'' all_served d))))"
    by (rule held_by_beat [OF held_by_recover [OF Cons.prems(1)] assms]) (use Cons.prems(2) x in simp)
  then show ?case using Cons x by simp
qed auto

section \<open>Properties\<close>

text \<open>
  C11. Every execution settles its attempt. When \<open>execute\<close> returns, with every call answered, the
  attempt that it was given is finished, whatever the handler did and whatever the other clients did
  meanwhile: recovery, retries, other workers, any sequence of store operations before each call.
\<close>

theorem execute_settles:
  assumes "fair w" and "\<forall>k. w_net w k = all_served" and "store_step\<^sup>*\<^sup>* empty_db (p_db s)"
    and "a \<in> set (attempts (p_db s))" and "job_id job = att_job_id a" and "job_lease_token job = Some (att_lease_token a)"
  shows "\<exists>b \<in> set (attempts (p_db (snd (run_state (execute w pd since r (job, a) sl) s)))).
    att_id b = att_id a \<and> att_status b \<noteq> AttemptRunning"
proof -
  have "db_ok (p_db s)" by (rule store.good_run [OF assms(3) db_ok_empty])
  moreover have "opened a (p_db s)" using assms(4) by (auto simp: opened_def)
  ultimately have "inv (opened a) s" by simp
  obtain u s' where run: "run_state (execute w pd since r (job, a) sl) s = (u, s')" by (rule prod.exhaust)
  have "inv (settled a) s'"
    by (rule tripleD [OF execute_triple _ run]) (use assms \<open>inv (opened a) s\<close> in simp_all)
  then show ?thesis using run by (auto simp: settled_def finished_def)
qed

definition sample_payloads :: payloads where
  "sample_payloads = \<lparr>pd_map = (\<lambda>s. True), pd_message = (\<lambda>s. Some []), pd_duration_ms = (\<lambda>s. Some 0),
     pd_timer_first = (\<lambda>s d. True)\<rparr>"

definition sample_runner :: runner where
  "sample_runner = NewRunner ''default'' ''w'' 1 30000000000 1000000000 0 \<lparr>rp_initial_delay = 0, rp_max_delay = 0\<rparr> None"

theorem execute_settles_witness:
  "\<exists>b \<in> set (attempts (p_db (snd (run_state (execute sample_world sample_payloads (\<lambda>k i. 5) sample_runner
      (hd (jobs claimed_sample), hd (attempts claimed_sample)) 1) \<lparr>p_db = claimed_sample, p_calls = 0, p_events = []\<rparr>)))).
     att_id b = 1 \<and> att_status b \<noteq> AttemptRunning"
proof -
  have c: "map (\<lambda>j. (job_id j, job_lease_token j)) (jobs claimed_sample) = [(7, Some 9)]"
      "map (\<lambda>a. (att_id a, att_job_id a, att_lease_token a)) (attempts claimed_sample) = [(1, 7, 9)]"
    by code_simp+
  then obtain j a where "jobs claimed_sample = [j]" "job_id j = 7" "job_lease_token j = Some 9"
      "attempts claimed_sample = [a]" "att_id a = 1" "att_job_id a = 7" "att_lease_token a = 9"
    by (auto simp: map_eq_Cons_conv)
  then show ?thesis
    using execute_settles [OF sample_world_quiet(2), of "\<lparr>p_db = claimed_sample, p_calls = 0, p_events = []\<rparr>" a j]
      sample_run(2) sample_world_quiet(3) by simp
qed

text \<open>
  C21. What an execution does to the store. Undisturbed and answered, \<open>execute\<close> rewrites the claimed
  job and closes its running attempt exactly as the handler's result asks, by the clock of its second
  call: completion when the handler returns without an error, otherwise a reschedule with backoff or
  the dead letters, with the handler's message (\<open>job timed out\<close> after a deadline). The two log entries
  change no job and no attempt, whether or not they are accepted.
\<close>

theorem execute_outcome:
  assumes "quiet w" and "\<forall>k. w_net w k = all_served" and "db_ok (p_db s)" and "j \<in> set (jobs (p_db s))"
    and "job_fenced (job_id job) t j" and "job_lease_token job = Some t"
    and "now = w_now w (Suc (p_calls s))" and "d' = p_db (snd (run_state (execute w pd since r (job, a) sl) s))"
  shows "jobs d' = map (\<lambda>k. if job_id k = job_id job then
      (case runHandler pd job of
         None \<Rightarrow> complete_set now k
       | Some e \<Rightarrow> fail_set now (DelayForAttempt (Normalize (rn_policy r)) (job_attempt_count j)) (failure_message e) j k)
      else k) (jobs (p_db s)) \<and>
    attempts d' = map (\<lambda>b. if attempt_fenced (job_id job) t b then
      (case runHandler pd job of None \<Rightarrow> attempt_succeed now b | Some e \<Rightarrow> attempt_fail now (failure_message e) b)
      else b) (attempts (p_db s))"
proof -
  obtain u s' where run: "run_state (execute w pd since r (job, a) sl) s = (u, s')" by (rule prod.exhaust)
  have "jobs (p_db s') = jobs (close_lease (job_id job) t (outcome_set now (rn_policy r) j (runHandler pd job))
        (outcome_attempt now (runHandler pd job)) (p_db s)) \<and>
      attempts (p_db s') = attempts (close_lease (job_id job) t (outcome_set now (rn_policy r) j (runHandler pd job))
        (outcome_attempt now (runHandler pd job)) (p_db s))"
    by (rule tripleD [OF execute_run [OF assms(1) _ assms(3,4,5,6) refl, of "p_calls s"] _ run, folded assms(7)])
      (use assms(2) in simp_all)
  then show ?thesis
    using run by (cases "runHandler pd job")
      (simp_all add: assms(8) close_lease_def update_rows_def outcome_set_def outcome_attempt_def)
qed

theorem execute_outcome_witness:
  "map job_status (jobs (p_db (snd (run_state (execute sample_world sample_payloads (\<lambda>k i. 5) sample_runner
      (hd (jobs claimed_sample), hd (attempts claimed_sample)) 1) \<lparr>p_db = claimed_sample, p_calls = 0, p_events = []\<rparr>)))) =
     [RetryScheduled]"
proof -
  have "map (\<lambda>j. (job_id j, job_lease_token j, job_status j, runHandler sample_payloads j, job_attempt_count j < normalizedMaxAttempts (job_max_attempts j)))
      (jobs claimed_sample) = [(7, Some 9, Running, Some (HandlerError ''unknown job type: email''), True)]"
    by code_simp
  then obtain j where j: "jobs claimed_sample = [j]" "job_id j = 7" "job_lease_token j = Some 9" "job_status j = Running"
      "runHandler sample_payloads j = Some (HandlerError ''unknown job type: email'')"
      "job_attempt_count j < normalizedMaxAttempts (job_max_attempts j)"
    by (auto simp: map_eq_Cons_conv)
  have "db_ok claimed_sample" by (rule store.good_run [OF sample_run(2) db_ok_empty])
  then show ?thesis
    using execute_outcome [OF sample_world_quiet(1), of "\<lparr>p_db = claimed_sample, p_calls = 0, p_events = []\<rparr>" j j 9 _ _
        sample_payloads "\<lambda>k i. 5" sample_runner "hd (attempts claimed_sample)" 1, OF _ _ _ _ _ refl refl] j sample_world_quiet(3)
    by (simp add: job_fenced_def fail_set_def reschedule_set_def)
qed

text \<open>
  C12. Draining ends, and ends with an empty queue. Undisturbed, the drain loop returns after at most as
  many claims as the jobs have attempts left, under any behaviour of the network and of the handlers;
  and when it returns without an error and was not cancelled, no job of the queue is due that the last
  claim could have taken.
\<close>

theorem drain_returns:
  assumes "quiet w" and "db_ok (p_db s)" and "remaining (p_db s) < n"
  shows "\<exists>res. fst (run_state (drain w pd since cancelled r sl n) s) = Some res \<and>
    (res = None \<and> (\<forall>k. \<not> cancelled k) \<longrightarrow>
      (let s' = snd (run_state (drain w pd since cancelled r sl n) s); k = p_calls s' - 1
       in \<forall>j \<in> set (jobs (p_db s')). claim_due (w_now w k) (if rn_queue r = [] then ''default'' else rn_queue r) j \<longrightarrow>
            job_id j \<in> w_locked w k))"
proof -
  obtain out s' where run: "run_state (drain w pd since cancelled r sl n) s = (out, s')" by (rule prod.exhaust)
  show ?thesis
    using drain_run [OF assms run] unfolding run fst_conv snd_conv exhausted_def picked_none Let_def by fastforce
qed

theorem drain_returns_witness:
  "\<exists>res. fst (run_state (drain sample_world sample_payloads (\<lambda>k i. 5) (\<lambda>k. False) sample_runner 1 4)
     \<lparr>p_db = sample_db, p_calls = 0, p_events = []\<rparr>) = Some res"
proof -
  have "remaining sample_db < 4" by (simp add: remaining_def sample_db_def empty_db_def sample_job_def job_remaining_def normalizedMaxAttempts_def)
  then show ?thesis
    using drain_returns [OF sample_world_quiet(1), where s = "\<lparr>p_db = sample_db, p_calls = 0, p_events = []\<rparr>" and n = 4 and r = sample_runner
        and pd = sample_payloads and since = "\<lambda>k i. 5" and cancelled = "\<lambda>k. False" and sl = 1] sample_db_ok by auto
qed

text \<open>
  A lost answer strands the job. When the answer to a claim that the database committed is lost,
  the worker sees an error and runs nothing; but its heartbeats extend every lease in its name, so the
  job stays running under a token that nobody holds: no recovery takes it, in any number of rounds,
  as long as the worker lives and beats before its leases run out.
\<close>

lemma lost_claim_stays_running:
  assumes "db_ok d" and "ClaimJob locked now gid t queue w lease net d = (Inl e, d1)" and "d1 \<noteq> d"
    and "w \<in> wk_id ` set (workers d)" and "TrimSpace w \<noteq> []" and "0 < lease"
    and "timely lease (now + intervalLiteral lease) xs"
  shows "\<exists>j \<in> set (jobs (rounds w lease xs d1)). job_status j = Running \<and> job_lease_token j = Some t \<and> job_locked_by j = Some w"
proof -
  let ?q = "if queue = [] then ''default'' else queue"
  have w: "w \<noteq> []" using assms(5) by auto
  obtain a where c: "claim_commit locked now gid t ?q w lease d a d1"
    using claim.outcome [OF assms(2)] assms(3) w by auto
  have "held_by w t (now + intervalLiteral lease) d1"
    using assms(1) c
  proof (cases rule: claim_commit_cases)
    case (claimed j b)
    have "claim_set now w lease t j \<in> set (jobs d1)" using claimed(2,9) by (auto simp: set_update_rows)
    then show ?thesis
      using claim_commit_db_ok [OF assms(1) c] assms(4) claimed(9)
      by (auto simp: held_by_def leased_by_def claim_set_def intro!: bexI [of _ "claim_set now w lease t j"])
  qed (use assms(3) in simp)
  then obtain u where "held_by w t u (rounds w lease xs d1)"
    using held_by_rounds [OF assms(5,6)] assms(7) by blast
  then show ?thesis by (auto simp: held_by_def leased_by_def)
qed

definition lost_ack :: net where
  "lost_ack n = (if n = 3 then AckLost else Served)"

definition idle_db :: db where
  "idle_db = sample_db\<lparr>workers := workers busy_db\<rparr>"

lemma lost_claim_stays_running_witness:
  "\<exists>j \<in> set (jobs (rounds ''w'' 30000000000 [(20000000000, 20000000001), (40000000000, 40000000001)]
      (snd (ClaimJob {} 200 1 9 ''default'' ''w'' 30000000000 lost_ack idle_db)))). job_status j = Running"
proof -
  have ok: "db_ok idle_db" using sample_db_ok by (simp add: idle_db_def db_ok_def workers_ok_def busy_db_def sample_db_def empty_db_def running_db_def)
  have w: "TrimSpace ''w'' = ''w''" by code_simp
  have "isl (fst (ClaimJob {} 200 1 9 ''default'' ''w'' 30000000000 lost_ack idle_db))"
    "length (attempts (snd (ClaimJob {} 200 1 9 ''default'' ''w'' 30000000000 lost_ack idle_db))) = 1"
    by code_simp+
  moreover have none: "attempts idle_db = []" by (simp add: idle_db_def sample_db_def empty_db_def)
  ultimately obtain e d1 where "ClaimJob {} 200 1 9 ''default'' ''w'' 30000000000 lost_ack idle_db = (Inl e, d1)" "length (attempts d1) = 1"
    by (cases "ClaimJob {} 200 1 9 ''default'' ''w'' 30000000000 lost_ack idle_db") (auto simp: isl_def)
  with none have run: "ClaimJob {} 200 1 9 ''default'' ''w'' 30000000000 lost_ack idle_db = (Inl e, d1)" "d1 \<noteq> idle_db"
    by auto
  have "''w'' \<in> wk_id ` set (workers idle_db)" by (simp add: idle_db_def busy_db_def)
  then show ?thesis
    using lost_claim_stays_running [OF ok run, of "[(20000000000, 20000000001), (40000000000, 40000000001)]"] run w
    by (auto simp: intervalLiteral_def)
qed

end
