(* ===== verification/WorkerPool.thy ===== *)
theory WorkerPool
  imports Worker
begin

text \<open>
  The goroutines of \<open>Runner.Run\<close> in \<open>worker.go\<close> as a state machine: the main goroutine, the heartbeat
  loop, the work loops of the slots, and the NATS callback that wakes them. Every step is one
  goroutine's, so the runs are all interleavings. A call to the store that is cancelled before it
  starts fails; one that is under way when its context is cancelled may still be carried out.
\<close>

section \<open>State\<close>

text \<open>Where the main goroutine is in \<open>Run\<close>.\<close>

datatype main_pc =
    MainStart | MainRegistered | MainRunning | MainStored | MainMarked | MainWaiting | MainStopping | MainDone | MainFailed

text \<open>A work loop: claiming (begun before the context was cancelled or not), executing, selecting, gone.\<close>

datatype slot_pc = SlotClaim bool | SlotRun | SlotSelect | SlotExit

text \<open>The heartbeat loop: before the load of the status, in the call (begun in time or not), gone.\<close>

datatype beat_pc = BeatReady | BeatCall worker_status bool | BeatExit

record pool =
  pl_main :: main_pc
  pl_status :: worker_status
  pl_accepting :: bool
  pl_beating :: bool
  pl_wake :: nat
  pl_slots :: "slot_pc list"
  pl_beat :: beat_pc
  pl_row :: "worker_status option"

definition pool_init :: pool where
  "pool_init = \<lparr>pl_main = MainStart, pl_status = WorkerRunning, pl_accepting = True, pl_beating = True, pl_wake = 0,
     pl_slots = [], pl_beat = BeatExit, pl_row = None\<rparr>"

text \<open>The life of a worker as an order: the order of the constructors.\<close>

fun worker_rank :: "worker_status \<Rightarrow> nat" where
  "worker_rank WorkerStarting = 0"
| "worker_rank WorkerRunning = 1"
| "worker_rank WorkerDraining = 2"
| "worker_rank WorkerStopped = 3"

lemma worker_rank_inj: "worker_rank x = worker_rank y \<Longrightarrow> x = y"
  by (cases x; cases y) simp_all

instantiation worker_status :: linorder
begin

definition less_eq_worker_status :: "worker_status \<Rightarrow> worker_status \<Rightarrow> bool" where
  "less_eq_worker_status x y \<longleftrightarrow> worker_rank x \<le> worker_rank y"

definition less_worker_status :: "worker_status \<Rightarrow> worker_status \<Rightarrow> bool" where
  "less_worker_status x y \<longleftrightarrow> worker_rank x < worker_rank y"

instance
  by standard (auto simp: less_eq_worker_status_def less_worker_status_def intro: worker_rank_inj)

end

section \<open>Steps\<close>

inductive pool_step :: "nat \<Rightarrow> pool \<Rightarrow> pool \<Rightarrow> bool" for n :: nat where
  register: "pl_main s = MainStart \<Longrightarrow>
    pool_step n s (s\<lparr>pl_main := MainRegistered, pl_row := Some WorkerRunning\<rparr>)"
| register_fails: "pl_main s = MainStart \<Longrightarrow> row \<in> {pl_row s, Some WorkerRunning} \<Longrightarrow>
    pool_step n s (s\<lparr>pl_main := MainFailed, pl_row := row\<rparr>)"
| subscribe_fails: "pl_main s = MainRegistered \<Longrightarrow> pool_step n s (s\<lparr>pl_main := MainFailed\<rparr>)"
| launch: "pl_main s = MainRegistered \<Longrightarrow>
    pool_step n s (s\<lparr>pl_main := MainRunning, pl_status := WorkerRunning, pl_beat := BeatReady,
      pl_slots := replicate n (SlotClaim True), pl_wake := signalWake n n (pl_wake s)\<rparr>)"
| signal: "pl_main s \<notin> {MainStart, MainFailed} \<Longrightarrow> pool_step n s (s\<lparr>pl_wake := signalWake n n (pl_wake s)\<rparr>)"
| claimed: "i < length (pl_slots s) \<Longrightarrow> pl_slots s ! i = SlotClaim True \<Longrightarrow>
    pool_step n s (s\<lparr>pl_slots := (pl_slots s)[i := SlotRun]\<rparr>)"
| nothing: "i < length (pl_slots s) \<Longrightarrow> pl_slots s ! i = SlotClaim b \<Longrightarrow>
    pool_step n s (s\<lparr>pl_slots := (pl_slots s)[i := SlotSelect]\<rparr>)"
| executed: "i < length (pl_slots s) \<Longrightarrow> pl_slots s ! i = SlotRun \<Longrightarrow>
    pool_step n s (s\<lparr>pl_slots := (pl_slots s)[i := if pl_accepting s then SlotClaim True else SlotSelect]\<rparr>)"
| woken: "i < length (pl_slots s) \<Longrightarrow> pl_slots s ! i = SlotSelect \<Longrightarrow> 0 < pl_wake s \<Longrightarrow>
    pool_step n s (s\<lparr>pl_slots := (pl_slots s)[i := SlotClaim (pl_accepting s)], pl_wake := pl_wake s - 1\<rparr>)"
| ticked: "i < length (pl_slots s) \<Longrightarrow> pl_slots s ! i = SlotSelect \<Longrightarrow>
    pool_step n s (s\<lparr>pl_slots := (pl_slots s)[i := SlotClaim (pl_accepting s)]\<rparr>)"
| left: "i < length (pl_slots s) \<Longrightarrow> pl_slots s ! i = SlotSelect \<Longrightarrow> \<not> pl_accepting s \<Longrightarrow>
    pool_step n s (s\<lparr>pl_slots := (pl_slots s)[i := SlotExit]\<rparr>)"
| beat_load: "pl_beat s = BeatReady \<Longrightarrow> pool_step n s (s\<lparr>pl_beat := BeatCall (pl_status s) (pl_beating s)\<rparr>)"
| beat_write: "pl_beat s = BeatCall st True \<Longrightarrow> pool_step n s (s\<lparr>pl_beat := BeatReady, pl_row := Some st\<rparr>)"
| beat_fails: "pl_beat s = BeatCall st b \<Longrightarrow> pool_step n s (s\<lparr>pl_beat := BeatReady\<rparr>)"
| beat_exit: "pl_beat s = BeatReady \<Longrightarrow> \<not> pl_beating s \<Longrightarrow> pool_step n s (s\<lparr>pl_beat := BeatExit\<rparr>)"
| interrupted: "pl_main s = MainRunning \<Longrightarrow> pool_step n s (s\<lparr>pl_main := MainStored, pl_status := WorkerDraining\<rparr>)"
| mark_draining: "pl_main s = MainStored \<Longrightarrow> row \<in> {pl_row s, Some WorkerDraining} \<Longrightarrow>
    pool_step n s (s\<lparr>pl_main := MainMarked, pl_row := row\<rparr>)"
| stop_accepting: "pl_main s = MainMarked \<Longrightarrow> pool_step n s (s\<lparr>pl_main := MainWaiting, pl_accepting := False\<rparr>)"
| waited: "pl_main s = MainWaiting \<Longrightarrow> \<forall>p \<in> set (pl_slots s). p = SlotExit \<Longrightarrow>
    pool_step n s (s\<lparr>pl_main := MainStopping, pl_beating := False\<rparr>)"
| mark_stopped: "pl_main s = MainStopping \<Longrightarrow> row \<in> {pl_row s, Some WorkerStopped} \<Longrightarrow>
    pool_step n s (s\<lparr>pl_main := MainDone, pl_row := row\<rparr>)"

section \<open>The invariant\<close>

lemma signalWake_full: "b \<le> c \<Longrightarrow> signalWake c n b = min c (b + n)"
  by (induction n arbitrary: b) auto

text \<open>What holds at each place of the main goroutine.\<close>

fun accepts :: "main_pc \<Rightarrow> bool" where
  "accepts pc \<longleftrightarrow> pc \<notin> {MainWaiting, MainStopping, MainDone}"

fun beats :: "main_pc \<Rightarrow> bool" where
  "beats pc \<longleftrightarrow> pc \<notin> {MainStopping, MainDone}"

fun launched :: "main_pc \<Rightarrow> bool" where
  "launched pc \<longleftrightarrow> pc \<notin> {MainStart, MainRegistered, MainFailed}"

fun status_at :: "main_pc \<Rightarrow> worker_status" where
  "status_at pc = (if pc \<in> {MainStored, MainMarked, MainWaiting, MainStopping, MainDone} then WorkerDraining else WorkerRunning)"

definition pool_ok :: "nat \<Rightarrow> pool \<Rightarrow> bool" where
  "pool_ok n s \<longleftrightarrow> pl_wake s \<le> n \<and> length (pl_slots s) \<le> n \<and>
     pl_accepting s = accepts (pl_main s) \<and> pl_beating s = beats (pl_main s) \<and> pl_status s = status_at (pl_main s) \<and>
     (\<not> launched (pl_main s) \<longrightarrow> pl_slots s = [] \<and> pl_beat s = BeatExit) \<and>
     (\<not> beats (pl_main s) \<longrightarrow> (\<forall>p \<in> set (pl_slots s). p = SlotExit)) \<and>
     (pl_row s = Some WorkerStopped \<longrightarrow> pl_main s = MainDone) \<and>
     (\<forall>st b. pl_beat s = BeatCall st b \<longrightarrow> st \<noteq> WorkerStopped)"

lemma pool_ok_init: "pool_ok n pool_init"
  by (simp add: pool_ok_def pool_init_def)

lemma slot_gone: "\<forall>p \<in> set ps. p = SlotExit \<Longrightarrow> i < length ps \<Longrightarrow> ps ! i = SlotExit"
  by simp

lemma pool_ok_slot:
  assumes "pool_ok n s" and "i < length (pl_slots s)" and "pl_slots s ! i \<noteq> SlotExit"
  shows "pool_ok n (s\<lparr>pl_slots := (pl_slots s)[i := p]\<rparr>)"
proof -
  have "pl_slots s \<noteq> []" using assms(2) by auto
  then have "launched (pl_main s)" using assms(1) unfolding pool_ok_def by blast
  moreover have "beats (pl_main s)"
    using assms slot_gone [of "pl_slots s" i] unfolding pool_ok_def by blast
  ultimately show ?thesis using assms(1) by (simp add: pool_ok_def del: launched.simps beats.simps accepts.simps status_at.simps)
qed

lemma pool_ok_wake: "pool_ok n s \<Longrightarrow> k \<le> n \<Longrightarrow> pool_ok n (s\<lparr>pl_wake := k\<rparr>)"
  by (simp add: pool_ok_def del: launched.simps beats.simps accepts.simps status_at.simps)

lemma pool_ok_step: "pool_ok n s \<Longrightarrow> pool_step n s s' \<Longrightarrow> pool_ok n s'"
proof -
  assume ok: "pool_ok n s" and step: "pool_step n s s'"
  have wake: "pl_wake s - 1 \<le> n" "signalWake n n (pl_wake s) \<le> n" using ok by (auto simp: pool_ok_def signalWake_full)
  show ?thesis
    using step
  proof cases
    case (claimed i)
    then show ?thesis using pool_ok_slot [OF ok] by simp
  next
    case (nothing i b)
    then show ?thesis using pool_ok_slot [OF ok] by simp
  next
    case (executed i)
    then show ?thesis using pool_ok_slot [OF ok] by simp
  next
    case (woken i)
    then have "pool_ok n (s\<lparr>pl_slots := (pl_slots s)[i := SlotClaim (pl_accepting s)]\<rparr>)" using pool_ok_slot [OF ok] by simp
    from pool_ok_wake [OF this wake(1)] show ?thesis by (simp add: woken(1))
  next
    case (ticked i)
    then show ?thesis using pool_ok_slot [OF ok] by simp
  next
    case (left i)
    then show ?thesis using pool_ok_slot [OF ok] by simp
  next
    case signal
    then show ?thesis using pool_ok_wake [OF ok wake(2)] by simp
  next
    case launch
    then show ?thesis using ok wake(2) by (simp add: pool_ok_def)
  next
    case (beat_load)
    then show ?thesis using ok by (auto simp: pool_ok_def)
  next
    case (beat_write st)
    then show ?thesis using ok by (auto simp: pool_ok_def)
  qed (use ok in \<open>force simp: pool_ok_def\<close>)+
qed

interpretation pool: inductive_invariant "pool_step n" pool_init "pool_ok n" for n
  by unfold_locales (auto intro: pool_ok_init pool_ok_step)

lemma pool_step_status: "pool_ok n s \<Longrightarrow> pool_step n s s' \<Longrightarrow> pl_status s \<le> pl_status s'"
  by (erule pool_step.cases) (simp_all add: pool_ok_def less_eq_worker_status_def)

lemma no_new_claims:
  "pool_step n s s' \<Longrightarrow> \<not> pl_accepting s \<Longrightarrow> pool_ok n s \<Longrightarrow> i < length (pl_slots s') \<Longrightarrow> pl_slots s' ! i = SlotClaim True \<Longrightarrow>
    i < length (pl_slots s) \<and> pl_slots s ! i = SlotClaim True"
  by (erule pool_step.cases) (auto simp: nth_list_update pool_ok_def split: if_splits)

lemma status_run: "(pool_step n)\<^sup>*\<^sup>* s s' \<Longrightarrow> pool_ok n s \<Longrightarrow> pl_status s \<le> pl_status s'"
  by (rule pool.run_relation [of "\<lambda>s s'. pl_status s \<le> pl_status s'"]) (auto dest: pool_step_status)

section \<open>Properties\<close>

text \<open>
  C24. A worker stops gracefully. In every interleaving of the goroutines: the row says \<open>stopped\<close>, and
  \<open>Run\<close> returns, only when every slot has left its loop, so no job is executed by a worker that shows as
  stopped; once the worker drains, no slot begins a claim that can succeed; a signal fills the wake-up
  channel, so that every slot finds one, and never overfills it; the status that heartbeats report only
  moves forward.
\<close>

theorem worker_stops_gracefully:
  assumes "(pool_step n)\<^sup>*\<^sup>* pool_init s"
  shows "(pl_row s = Some WorkerStopped \<or> pl_main s = MainDone \<longrightarrow> (\<forall>p \<in> set (pl_slots s). p = SlotExit)) \<and>
    (pl_main s \<in> {MainWaiting, MainStopping, MainDone} \<longrightarrow> (\<forall>s' i. pool_step n s s' \<and> i < length (pl_slots s') \<and>
      pl_slots s' ! i = SlotClaim True \<longrightarrow> pl_slots s ! i = SlotClaim True)) \<and>
    pl_wake s \<le> n \<and> signalWake n n (pl_wake s) = n \<and> length (pl_slots s) \<le> n \<and>
    (\<forall>s'. (pool_step n)\<^sup>*\<^sup>* s s' \<longrightarrow> pl_status s \<le> pl_status s')"
proof -
  have ok: "pool_ok n s" by (rule pool.good_run [OF assms pool_ok_init])
  have "\<not> pl_accepting s" if "pl_main s \<in> {MainWaiting, MainStopping, MainDone}"
    using ok that by (auto simp: pool_ok_def)
  then have "\<forall>s' i. pool_step n s s' \<and> i < length (pl_slots s') \<and> pl_slots s' ! i = SlotClaim True \<longrightarrow>
      pl_slots s ! i = SlotClaim True" if "pl_main s \<in> {MainWaiting, MainStopping, MainDone}"
    using that no_new_claims [OF _ _ ok] by blast
  moreover have "signalWake n n (pl_wake s) = n" using ok by (simp add: pool_ok_def signalWake_full)
  moreover have "pl_row s = Some WorkerStopped \<or> pl_main s = MainDone \<longrightarrow> (\<forall>p \<in> set (pl_slots s). p = SlotExit)"
    using ok by (auto simp: pool_ok_def)
  ultimately show ?thesis using ok status_run [OF _ ok] by (auto simp: pool_ok_def)
qed

text \<open>A run with one slot, up to the point where the heartbeat has loaded its status.\<close>

definition running_pool :: pool where
  "running_pool = \<lparr>pl_main = MainRunning, pl_status = WorkerRunning, pl_accepting = True, pl_beating = True, pl_wake = 1,
     pl_slots = [SlotClaim True], pl_beat = BeatCall WorkerRunning True, pl_row = Some WorkerRunning\<rparr>"

lemma running_pool_reachable: "(pool_step 1)\<^sup>*\<^sup>* pool_init running_pool"
proof -
  let ?a = "pool_init\<lparr>pl_main := MainRegistered, pl_row := Some WorkerRunning\<rparr>"
  let ?b = "?a\<lparr>pl_main := MainRunning, pl_status := WorkerRunning, pl_beat := BeatReady,
      pl_slots := replicate 1 (SlotClaim True), pl_wake := signalWake 1 1 (pl_wake ?a)\<rparr>"
  have "pool_step 1 pool_init ?a" by (rule pool_step.register) (simp add: pool_init_def)
  moreover have "pool_step 1 ?a ?b" by (rule pool_step.launch) simp
  moreover have "pool_step 1 ?b (?b\<lparr>pl_beat := BeatCall (pl_status ?b) (pl_beating ?b)\<rparr>)"
    by (rule pool_step.beat_load) simp
  moreover have "?b\<lparr>pl_beat := BeatCall (pl_status ?b) (pl_beating ?b)\<rparr> = running_pool"
    by (simp add: pool_init_def running_pool_def)
  ultimately show ?thesis by (metis converse_rtranclp_into_rtranclp rtranclp.rtrancl_refl)
qed

theorem worker_stops_gracefully_witness: "signalWake 1 1 (pl_wake running_pool) = 1"
  using worker_stops_gracefully [OF running_pool_reachable] by simp

text \<open>
  A stopped worker can come back as running. \<open>Run\<close> does not wait for its heartbeat loop: a
  heartbeat that loaded \<open>running\<close> before the interrupt and is carried out last overwrites the row after
  it was marked as stopped, and nobody corrects it: the process is gone, its row says \<open>running\<close>, and it
  counts as an active worker of its queue.
\<close>

lemma stopped_worker_shown_running:
  "\<exists>s. (pool_step 1)\<^sup>*\<^sup>* pool_init s \<and> pl_main s = MainDone \<and> pl_row s = Some WorkerRunning \<and> pl_slots s = [SlotExit] \<and>
     pl_beating s = False"
proof -
  let ?s = running_pool
  let ?a = "?s\<lparr>pl_main := MainStored, pl_status := WorkerDraining\<rparr>"
  let ?b = "?a\<lparr>pl_main := MainMarked, pl_row := Some WorkerDraining\<rparr>"
  let ?c = "?b\<lparr>pl_main := MainWaiting, pl_accepting := False\<rparr>"
  let ?d = "?c\<lparr>pl_slots := (pl_slots ?c)[0 := SlotSelect]\<rparr>"
  let ?e = "?d\<lparr>pl_slots := (pl_slots ?d)[0 := SlotExit]\<rparr>"
  let ?f = "?e\<lparr>pl_main := MainStopping, pl_beating := False\<rparr>"
  let ?g = "?f\<lparr>pl_main := MainDone, pl_row := Some WorkerStopped\<rparr>"
  let ?h = "?g\<lparr>pl_beat := BeatReady, pl_row := Some WorkerRunning\<rparr>"
  have "pool_step 1 ?s ?a" by (rule pool_step.interrupted) (simp add: running_pool_def)
  moreover have "pool_step 1 ?a ?b" by (rule pool_step.mark_draining) simp_all
  moreover have "pool_step 1 ?b ?c" by (rule pool_step.stop_accepting) simp
  moreover have "pool_step 1 ?c ?d" by (rule pool_step.nothing [where b = True]) (simp_all add: running_pool_def)
  moreover have "pool_step 1 ?d ?e" by (rule pool_step.left) (simp_all add: running_pool_def)
  moreover have "pool_step 1 ?e ?f" by (rule pool_step.waited) (simp_all add: running_pool_def)
  moreover have "pool_step 1 ?f ?g" by (rule pool_step.mark_stopped) simp_all
  moreover have "pool_step 1 ?g ?h" by (rule pool_step.beat_write) (simp add: running_pool_def)
  ultimately have "(pool_step 1)\<^sup>*\<^sup>* ?s ?h" by (meson converse_rtranclp_into_rtranclp rtranclp.rtrancl_refl)
  with running_pool_reachable have "(pool_step 1)\<^sup>*\<^sup>* pool_init ?h" by (rule rtranclp_trans)
  then show ?thesis by (intro exI [of _ ?h]) (simp add: running_pool_def)
qed

end
