(* ===== verification/Scheduler.thy ===== *)
theory Scheduler
  imports Client
begin

text \<open>
  \<open>internal/scheduler/scheduler.go\<close>: the settings of a runner and one tick: fire the due cron jobs,
  recover the expired leases, and tell the workers about every queue that has work. The set of queues
  is a Go map; \<open>order\<close> is the order in which \<open>range\<close> visits it.
\<close>

section \<open>Definitions\<close>

record scheduler =
  sc_id :: string
  sc_interval :: duration
  sc_batch :: int
  sc_metrics :: "metrics option"

definition NewScheduler :: "string \<Rightarrow> duration \<Rightarrow> int \<Rightarrow> metrics option \<Rightarrow> scheduler" where
  "NewScheduler schedulerID interval batchSize m =
     \<lparr>sc_id = (if schedulerID = [] then ''scheduler-local'' else schedulerID),
      sc_interval = (if interval \<le> 0 then 2 * second else interval),
      sc_batch = (if batchSize \<le> 0 then 50 else batchSize),
      sc_metrics = (case m of None \<Rightarrow> Some (NewMetrics ''pulsequeue-scheduler'') | Some m \<Rightarrow> Some m)\<rparr>"

definition log_recovered :: "world \<Rightarrow> scheduler \<Rightarrow> job \<Rightarrow> unit cmd" where
  "log_recovered w r job = do {
     take_samples (RecordSchedulerRecovered (sc_metrics r) job);
     append_log_call w \<lparr>lp_job_id = job_id job, lp_attempt_id = None, lp_level = ''warn'',
       lp_message = ''job lease recovered'', lp_fields = mustJSON (addTraceFields (w_span w) [])\<rparr>;
     ret ()
   }"

definition signal_queue :: "world \<Rightarrow> scheduler \<Rightarrow> string \<Rightarrow> unit cmd" where
  "signal_queue w r queue = do {
     ok \<leftarrow> publish w queue;
     if ok then ret () else take_samples (RecordNATSPublishFailure (sc_metrics r) ''scheduler'' queue)
   }"

text \<open>The queues that the tick has seen work for.\<close>

definition queues_with_work :: "cron_fire list \<Rightarrow> job list \<Rightarrow> string list \<Rightarrow> string list" where
  "queues_with_work fires recovered due = remdups (map (\<lambda>f. job_queue (fire_job f)) fires @
     map job_queue (filter (\<lambda>j. job_status j = RetryScheduled \<or> job_status j = Queued) recovered) @ due)"

text \<open>\<open>tick\<close> returns its error, or None; \<open>tc\<close> is the trace context that it injects.\<close>

definition tick :: "world \<Rightarrow> (string list \<Rightarrow> string list) \<Rightarrow> trace_context \<Rightarrow> scheduler \<Rightarrow> error option cmd" where
  "tick w order tc r = do {
     res \<leftarrow> store_call w (\<lambda>k. FireDueCronJobs (w_jsonb w) (w_uuid_str w) (w_coll w) (w_locked w k) (w_now w k) (w_clock w k)
       (sc_id r) (sc_batch r) tc (\<lambda>i. (w_ids w k (3 * i), w_ids w k (3 * i + 1), w_ids w k (3 * i + 2))) (w_net w k));
     case res of
       Inl e \<Rightarrow> ret (Some e)
     | Inr fires \<Rightarrow> do {
         each_cmd (\<lambda>f. take_samples (RecordCronJobFired (sc_metrics r) (fire_job f))) fires;
         res \<leftarrow> store_call w (\<lambda>k. RecoverExpiredJobs (w_locked w k) (w_now w k) (sc_batch r) ''job lease expired'' (w_net w k));
         case res of
           Inl e \<Rightarrow> ret (Some e)
         | Inr recovered \<Rightarrow> do {
             each_cmd (log_recovered w r) recovered;
             res \<leftarrow> store_call w (\<lambda>k. ListDueQueues (w_coll w) (w_net w k) (w_now w k) (sc_batch r));
             case res of
               Inl e \<Rightarrow> ret (Some e)
             | Inr due \<Rightarrow> do {
                 each_cmd (signal_queue w r) (order (queues_with_work fires recovered due));
                 ret None
               }
           }
       }
   }"

text \<open>An iteration of \<open>Run\<close>: the tick and its metric.\<close>

definition run_tick :: "world \<Rightarrow> (string list \<Rightarrow> string list) \<Rightarrow> trace_context \<Rightarrow> scheduler \<Rightarrow> unit cmd" where
  "run_tick w order tc r = do {
     e \<leftarrow> tick w order tc r;
     take_samples (RecordSchedulerTick (sc_metrics r) (case e of Some _ \<Rightarrow> ''error'' | None \<Rightarrow> ''success''))
   }"

section \<open>Facts\<close>

lemma store_only_recovered [store_only_rules]: "fair w \<Longrightarrow> store_only (log_recovered w r job)"
  unfolding log_recovered_def by (intro store_only_rules)

lemma store_only_signal [store_only_rules]: "store_only (signal_queue w r q)"
  unfolding signal_queue_def by (intro store_only_rules)

lemma store_only_tick [store_only_rules]: "fair w \<Longrightarrow> store_only (tick w order tc r)"
  unfolding tick_def
  by (intro store_only_rules) (simp_all add: read_no_step store_step.fire store_step.recover)

lemma store_only_run_tick: "fair w \<Longrightarrow> store_only (run_tick w order tc r)"
  unfolding run_tick_def by (intro store_only_rules)

lemma signal_queue_run:
  "run_state (signal_queue w r q) s = (u, s') \<Longrightarrow> published s' = published s @ [q] \<and> p_db s' = p_db s \<and> p_calls s' = Suc (p_calls s)"
  by (auto simp: signal_queue_def publish_def take_samples_def Let_def published_def map_filter_def filter_empty_conv
      split: if_splits)

lemma signal_each_run:
  "run_state (each_cmd (signal_queue w r) qs) s = (u, s') \<Longrightarrow> 
    published s' = published s @ qs \<and> p_db s' = p_db s \<and> p_calls s' = p_calls s + length qs"
proof (induction qs arbitrary: s)
  case (Cons q qs)
  obtain v s1 where 1: "run_state (signal_queue w r q) s = (v, s1)" by (rule prod.exhaust)
  then show ?case using Cons.IH [of s1] Cons.prems signal_queue_run [OF 1] by simp
qed simp

lemma log_recovered_published: "run_state (log_recovered w r j) s = (u, s') \<Longrightarrow> published s' = published s"
  by (auto simp: log_recovered_def take_samples_def append_log_call_def store_call_def Let_def published_def map_filter_def
      filter_empty_conv split: prod.splits)

text \<open>The firing call of a tick that starts as call \<open>k\<close>, and its recovery call.\<close>

definition tick_fires :: "world \<Rightarrow> trace_context \<Rightarrow> scheduler \<Rightarrow> nat \<Rightarrow> db \<Rightarrow> cron_fire list result" where
  "tick_fires w tc r k = FireDueCronJobs (w_jsonb w) (w_uuid_str w) (w_coll w) (w_locked w k) (w_now w k) (w_clock w k)
     (sc_id r) (sc_batch r) tc (\<lambda>i. (w_ids w k (3 * i), w_ids w k (3 * i + 1), w_ids w k (3 * i + 2))) (w_net w k)"

definition tick_recovers :: "world \<Rightarrow> scheduler \<Rightarrow> nat \<Rightarrow> db \<Rightarrow> job list result" where
  "tick_recovers w r k = RecoverExpiredJobs (w_locked w k) (w_now w k) (sc_batch r) ''job lease expired'' (w_net w k)"

lemma store_call_calls: "run_state (store_call w f) s = (x, s') \<Longrightarrow> p_calls s' = Suc (p_calls s)"
  by (auto simp: store_call_def Let_def split: prod.splits)

lemma samples_each_run:
  "run_state (each_cmd (\<lambda>x. take_samples (f x)) xs) s = (u, s') \<Longrightarrow> p_calls s' = p_calls s \<and> p_db s' = p_db s"
proof (induction xs arbitrary: s)
  case (Cons x xs)
  then show ?case by (fastforce simp: take_samples_def)
qed simp

lemma tick_run:
  assumes "run_state (tick w order tc r) s = (out, s')"
  obtains (fire_failed) e where "out = Some e" "tick_fires w tc r (p_calls s) (w_others w (p_calls s) (p_db s)) = (Inl e, p_db s')"
      "published s' = published s"
  | (failed) e where "out = Some e" "published s' = published s"
      "\<exists>fires. fst (tick_fires w tc r (p_calls s) (w_others w (p_calls s) (p_db s))) = Inr fires"
  | (ok) fires d1 recovered due k where "out = None"
      "published s' = published s @ order (queues_with_work fires recovered due)"
      "tick_fires w tc r (p_calls s) (w_others w (p_calls s) (p_db s)) = (Inr fires, d1)"
      "fst (tick_recovers w r (Suc (p_calls s)) (w_others w (Suc (p_calls s)) d1)) = Inr recovered"
      "fst (ListDueQueues (w_coll w) (w_net w k) (w_now w k) (sc_batch r) (p_db s')) = Inr due"
      "p_calls s' = Suc k + length (order (queues_with_work fires recovered due))"
proof -
  obtain x s1 where 1: "run_state (store_call w (tick_fires w tc r)) s = (x, s1)" by (rule prod.exhaust)
  note f = store_call_run [OF 1]
  note tick = assms [unfolded tick_def, folded tick_fires_def tick_recovers_def]
  show ?thesis
  proof (cases x)
    case (Inl e)
    then show ?thesis using fire_failed tick 1 f by simp
  next
    case (Inr fires)
    obtain u s2 where 2: "run_state (each_cmd (\<lambda>f. take_samples (RecordCronJobFired (sc_metrics r) (fire_job f))) fires) s1 = (u, s2)"
      by (rule prod.exhaust)
    have p2: "published s2 = published s" using published_each [OF published_quiet 2] f by simp
    have s2: "p_calls s2 = Suc (p_calls s)" "p_db s2 = p_db s1"
      using samples_each_run [OF 2] store_call_calls [OF 1] by simp_all
    obtain y s3 where 3: "run_state (store_call w (tick_recovers w r)) s2 = (y, s3)" by (rule prod.exhaust)
    note p3 = store_call_run [OF 3]
    have fired: "tick_fires w tc r (p_calls s) (w_others w (p_calls s) (p_db s)) = (Inr fires, p_db s1)" using f Inr by simp
    show ?thesis
    proof (cases y)
      case (Inl e)
      then show ?thesis using failed [of e] tick 1 Inr 2 3 p2 p3 fired by simp
    next
      case y: (Inr recovered)
      have rec: "fst (tick_recovers w r (Suc (p_calls s)) (w_others w (Suc (p_calls s)) (p_db s1))) = Inr recovered"
        using p3 y by (simp add: s2)
      obtain u s4 where 4: "run_state (each_cmd (log_recovered w r) recovered) s3 = (u, s4)" by (rule prod.exhaust)
      have p4: "published s4 = published s" using published_each [OF log_recovered_published 4] p2 p3 by simp
      let ?due = "\<lambda>k. ListDueQueues (w_coll w) (w_net w k) (w_now w k) (sc_batch r)"
      obtain z s5 where 5: "run_state (store_call w ?due) s4 = (z, s5)" by (rule prod.exhaust)
      note p5 = store_call_run [OF 5]
      have same: "w_others w (p_calls s4) (p_db s4) = p_db s5"
        using p5 read_no_step(3) by (metis snd_conv)
      show ?thesis
      proof (cases z)
        case (Inl e)
        then show ?thesis using failed [of e] tick 1 Inr 2 3 y 4 5 p4 p5 fired by simp
      next
        case z: (Inr due)
        obtain u s6 where 6: "run_state (each_cmd (signal_queue w r) (order (queues_with_work fires recovered due))) s5 = (u, s6)"
          by (rule prod.exhaust)
        note p6 = signal_each_run [OF 6]
        have calls: "p_calls s6 = Suc (p_calls s4) + length (order (queues_with_work fires recovered due))"
          using p6 store_call_calls [OF 5] by simp
        have out: "out = None" "s' = s6" using tick 1 Inr 2 3 y 4 5 z 6 by simp_all
        show ?thesis
          by (rule ok [OF out(1) _ fired rec, of due "p_calls s4"]) (use out(2) p6 p5 p4 same z calls in simp_all)
      qed
    qed
  qed
qed

lemma ListDueQueues_all:
  assumes "fst (ListDueQueues coll net now limit d) = Inr due"
    and "length (remdups (map job_queue (filter (\<lambda>j. claimable (job_status j) \<and> job_available_at j \<le> now) (jobs d)))) \<le> nat (batch_size limit)"
    and "j \<in> set (jobs d)" "claimable (job_status j)" "job_available_at j \<le> now"
  shows "job_queue j \<in> set due"
  using assms by (auto simp: ListDueQueues_def run_sql_query split: if_splits)

lemma ListDueQueues_due:
  assumes "fst (ListDueQueues coll net now limit d) = Inr due"
  shows "set due \<subseteq> job_queue ` set (filter (\<lambda>j. claimable (job_status j) \<and> job_available_at j \<le> now) (jobs d))"
proof
  fix q
  assume "q \<in> set due"
  then have "q \<in> set (remdups (map job_queue (filter (\<lambda>j. claimable (job_status j) \<and> job_available_at j \<le> now) (jobs d))))"
    using assms by (auto simp: ListDueQueues_def run_sql_query split: if_splits dest!: set_take_order_by)
  then show "q \<in> job_queue ` set (filter (\<lambda>j. claimable (job_status j) \<and> job_available_at j \<le> now) (jobs d))" by simp
qed

section \<open>Properties\<close>

text \<open>
  C23. A tick wakes the workers. A tick that succeeds publishes, exactly once each, the queue of every
  job that it fired, of every job whose lease it recovered for another attempt and, if the queues with due jobs fit the batch
  size, of every job that is due when it looks, just before it publishes; and it publishes no other queue. A tick that fails publishes nothing. The
  database may change before every call, in any way.
\<close>

theorem tick_signals:
  assumes "run_state (tick w order tc r) s = (out, s')" and "\<forall>qs. mset (order qs) = mset qs"
  shows "case out of
      Some e \<Rightarrow> published s' = published s
    | None \<Rightarrow> (\<exists>qs fires d1 recovered. published s' = published s @ qs \<and> distinct qs \<and>
        tick_fires w tc r (p_calls s) (w_others w (p_calls s) (p_db s)) = (Inr fires, d1) \<and>
        (\<forall>f \<in> set fires. job_queue (fire_job f) \<in> set qs) \<and>
        (let k = Suc (p_calls s)
         in fst (RecoverExpiredJobs (w_locked w k) (w_now w k) (sc_batch r) ''job lease expired'' (w_net w k) (w_others w k d1)) =
           Inr recovered) \<and>
        (let now = w_now w (p_calls s' - Suc (length qs));
             due = filter (\<lambda>j. claimable (job_status j) \<and> job_available_at j \<le> now) (jobs (p_db s'));
             again = filter (\<lambda>j. job_status j = RetryScheduled \<or> job_status j = Queued) recovered
         in (\<forall>j \<in> set again. job_queue j \<in> set qs) \<and>
           (length (remdups (map job_queue due)) \<le> nat (batch_size (sc_batch r)) \<longrightarrow> (\<forall>j \<in> set due. job_queue j \<in> set qs)) \<and>
           set qs \<subseteq> job_queue ` fire_job ` set fires \<union> job_queue ` set again \<union> job_queue ` set due))"
  using assms(1)
proof (cases rule: tick_run)
  case (ok fires d1 recovered due k)
  let ?qs = "order (queues_with_work fires recovered due)"
  have m: "mset ?qs = mset (queues_with_work fires recovered due)" using assms(2) by blast
  then have distinct: "distinct ?qs" by (metis distinct_remdups mset_eq_imp_distinct_iff queues_with_work_def)
  let ?again = "filter (\<lambda>j. job_status j = RetryScheduled \<or> job_status j = Queued) recovered"
  have "set ?qs = set (queues_with_work fires recovered due)" by (rule mset_eq_setD [OF m])
  then have qs: "set ?qs = job_queue ` fire_job ` set fires \<union> job_queue ` set ?again \<union> set due"
    by (auto simp: queues_with_work_def)
  have k: "p_calls s' - Suc (length ?qs) = k" using ok(6) by simp
  have all: "\<forall>f \<in> set fires. job_queue (fire_job f) \<in> set ?qs" "\<forall>j \<in> set ?again. job_queue j \<in> set ?qs"
    "set due \<subseteq> set ?qs"
    unfolding qs by blast+
  have only: "set ?qs \<subseteq> job_queue ` fire_job ` set fires \<union> job_queue ` set ?again \<union>
      job_queue ` set (filter (\<lambda>j. claimable (job_status j) \<and> job_available_at j \<le> w_now w k) (jobs (p_db s')))"
    unfolding qs using ListDueQueues_due [OF ok(5)] by blast
  show ?thesis
    unfolding ok(1) option.case Let_def
  proof (intro exI [of _ ?qs] exI [of _ fires] exI [of _ d1] exI [of _ recovered] conjI impI ballI)
    fix j
    assume fits: "length (remdups (map job_queue (filter (\<lambda>j. claimable (job_status j) \<and>
        job_available_at j \<le> w_now w (p_calls s' - Suc (length ?qs))) (jobs (p_db s'))))) \<le> nat (batch_size (sc_batch r))"
      and j: "j \<in> set (filter (\<lambda>j. claimable (job_status j) \<and>
        job_available_at j \<le> w_now w (p_calls s' - Suc (length ?qs))) (jobs (p_db s')))"
    have "job_queue j \<in> set due"
      by (rule ListDueQueues_all [OF ok(5) fits [unfolded k]]) (use j k in simp_all)
    then show "job_queue j \<in> set ?qs" using all(3) by blast
  qed (use all only k ok(2,3,4) distinct in \<open>simp_all add: tick_recovers_def\<close>)
qed simp_all

definition sample_scheduler :: scheduler where
  "sample_scheduler = NewScheduler [] 0 0 None"

theorem tick_signals_witness:
  "''default'' \<in> set (published (snd (run_state (tick sample_world (\<lambda>qs. qs) \<lparr>tc_parent = [], tc_state = []\<rparr> sample_scheduler)
     \<lparr>p_db = sample_db, p_calls = 0, p_events = []\<rparr>)))"
proof -
  let ?run = "run_state (tick sample_world (\<lambda>qs. qs) \<lparr>tc_parent = [], tc_state = []\<rparr> sample_scheduler)
     \<lparr>p_db = sample_db, p_calls = 0, p_events = []\<rparr>"
  have jobs: "map (\<lambda>j. (job_queue j, job_status j, job_available_at j)) (jobs (p_db (snd ?run))) = [(''default'', Queued, 100)]"
    and out: "fst ?run = None"
    by code_simp+
  then obtain j where j: "jobs (p_db (snd ?run)) = [j]" "job_queue j = ''default''" "job_status j = Queued" "job_available_at j = 100"
    by (auto simp: map_eq_Cons_conv)
  have run: "run_state (tick sample_world (\<lambda>qs. qs) \<lparr>tc_parent = [], tc_state = []\<rparr> sample_scheduler)
     \<lparr>p_db = sample_db, p_calls = 0, p_events = []\<rparr> = (None, snd ?run)"
    by (metis out prod.collapse)
  have "batch_size (sc_batch sample_scheduler) = 50" by code_simp
  then obtain qs where "published (snd ?run) = published \<lparr>p_db = sample_db, p_calls = 0, p_events = []\<rparr> @ qs" "''default'' \<in> set qs"
    using tick_signals [OF run] j by (auto simp: sample_world_def claimable_def)
  then show ?thesis by simp
qed

text \<open>
  One bad schedule stops the scheduler. When the schedule of a due cron job has no next run, the
  tick fails at its first call: no expired lease is recovered, no queue is signalled and the database
  stays as it was, although neither has anything to do with cron.
\<close>

lemma tick_blocked_by_bad_schedule:
  assumes "d = w_others w (p_calls s) (p_db s)" and "k = p_calls s"
    and "c \<in> set (due_cron_jobs (w_coll w) (w_locked w k) (w_clock w k) (sc_batch r) d)"
    and "cron_next (cj_schedule c) (w_clock w k) = Inl e"
  shows "(\<exists>e'. fst (run_state (tick w order tc r) s) = Some e') \<and>
    p_db (snd (run_state (tick w order tc r) s)) = d \<and> published (snd (run_state (tick w order tc r) s)) = published s"
proof -
  obtain out s' where run: "run_state (tick w order tc r) s = (out, s')" by (rule prod.exhaust)
  have "snd (tick_fires w tc r k d) = d" "\<exists>e'. fst (tick_fires w tc r k d) = Inl e'"
    using fire.rejected [OF no_fire_commit [OF assms(3,4)]] unfolding tick_fires_def by blast+
  then show ?thesis
    using run assms(1,2) by (cases rule: tick_run [OF run]) auto
qed

lemma tick_blocked_by_bad_schedule_witness:
  "published (snd (run_state (tick sample_world (\<lambda>qs. qs) \<lparr>tc_parent = [], tc_state = []\<rparr> sample_scheduler)
     \<lparr>p_db = bad_cron_db, p_calls = 0, p_events = []\<rparr>)) = []"
proof -
  let ?s = "\<lparr>p_db = bad_cron_db, p_calls = 0, p_events = []\<rparr>"
  have "cron_sample\<lparr>cj_schedule := ''never''\<rparr> \<in> set (due_cron_jobs (\<lambda>x y. True) {} 300 50 bad_cron_db)"
    by (simp add: due_cron_jobs_def bad_cron_db_def cron_db_def cron_sample_def new_cron_job_def empty_db_def
        batch_size_def asc_def asc_text_def ties_def)
  moreover have "sc_batch sample_scheduler = 50" by code_simp
  ultimately have due: "cron_sample\<lparr>cj_schedule := ''never''\<rparr> \<in> set (due_cron_jobs (w_coll sample_world) (w_locked sample_world 0)
      (w_clock sample_world 0) (sc_batch sample_scheduler) bad_cron_db)" by (simp add: sample_world_def)
  have bad: "cron_next ''never'' 300 = Inl FieldCount" by code_simp
  have "published (snd (run_state (tick sample_world (\<lambda>qs. qs) \<lparr>tc_parent = [], tc_state = []\<rparr> sample_scheduler) ?s)) = published ?s"
    using tick_blocked_by_bad_schedule [where w = sample_world and s = ?s and d = bad_cron_db and k = 0, OF _ _ due] bad
    by (simp add: sample_world_def)
  then show ?thesis by (simp add: published_def map_filter_simps)
qed

end
