(* ===== verification/Api.thy ===== *)
theory Api
  imports Client
begin

text \<open>
  \<open>internal/api/server.go\<close>: the routes, the bearer token that guards them, and a handler per route.
  A request comes with the route that the chi router matched and with what \<open>encoding/json\<close> decoded
  from its body (None for an invalid body); ids are parsed by \<open>w_uuid_parse\<close>. A reply is a status and
  a body, before it is printed as JSON; \<open>ErrorOf e\<close> stands for the text \<open>err.Error()\<close>. \<open>NoRoute\<close> is
  a path that no route has; chi's own 405 for a path with another method is left out.
\<close>

section \<open>Requests and replies\<close>

datatype route =
    HealthLive | HealthReady | GetMetrics
  | PostJobs | GetJobs | GetJobById string | GetJobAttempts string | GetJobLogs string
  | PostJobRetry string | PostJobCancel string | GetWorkers | GetQueues
  | PostCron | GetCron | PostCronEnable string | PostCronDisable string
  | NoRoute string string

text \<open>The method and the pattern that a route was declared with; an unmatched request has its own path.\<close>

fun route_method :: "route \<Rightarrow> string" where
  "route_method PostJobs = ''POST''"
| "route_method (PostJobRetry i) = ''POST''"
| "route_method (PostJobCancel i) = ''POST''"
| "route_method PostCron = ''POST''"
| "route_method (PostCronEnable r) = ''POST''"
| "route_method (PostCronDisable r) = ''POST''"
| "route_method (NoRoute m p) = m"
| "route_method _ = ''GET''"

fun routePattern :: "route \<Rightarrow> string" where
  "routePattern HealthLive = ''/health/live''"
| "routePattern HealthReady = ''/health/ready''"
| "routePattern GetMetrics = ''/metrics''"
| "routePattern PostJobs = ''/jobs''"
| "routePattern GetJobs = ''/jobs''"
| "routePattern (GetJobById i) = ''/jobs/'' @ CHR 0x7B # ''id'' @ [CHR 0x7D]"
| "routePattern (GetJobAttempts i) = ''/jobs/'' @ CHR 0x7B # ''id'' @ CHR 0x7D # ''/attempts''"
| "routePattern (GetJobLogs i) = ''/jobs/'' @ CHR 0x7B # ''id'' @ CHR 0x7D # ''/logs''"
| "routePattern (PostJobRetry i) = ''/jobs/'' @ CHR 0x7B # ''id'' @ CHR 0x7D # ''/retry''"
| "routePattern (PostJobCancel i) = ''/jobs/'' @ CHR 0x7B # ''id'' @ CHR 0x7D # ''/cancel''"
| "routePattern GetWorkers = ''/workers''"
| "routePattern GetQueues = ''/queues''"
| "routePattern PostCron = ''/cron''"
| "routePattern GetCron = ''/cron''"
| "routePattern (PostCronEnable r) = ''/cron/'' @ CHR 0x7B # ''ref'' @ CHR 0x7D # ''/enable''"
| "routePattern (PostCronDisable r) = ''/cron/'' @ CHR 0x7B # ''ref'' @ CHR 0x7D # ''/disable''"
| "routePattern (NoRoute m p) = p"

record create_job_request =
  cjr_queue :: string
  cjr_type :: string
  cjr_payload :: string
  cjr_priority :: int
  cjr_max_attempts :: int
  cjr_timeout_seconds :: int
  cjr_delay_seconds :: int
  cjr_idempotency_key :: string

record create_cron_request =
  ccr_name :: string
  ccr_queue :: string
  ccr_type :: string
  ccr_payload :: string
  ccr_schedule :: string
  ccr_priority :: int
  ccr_max_attempts :: int
  ccr_timeout_seconds :: int

record request =
  rq_route :: route
  rq_authorization :: string
  rq_limit :: string
  rq_status :: string
  rq_queue :: string
  rq_job :: "create_job_request option"
  rq_cron :: "create_cron_request option"
  rq_id :: string

datatype failure = Message string | ErrorOf error

datatype reply_body =
    Failure failure | Health string | MetricsText
  | JobCreated job bool | JobBody job | JobsBody "job list" | AttemptsBody "attempt list" | LogsBody "job_log list"
  | WorkersBody "worker list" | QueuesBody "queue_summary list" | CronJobBody cron_job | CronJobsBody "cron_job list"

datatype response = Response (rs_status: int) (rs_body: reply_body)

abbreviation (input) StatusOK :: int where "StatusOK \<equiv> 200"
abbreviation (input) StatusCreated :: int where "StatusCreated \<equiv> 201"
abbreviation (input) StatusBadRequest :: int where "StatusBadRequest \<equiv> 400"
abbreviation (input) StatusUnauthorized :: int where "StatusUnauthorized \<equiv> 401"
abbreviation (input) StatusNotFound :: int where "StatusNotFound \<equiv> 404"
abbreviation (input) StatusConflict :: int where "StatusConflict \<equiv> 409"
abbreviation (input) StatusInternalServerError :: int where "StatusInternalServerError \<equiv> 500"
abbreviation (input) StatusServiceUnavailable :: int where "StatusServiceUnavailable \<equiv> 503"

definition writeError :: "int \<Rightarrow> string \<Rightarrow> response" where
  "writeError status message = Response status (Failure (Message message))"

text \<open>The text of \<open>pgx.ErrNoRows\<close> has no prefix \<open>ERROR: \<close> to trim.\<close>

definition writeStorageError :: "error \<Rightarrow> string \<Rightarrow> response" where
  "writeStorageError e fallback =
     (if IsNotFound e then Response StatusNotFound (Failure (ErrorOf e))
      else if IsInvalidState e then Response StatusConflict (Failure (ErrorOf e))
      else writeError StatusInternalServerError fallback)"

record server =
  sv_token :: string
  sv_metrics :: "metrics option"

definition NewServer :: "string \<Rightarrow> metrics option \<Rightarrow> server" where
  "NewServer operatorToken m =
     \<lparr>sv_token = operatorToken,
      sv_metrics = (case m of None \<Rightarrow> Some (NewMetrics ''pulsequeue-api'') | Some m \<Rightarrow> Some m)\<rparr>"

section \<open>Handlers\<close>

definition handleReady :: "bool \<times> bool \<Rightarrow> response" where
  "handleReady up =
     (if \<not> fst up then writeError StatusServiceUnavailable ''postgres not ready''
      else if \<not> snd up then writeError StatusServiceUnavailable ''nats not ready''
      else Response StatusOK (Health ''ready''))"

definition signal_job :: "world \<Rightarrow> server \<Rightarrow> string \<Rightarrow> unit cmd" where
  "signal_job w sv queue = do {
     ok \<leftarrow> publish w queue;
     if ok then ret () else take_samples (RecordNATSPublishFailure (sv_metrics sv) ''api'' queue)
   }"

definition create_params_of :: "trace_context \<Rightarrow> create_job_request \<Rightarrow> create_params" where
  "create_params_of tc req =
     \<lparr>cp_queue = cjr_queue req, cp_type = cjr_type req, cp_payload = cjr_payload req, cp_priority = cjr_priority req,
      cp_max_attempts = cjr_max_attempts req, cp_timeout_seconds = cjr_timeout_seconds req,
      cp_delay_seconds = cjr_delay_seconds req,
      cp_idempotency_key = (if TrimSpace (cjr_idempotency_key req) \<noteq> [] then Some (TrimSpace (cjr_idempotency_key req)) else None),
      cp_traceparent = tc_parent tc, cp_tracestate = tc_state tc\<rparr>"

definition handleCreateJob :: "world \<Rightarrow> trace_context \<Rightarrow> server \<Rightarrow> request \<Rightarrow> response cmd" where
  "handleCreateJob w tc sv rq =
     (case rq_job rq of
        None \<Rightarrow> ret (writeError StatusBadRequest ''invalid JSON body'')
      | Some req \<Rightarrow>
          let req = (if cjr_queue req = [] then req\<lparr>cjr_queue := ''default''\<rparr> else req)
          in if cjr_type req = [] then ret (writeError StatusBadRequest ''type is required'')
             else let req = (if cjr_payload req = [] then req\<lparr>cjr_payload := [CHR 0x7B, CHR 0x7D]\<rparr> else req)
             in do {
               res \<leftarrow> store_call w (\<lambda>k. CreateJob (w_jsonb w) (w_net w k) (w_now w k) (w_ids w k 0) (create_params_of tc req));
               case res of
                 Inl e \<Rightarrow> ret (Response StatusBadRequest (Failure (ErrorOf e)))
               | Inr created \<Rightarrow> do {
                   take_samples (RecordJobSubmitted (sv_metrics sv) (job_queue (fst created)) (job_type (fst created)) (snd created));
                   (if \<not> snd created \<and> cjr_delay_seconds req = 0 then signal_job w sv (job_queue (fst created)) else ret ());
                   (if \<not> snd created
                   then append_log_call w \<lparr>lp_job_id = job_id (fst created), lp_attempt_id = None, lp_level = ''info'',
                     lp_message = ''job submitted'', lp_fields = mustJSON (addTraceFields (w_span w)
                       [(''request_id'', JText (rq_id rq)), (''queue'', JText (job_queue (fst created))),
                        (''job_type'', JText (job_type (fst created))), (''source'', JText ''api'')])\<rparr> \<bind> (\<lambda>_. ret ())
                   else ret ());
                   ret (Response StatusCreated (JobCreated (fst created) (snd created)))
                 }
             })"

text \<open>The \<open>limit\<close> of a query: the default when it is absent, None when it is rejected.\<close>

definition parse_limit :: "int \<Rightarrow> string \<Rightarrow> int option" where
  "parse_limit fallback raw =
     (if raw = [] then Some fallback
      else (case Atoi raw of
          None \<Rightarrow> None
        | Some parsed \<Rightarrow> if parsed \<le> 0 then None else Some (wrap32 parsed)))"

definition handleListJobs :: "world \<Rightarrow> request \<Rightarrow> response cmd" where
  "handleListJobs w rq =
     (case parse_limit 50 (rq_limit rq) of
        None \<Rightarrow> ret (writeError StatusBadRequest ''limit must be a positive integer'')
      | Some limit \<Rightarrow> do {
          res \<leftarrow> store_call w (\<lambda>k. ListJobs (w_net w k) \<lparr>lf_status = rq_status rq, lf_queue = rq_queue rq, lf_limit = limit\<rparr>);
          case res of
            Inl e \<Rightarrow> ret (writeError StatusInternalServerError ''failed to list jobs'')
          | Inr found \<Rightarrow> ret (Response StatusOK (JobsBody found))
        })"

text \<open>The look-up that the job handlers share: the error reply, or what to do with the job.\<close>

definition with_job :: "world \<Rightarrow> uuid \<Rightarrow> (job \<Rightarrow> response cmd) \<Rightarrow> response cmd" where
  "with_job w i next_step = do {
     res \<leftarrow> store_call w (\<lambda>k. GetJob (w_net w k) i);
     case res of
       Inl e \<Rightarrow> ret (if IsNotFound e then writeError StatusNotFound ''job not found''
                    else writeError StatusInternalServerError ''failed to get job'')
     | Inr job \<Rightarrow> next_step job
   }"

definition handleGetJob :: "world \<Rightarrow> string \<Rightarrow> response cmd" where
  "handleGetJob w ref =
     (case w_uuid_parse w ref of
        None \<Rightarrow> ret (writeError StatusBadRequest ''invalid job id'')
      | Some i \<Rightarrow> with_job w i (\<lambda>job. ret (Response StatusOK (JobBody job))))"

definition handleListJobAttempts :: "world \<Rightarrow> string \<Rightarrow> response cmd" where
  "handleListJobAttempts w ref =
     (case w_uuid_parse w ref of
        None \<Rightarrow> ret (writeError StatusBadRequest ''invalid job id'')
      | Some i \<Rightarrow> with_job w i (\<lambda>_. do {
          res \<leftarrow> store_call w (\<lambda>k. ListJobAttempts (w_net w k) i);
          case res of
            Inl e \<Rightarrow> ret (writeError StatusInternalServerError ''failed to list job attempts'')
          | Inr found \<Rightarrow> ret (Response StatusOK (AttemptsBody found))
        }))"

definition handleListJobLogs :: "world \<Rightarrow> request \<Rightarrow> string \<Rightarrow> response cmd" where
  "handleListJobLogs w rq ref =
     (case w_uuid_parse w ref of
        None \<Rightarrow> ret (writeError StatusBadRequest ''invalid job id'')
      | Some i \<Rightarrow> (case parse_limit 100 (rq_limit rq) of
            None \<Rightarrow> ret (writeError StatusBadRequest ''limit must be a positive integer'')
          | Some limit \<Rightarrow> with_job w i (\<lambda>_. do {
              res \<leftarrow> store_call w (\<lambda>k. ListJobLogs (w_net w k) i limit);
              case res of
                Inl e \<Rightarrow> ret (writeError StatusInternalServerError ''failed to list job logs'')
              | Inr found \<Rightarrow> ret (Response StatusOK (LogsBody found))
            })))"

definition handleRetryJob :: "world \<Rightarrow> server \<Rightarrow> string \<Rightarrow> response cmd" where
  "handleRetryJob w sv ref =
     (case w_uuid_parse w ref of
        None \<Rightarrow> ret (writeError StatusBadRequest ''invalid job id'')
      | Some i \<Rightarrow> do {
          res \<leftarrow> store_call w (\<lambda>k. RetryJob (w_jsonb w) (w_now w k) (w_ids w k 0) i (w_net w k));
          case res of
            Inl e \<Rightarrow> ret (writeStorageError e ''failed to retry job'')
          | Inr job \<Rightarrow> do {
              take_samples (RecordJobRetried (sv_metrics sv) job);
              signal_job w sv (job_queue job);
              ret (Response StatusOK (JobBody job))
            }
        })"

definition handleCancelJob :: "world \<Rightarrow> string \<Rightarrow> response cmd" where
  "handleCancelJob w ref =
     (case w_uuid_parse w ref of
        None \<Rightarrow> ret (writeError StatusBadRequest ''invalid job id'')
      | Some i \<Rightarrow> do {
          res \<leftarrow> store_call w (\<lambda>k. CancelJob (w_jsonb w) (w_now w k) (w_ids w k 0) i (w_net w k));
          case res of
            Inl e \<Rightarrow> ret (writeStorageError e ''failed to cancel job'')
          | Inr job \<Rightarrow> ret (Response StatusOK (JobBody job))
        })"

definition handleListWorkers :: "world \<Rightarrow> response cmd" where
  "handleListWorkers w = do {
     res \<leftarrow> store_call w (\<lambda>k. ListWorkers (w_coll w) (w_net w k));
     case res of
       Inl e \<Rightarrow> ret (writeError StatusInternalServerError ''failed to list workers'')
     | Inr found \<Rightarrow> ret (Response StatusOK (WorkersBody found))
   }"

definition handleListQueues :: "world \<Rightarrow> response cmd" where
  "handleListQueues w = do {
     res \<leftarrow> store_call w (\<lambda>k. ListQueues (w_coll w) (w_net w k));
     case res of
       Inl e \<Rightarrow> ret (writeError StatusInternalServerError ''failed to list queues'')
     | Inr queues \<Rightarrow> ret (Response StatusOK (QueuesBody queues))
   }"

definition handleCreateCronJob :: "world \<Rightarrow> request \<Rightarrow> response cmd" where
  "handleCreateCronJob w rq =
     (case rq_cron rq of
        None \<Rightarrow> ret (writeError StatusBadRequest ''invalid JSON body'')
      | Some req \<Rightarrow>
          let req = (if ccr_payload req = [] then req\<lparr>ccr_payload := [CHR 0x7B, CHR 0x7D]\<rparr> else req)
          in do {
            res \<leftarrow> store_call w (\<lambda>k. CreateCronJob (w_jsonb w) (w_net w k) (w_now w k) (w_clock w k) (w_ids w k 0)
              \<lparr>crp_name = ccr_name req, crp_queue = ccr_queue req, crp_type = ccr_type req, crp_payload = ccr_payload req,
               crp_schedule = ccr_schedule req, crp_priority = ccr_priority req, crp_max_attempts = ccr_max_attempts req,
               crp_timeout_seconds = ccr_timeout_seconds req\<rparr>);
            case res of
              Inl e \<Rightarrow> ret (Response StatusBadRequest (Failure (ErrorOf e)))
            | Inr cronJob \<Rightarrow> ret (Response StatusCreated (CronJobBody cronJob))
          })"

definition handleListCronJobs :: "world \<Rightarrow> response cmd" where
  "handleListCronJobs w = do {
     res \<leftarrow> store_call w (\<lambda>k. ListCronJobs (w_coll w) (w_net w k));
     case res of
       Inl e \<Rightarrow> ret (writeError StatusInternalServerError ''failed to list cron jobs'')
     | Inr cronJobs \<Rightarrow> ret (Response StatusOK (CronJobsBody cronJobs))
   }"

definition handleSetCronJobEnabled :: "world \<Rightarrow> string \<Rightarrow> bool \<Rightarrow> response cmd" where
  "handleSetCronJobEnabled w ref enabled = do {
     res \<leftarrow> store_call w (\<lambda>k. SetCronJobEnabled (w_uuid_parse w) (w_now w k) (w_clock w k) ref enabled (w_net w k));
     case res of
       Inl e \<Rightarrow> ret (writeStorageError e ''failed to update cron job'')
     | Inr cronJob \<Rightarrow> ret (Response StatusOK (CronJobBody cronJob))
   }"

section \<open>Serving a request\<close>

definition requireAuth :: "server \<Rightarrow> request \<Rightarrow> response cmd \<Rightarrow> response cmd" where
  "requireAuth sv rq next_handler =
     (if sv_token sv = [] \<or> rq_authorization rq \<noteq> ''Bearer '' @ sv_token sv
      then ret (writeError StatusUnauthorized ''unauthorized'')
      else next_handler)"

text \<open>The router: \<open>up\<close> is whether PostgreSQL and NATS answer their pings.\<close>

fun handle :: "world \<Rightarrow> trace_context \<Rightarrow> bool \<times> bool \<Rightarrow> server \<Rightarrow> request \<Rightarrow> route \<Rightarrow> response cmd" where
  "handle w tc up sv rq HealthLive = ret (Response StatusOK (Health ''live''))"
| "handle w tc up sv rq HealthReady = ret (handleReady up)"
| "handle w tc up sv rq GetMetrics = ret (Response StatusOK MetricsText)"
| "handle w tc up sv rq (NoRoute m p) = ret (writeError StatusNotFound ''404 page not found'')"
| "handle w tc up sv rq PostJobs = requireAuth sv rq (handleCreateJob w tc sv rq)"
| "handle w tc up sv rq GetJobs = requireAuth sv rq (handleListJobs w rq)"
| "handle w tc up sv rq (GetJobById i) = requireAuth sv rq (handleGetJob w i)"
| "handle w tc up sv rq (GetJobAttempts i) = requireAuth sv rq (handleListJobAttempts w i)"
| "handle w tc up sv rq (GetJobLogs i) = requireAuth sv rq (handleListJobLogs w rq i)"
| "handle w tc up sv rq (PostJobRetry i) = requireAuth sv rq (handleRetryJob w sv i)"
| "handle w tc up sv rq (PostJobCancel i) = requireAuth sv rq (handleCancelJob w i)"
| "handle w tc up sv rq GetWorkers = requireAuth sv rq (handleListWorkers w)"
| "handle w tc up sv rq GetQueues = requireAuth sv rq (handleListQueues w)"
| "handle w tc up sv rq PostCron = requireAuth sv rq (handleCreateCronJob w rq)"
| "handle w tc up sv rq GetCron = requireAuth sv rq (handleListCronJobs w)"
| "handle w tc up sv rq (PostCronEnable r) = requireAuth sv rq (handleSetCronJobEnabled w r True)"
| "handle w tc up sv rq (PostCronDisable r) = requireAuth sv rq (handleSetCronJobEnabled w r False)"

text \<open>\<open>observabilityMiddleware\<close> around the router; \<open>duration\<close> is what it measures.\<close>

definition serve :: "world \<Rightarrow> trace_context \<Rightarrow> bool \<times> bool \<Rightarrow> duration \<Rightarrow> server \<Rightarrow> request \<Rightarrow> response cmd" where
  "serve w tc up duration sv rq = do {
     response \<leftarrow> handle w tc up sv rq (rq_route rq);
     take_samples (RecordHTTPRequest (sv_metrics sv) (route_method (rq_route rq)) (routePattern (rq_route rq))
       (rs_status response) duration);
     ret response
   }"

section \<open>Only store operations\<close>

lemma more_reads:
  "snd (ListJobs net f d) = d" "snd (ListJobAttempts net i d) = d" "snd (ListJobLogs net i n d) = d"
  "snd (ListWorkers coll net d) = d" "snd (ListQueues coll net d) = d" "snd (ListCronJobs coll net d) = d"
  by (simp_all add: ListJobs_def ListJobAttempts_def ListJobLogs_def ListWorkers_def ListQueues_def ListCronJobs_def
      run_sql_query Let_def)

lemma store_only_signal_job [store_only_rules]: "store_only (signal_job w sv q)"
  unfolding signal_job_def by (intro store_only_rules)

lemma store_only_create [store_only_rules]: "fair w \<Longrightarrow> store_only (handleCreateJob w tc sv rq)"
  unfolding handleCreateJob_def Let_def by (intro store_only_rules disjI2 store_step.create)

lemma store_only_with_job [store_only_rules]: "fair w \<Longrightarrow> (\<And>j. store_only (f j)) \<Longrightarrow> store_only (with_job w i f)"
  unfolding with_job_def by (intro store_only_rules) (simp_all add: read_no_step)

lemma store_only_reads [store_only_rules]:
  assumes "fair w"
  shows "store_only (handleListJobs w rq)" "store_only (handleGetJob w i)" "store_only (handleListJobAttempts w i)"
    "store_only (handleListJobLogs w rq i)" "store_only (handleListWorkers w)" "store_only (handleListQueues w)"
    "store_only (handleListCronJobs w)"
  unfolding handleListJobs_def handleGetJob_def handleListJobAttempts_def handleListJobLogs_def handleListWorkers_def
    handleListQueues_def handleListCronJobs_def
  by ((intro store_only_rules assms disjI1 more_reads)+)

lemma store_only_writes [store_only_rules]:
  assumes "fair w"
  shows "store_only (handleRetryJob w sv i)" "store_only (handleCancelJob w i)" "store_only (handleCreateCronJob w rq)"
    "store_only (handleSetCronJobEnabled w i enabled)"
  unfolding handleRetryJob_def handleCancelJob_def handleCreateCronJob_def handleSetCronJobEnabled_def Let_def
  by (intro store_only_rules assms disjI2 store_step.retry store_step.cancel store_step.create_cron store_step.enable)+

lemma store_only_handle: "fair w \<Longrightarrow> store_only (handle w tc up sv rq r)"
  by (cases r) (simp_all add: requireAuth_def store_only_rules)

lemma store_only_serve [store_only_rules]: "fair w \<Longrightarrow> store_only (serve w tc up t sv rq)"
  unfolding serve_def by (intro store_only_bind store_only_handle store_only_rules)

section \<open>Statuses\<close>

definition replies :: "int set \<Rightarrow> response cmd \<Rightarrow> bool" where
  "replies A m \<longleftrightarrow> (\<forall>s. rs_status (fst (run_state m s)) \<in> A)"

named_theorems replies_rules \<open>the statuses that a handler can answer\<close>

lemma replies_return [replies_rules]: "rs_status r \<in> A \<Longrightarrow> replies A (ret r)"
  by (simp add: replies_def)

lemma replies_bind [replies_rules]: "(\<And>a. replies A (f a)) \<Longrightarrow> replies A (m \<bind> f)"
  by (simp add: replies_def split_beta)

lemma replies_sum [replies_rules]:
  "(\<And>e. replies A (f e)) \<Longrightarrow> (\<And>a. replies A (g a)) \<Longrightarrow> replies A (case x of Inl e \<Rightarrow> f e | Inr a \<Rightarrow> g a)"
  by (cases x) simp_all

lemma replies_option [replies_rules]:
  "replies A m \<Longrightarrow> (\<And>a. replies A (g a)) \<Longrightarrow> replies A (case x of None \<Rightarrow> m | Some a \<Rightarrow> g a)"
  by (cases x) simp_all

lemma replies_if [replies_rules]: "replies A m \<Longrightarrow> replies A n \<Longrightarrow> replies A (if b then m else n)"
  by simp

lemmas handlers = handleCreateJob_def handleListJobs_def handleGetJob_def handleListJobAttempts_def handleListJobLogs_def
  handleRetryJob_def handleCancelJob_def handleListWorkers_def handleListQueues_def handleCreateCronJob_def
  handleListCronJobs_def handleSetCronJobEnabled_def

abbreviation handler_statuses :: "int set" where
  "handler_statuses \<equiv> {200, 201, 400, 404, 409, 500}"

lemma handlers_reply [replies_rules]:
  "replies handler_statuses (handleCreateJob w tc sv rq)" "replies handler_statuses (handleListJobs w rq)"
  "replies handler_statuses (handleGetJob w i)" "replies handler_statuses (handleListJobAttempts w i)"
  "replies handler_statuses (handleListJobLogs w rq i)" "replies handler_statuses (handleRetryJob w sv i)"
  "replies handler_statuses (handleCancelJob w i)" "replies handler_statuses (handleListWorkers w)"
  "replies handler_statuses (handleListQueues w)" "replies handler_statuses (handleCreateCronJob w rq)"
  "replies handler_statuses (handleListCronJobs w)" "replies handler_statuses (handleSetCronJobEnabled w i enabled)"
  unfolding handlers with_job_def Let_def
  by (intro replies_rules; simp add: writeError_def writeStorageError_def)+

definition authorized :: "server \<Rightarrow> request \<Rightarrow> bool" where
  "authorized sv rq \<longleftrightarrow> sv_token sv \<noteq> [] \<and> rq_authorization rq = ''Bearer '' @ sv_token sv"

definition protected_route :: "route \<Rightarrow> bool" where
  "protected_route r \<longleftrightarrow> (case r of HealthLive \<Rightarrow> False | HealthReady \<Rightarrow> False | GetMetrics \<Rightarrow> False | NoRoute m p \<Rightarrow> False | _ \<Rightarrow> True)"

lemma serve_run:
  "run_state (serve w tc up t sv rq) s = (r, s') \<Longrightarrow>
    \<exists>s1. run_state (handle w tc up sv rq (rq_route rq)) s = (r, s1) \<and> p_db s' = p_db s1 \<and> p_calls s' = p_calls s1 \<and>
      published s' = published s1 \<and>
      p_events s' = p_events s1 @ map Sampled (RecordHTTPRequest (sv_metrics sv) (route_method (rq_route rq))
        (routePattern (rq_route rq)) (rs_status r) t)"
  by (auto simp: serve_def take_samples_def split: prod.splits)

section \<open>Properties\<close>

text \<open>
  C30. No access without the token. A protected route answers 401 exactly when the server has no
  operator token or the request does not carry it as a bearer token; then the database is as it was,
  no call was made and nothing was published.
\<close>

theorem unauthorized_has_no_effect:
  assumes "protected_route (rq_route rq)" and "run_state (serve w tc up t sv rq) s = (r, s')"
  shows "(rs_status r = 401 \<longleftrightarrow> \<not> authorized sv rq) \<and>
    (\<not> authorized sv rq \<longrightarrow> p_db s' = p_db s \<and> p_calls s' = p_calls s \<and> published s' = published s \<and>
      rs_body r = Failure (Message ''unauthorized''))"
proof -
  obtain s1 where h: "run_state (handle w tc up sv rq (rq_route rq)) s = (r, s1)" "p_db s' = p_db s1" "p_calls s' = p_calls s1"
      "published s' = published s1"
    using serve_run [OF assms(2)] by blast
  show ?thesis
  proof (cases "authorized sv rq")
    case True
    have "replies handler_statuses (handle w tc up sv rq (rq_route rq))"
      using assms(1) True handlers_reply
      by (cases "rq_route rq") (simp_all add: protected_route_def requireAuth_def authorized_def)
    then have "rs_status r \<in> handler_statuses" using h(1) by (metis fst_conv replies_def)
    then show ?thesis using True by auto
  next
    case False
    then have "handle w tc up sv rq (rq_route rq) = ret (writeError 401 ''unauthorized'')"
      using assms(1) by (cases "rq_route rq") (auto simp: protected_route_def requireAuth_def authorized_def)
    then show ?thesis using h False by (auto simp: writeError_def)
  qed
qed

definition sample_request :: "route \<Rightarrow> request" where
  "sample_request r = \<lparr>rq_route = r, rq_authorization = ''Bearer secret'', rq_limit = [], rq_status = [], rq_queue = [],
     rq_job = Some \<lparr>cjr_queue = [], cjr_type = ''demo.echo'', cjr_payload = [], cjr_priority = 0, cjr_max_attempts = 1,
       cjr_timeout_seconds = 0, cjr_delay_seconds = 0, cjr_idempotency_key = '' k ''\<rparr>,
     rq_cron = None, rq_id = ''r1''\<rparr>"

theorem unauthorized_has_no_effect_witness:
  "p_db (snd (run_state (serve sample_world \<lparr>tc_parent = [], tc_state = []\<rparr> (True, True) 5 (NewServer ''secret'' None)
     (sample_request PostJobs\<lparr>rq_authorization := ''Bearer guess''\<rparr>)) \<lparr>p_db = sample_db, p_calls = 0, p_events = []\<rparr>)) = sample_db"
proof -
  let ?rq = "sample_request PostJobs\<lparr>rq_authorization := ''Bearer guess''\<rparr>"
  obtain r s' where run: "run_state (serve sample_world \<lparr>tc_parent = [], tc_state = []\<rparr> (True, True) 5 (NewServer ''secret'' None) ?rq)
      \<lparr>p_db = sample_db, p_calls = 0, p_events = []\<rparr> = (r, s')" by (rule prod.exhaust)
  have "protected_route (rq_route ?rq)" by (simp add: sample_request_def protected_route_def)
  moreover have "\<not> authorized (NewServer ''secret'' None) ?rq" by (simp add: authorized_def NewServer_def)
  ultimately show ?thesis using unauthorized_has_no_effect [OF _ run] run by simp
qed

section \<open>Retrying through the API\<close>

definition plain :: "error \<Rightarrow> bool" where
  "plain e \<longleftrightarrow> \<not> IsNotFound e \<and> \<not> IsInvalidState e"

lemma plain_simps [simp]: "plain ErrConn" "plain (ErrNew m)" "plain (ErrConstraint m)" "\<not> plain ErrNoRows" "\<not> plain (ErrInvalidState m)"
  by (simp_all add: plain_def IsNotFound_def IsInvalidState_def)

lemma appendJobLog_plain: "appendJobLog jsonb now gid p net n d = Inl e \<Longrightarrow> plain e"
  by (auto simp: appendJobLog_def check_log_def Let_def tx_fail_def sql_def insert_log_def split: if_splits sum.splits option.splits)

lemma run_tx_Inl:
  "fst (run_tx m net d) = Inl e \<Longrightarrow> e = ErrConn \<or> (m net 1 d = Inl e \<and> snd (run_tx m net d) = d)"
  by (auto simp: run_tx_def split: if_splits sum.splits reply.splits)

lemma select_job_row: "db_ok d \<Longrightarrow> select_job i d = (case find_row job_id i (jobs d) of None \<Rightarrow> [] | Some j \<Rightarrow> [j])"
  using db_ok_row(1) by (auto simp: select_job_def find_row_None filter_empty_conv split: option.splits)

lemma RetryJob_error:
  assumes ok: "db_ok d" and run: "fst (RetryJob jsonb now gid i net d) = Inl e"
  shows "(IsNotFound e \<longrightarrow> find_row job_id i (jobs d) = None \<and> snd (RetryJob jsonb now gid i net d) = d) \<and>
    (IsInvalidState e \<longrightarrow> (\<exists>j. find_row job_id i (jobs d) = Some j \<and> \<not> retryable (job_status j)) \<and> snd (RetryJob jsonb now gid i net d) = d)"
proof (cases "plain e")
  case True
  then show ?thesis by (simp add: plain_def)
next
  case False
  note cases = run_tx_Inl [OF run [unfolded RetryJob_def], folded RetryJob_def]
  have "e \<noteq> ErrConn" using False by auto
  with cases have same: "snd (RetryJob jsonb now gid i net d) = d" by auto
  from cases False have body: "tx_bind (sql (query (select_job i))) (\<lambda>rows.
     tx_bind (tx_scan rows) (\<lambda>current.
     if job_status current \<noteq> Failed \<and> job_status current \<noteq> DeadLetter \<and> job_status current \<noteq> Cancelled
     then tx_fail (ErrInvalidState ''only failed, dead_letter, or cancelled jobs can be retried'')
     else
     tx_bind (sql (update_jobs (\<lambda>j. int32 (job_attempt_count j + 1)) (by_id i) (retry_set now))) (\<lambda>rows.
     tx_bind (tx_scan rows) (\<lambda>job.
     tx_bind (appendJobLog jsonb now gid
       (status_log (job_id job) ''info'' ''job manually retried'' (job_status current))) (\<lambda>_.
     tx_return job))))) net 1 d = Inl e"
    by auto
  show ?thesis
  proof (cases "find_row job_id i (jobs d)")
    case None
    then show ?thesis using body False same
      by (auto simp: tx_bind_def sql_def query_def select_job_row [OF ok] tx_scan_def scan_row_def tx_fail_def IsInvalidState_def split: if_splits)
  next
    case (Some j)
    have rows: "filter (by_id i) (jobs d) = [j]" by (rule db_ok_row(1) [OF ok Some])
    show ?thesis
    proof (cases "retryable (job_status j)")
      case True
      then have "plain e" using body Some rows
        by (auto simp: tx_bind_def sql_def query_def select_job_row [OF ok] tx_scan_def scan_row_def tx_fail_def tx_return_def
            update_jobs_def retryable_def split: if_splits sum.splits dest: appendJobLog_plain)
      then show ?thesis using False by simp
    next
      case False
      then have "e = ErrInvalidState ''only failed, dead_letter, or cancelled jobs can be retried'' \<or> e = ErrConn" using body Some
        by (auto simp: tx_bind_def sql_def query_def select_job_row [OF ok] tx_scan_def scan_row_def tx_fail_def tx_return_def
            retryable_def split: if_splits)
      then show ?thesis using Some False same by (auto simp: IsNotFound_def IsInvalidState_def)
    qed
  qed
qed

lemma signal_job_run:
  "run_state (signal_job w sv q) s = (u, s') \<Longrightarrow> published s' = published s @ [q] \<and> p_db s' = p_db s \<and> p_calls s' = Suc (p_calls s)"
  by (auto simp: signal_job_def publish_def take_samples_def Let_def published_def map_filter_def filter_empty_conv
      split: if_splits)

lemma take_samples_run: "run_state (take_samples xs) s = (u, s') \<Longrightarrow> published s' = published s \<and> p_db s' = p_db s"
  by (auto simp: take_samples_def)

text \<open>
  The statuses of a manual retry. For a well-formed id the reply is 200, 404, 409 or 500: 200 with
  the requeued job, which is queued in the database and whose queue is signalled once; 404 exactly for
  a job that does not exist and 409 for one that is not failed, dead or cancelled, both without any
  effect. Only a 500 leaves open what happened.
\<close>

lemma handleRetryJob_statuses:
  assumes "db_ok d" and "d = w_others w (p_calls s) (p_db s)" and "w_uuid_parse w ref = Some i"
    and "run_state (handleRetryJob w sv ref) s = (r, s')"
  shows "rs_status r \<in> {200, 404, 409, 500} \<and>
    (rs_status r = 200 \<longrightarrow> (\<exists>j. find_row job_id i (jobs d) = Some j \<and> retryable (job_status j) \<and>
      rs_body r = JobBody (retry_set (w_now w (p_calls s)) j) \<and> status_of (p_db s') i = Some Queued \<and>
      published s' = published s @ [job_queue j])) \<and>
    (rs_status r = 404 \<longrightarrow> find_row job_id i (jobs d) = None \<and> p_db s' = d) \<and>
    (rs_status r = 409 \<longrightarrow> (\<exists>j. find_row job_id i (jobs d) = Some j \<and> \<not> retryable (job_status j)) \<and> p_db s' = d) \<and>
    (rs_status r \<noteq> 200 \<longrightarrow> published s' = published s)"
proof -
  let ?call = "\<lambda>k. RetryJob (w_jsonb w) (w_now w k) (w_ids w k 0) i (w_net w k)"
  obtain x s1 where 1: "run_state (store_call w ?call) s = (x, s1)" by (rule prod.exhaust)
  from store_call_run [OF 1] have f: "?call (p_calls s) d = (x, p_db s1)" "published s1 = published s" using assms(2) by simp_all
  show ?thesis
  proof (cases x)
    case (Inl e)
    then have out: "r = writeStorageError e ''failed to retry job''" "s' = s1"
      using assms(3,4) 1 by (simp_all add: handleRetryJob_def)
    have "fst (?call (p_calls s) d) = Inl e" "snd (?call (p_calls s) d) = p_db s1" using f Inl by simp_all
    with RetryJob_error [OF assms(1) this(1)] show ?thesis
      using out f(2) by (auto simp: writeStorageError_def writeError_def)
  next
    case (Inr job)
    obtain u s2 where 2: "run_state (take_samples (RecordJobRetried (sv_metrics sv) job)) s1 = (u, s2)" by (rule prod.exhaust)
    obtain v s3 where 3: "run_state (signal_job w sv (job_queue job)) s2 = (v, s3)" by (rule prod.exhaust)
    have out: "r = Response 200 (JobBody job)" "s' = s3"
      using assms(3,4) 1 2 3 Inr by (simp_all add: handleRetryJob_def)
    obtain j where j: "find_row job_id i (jobs d) = Some j" "retryable (job_status j)" "job = retry_set (w_now w (p_calls s)) j"
        "jobs (p_db s1) = update_rows (by_id i) (retry_set (w_now w (p_calls s))) (jobs d)"
      using retry.success [OF f(1) [unfolded Inr]] by (auto simp: manual_commit_def log_commit_def)
    have "job_id j = i" using find_row_Some [OF j(1)] by simp
    then have "status_of (p_db s1) i = Some Queued"
      using j(1) by (simp add: status_of_def j(4) find_row_update_rows)
    moreover have "p_db s3 = p_db s1" "published s3 = published s @ [job_queue job]"
      using signal_job_run [OF 3] take_samples_run [OF 2] f(2) by simp_all
    moreover have "job_queue job = job_queue j" by (simp add: j(3) retry_set_def)
    ultimately show ?thesis using out j by (simp add: status_of_def)
  qed
qed

lemma handleRetryJob_statuses_witness:
  "rs_status (fst (run_state (handleRetryJob (sample_world\<lparr>w_uuid_parse := (\<lambda>x. Some 7)\<rparr>) (NewServer ''secret'' None) ''7'')
     \<lparr>p_db = sample_db, p_calls = 0, p_events = []\<rparr>)) \<in> {200, 404, 409, 500}"
proof -
  let ?w = "sample_world\<lparr>w_uuid_parse := (\<lambda>x. Some 7)\<rparr>"
  obtain r s' where run: "run_state (handleRetryJob ?w (NewServer ''secret'' None) ''7'') \<lparr>p_db = sample_db, p_calls = 0, p_events = []\<rparr> = (r, s')"
    by (rule prod.exhaust)
  show ?thesis
    using handleRetryJob_statuses [OF sample_db_ok _ _ run, of 7] run by (simp add: sample_world_def)
qed

section \<open>Creating jobs through the API\<close>

definition known :: "uuid \<Rightarrow> db \<Rightarrow> bool" where
  "known i d \<longleftrightarrow> status_of d i \<noteq> None"

lemma known_stable: "stable (known i)"
  unfolding stable_def
proof (intro allI impI)
  fix d d'
  assume "db_ok d" "store_step d d'" and known: "known i d"
  have "queue_step (status_of d) (status_of d')" by (rule queue.simulates) fact+
  with known show "known i d'"
    unfolding queue_step_def known_def by (metis option.distinct(1))
qed

lemma known_row: "j \<in> set (jobs d) \<Longrightarrow> known (job_id j) d"
  by (auto simp: known_def status_of_def find_row_None)

lemma create_known: "create_commit jsonb now gid p d r d' \<Longrightarrow> known (job_id (fst r)) d'"
  by (auto simp: create_commit_def intro: known_row split: if_splits)

lemma create_key:
  assumes "create_commit jsonb now gid (create_params_of tc req) d r d'" and "TrimSpace (cjr_idempotency_key req) \<noteq> []"
  shows "job_idempotency_key (fst r) = Some (TrimSpace (cjr_idempotency_key req))"
  using assms check_create_Inr(1) [of "create_params_of tc req"]
  by (auto simp: create_commit_def create_params_of_def new_job_def nullif_def nullableStringValue_def split: if_splits)

lemma append_log_run:
  "run_state (append_log_call w p) s = (u, s') \<Longrightarrow> published s' = published s"
  unfolding append_log_call_def by (auto dest: store_call_run)

text \<open>The request that \<open>handleCreateJob\<close> hands to the store, and what it does with the answer.\<close>

definition normal_request :: "create_job_request \<Rightarrow> create_job_request" where
  "normal_request req =
     (let req = (if cjr_queue req = [] then req\<lparr>cjr_queue := ''default''\<rparr> else req)
      in if cjr_payload req = [] then req\<lparr>cjr_payload := [CHR 0x7B, CHR 0x7D]\<rparr> else req)"

lemma normal_request_keeps [simp]:
  "cjr_type (normal_request req) = cjr_type req" "cjr_delay_seconds (normal_request req) = cjr_delay_seconds req"
  "cjr_idempotency_key (normal_request req) = cjr_idempotency_key req"
  by (simp_all add: normal_request_def Let_def)

abbreviation create_call :: "world \<Rightarrow> trace_context \<Rightarrow> create_job_request \<Rightarrow> nat \<Rightarrow> db \<Rightarrow> (job \<times> bool) result" where
  "create_call w tc req k \<equiv>
     CreateJob (w_jsonb w) (w_net w k) (w_now w k) (w_ids w k 0) (create_params_of tc (normal_request req))"

definition submitted :: "world \<Rightarrow> server \<Rightarrow> request \<Rightarrow> create_job_request \<Rightarrow> job \<Rightarrow> bool \<Rightarrow> response cmd" where
  "submitted w sv rq req job existing = do {
     take_samples (RecordJobSubmitted (sv_metrics sv) (job_queue job) (job_type job) existing);
     (if \<not> existing \<and> cjr_delay_seconds req = 0 then signal_job w sv (job_queue job) else ret ());
     (if \<not> existing
      then append_log_call w \<lparr>lp_job_id = job_id job, lp_attempt_id = None, lp_level = ''info'',
        lp_message = ''job submitted'', lp_fields = mustJSON (addTraceFields (w_span w)
          [(''request_id'', JText (rq_id rq)), (''queue'', JText (job_queue job)),
           (''job_type'', JText (job_type job)), (''source'', JText ''api'')])\<rparr> \<bind> (\<lambda>_. ret ())
      else ret ());
     ret (Response StatusCreated (JobCreated job existing))
   }"

lemma handleCreateJob_submits:
  assumes "rq_job rq = Some req" and "cjr_type req \<noteq> []"
  shows "handleCreateJob w tc sv rq = do {
     res \<leftarrow> store_call w (create_call w tc req);
     case res of
       Inl e \<Rightarrow> ret (Response StatusBadRequest (Failure (ErrorOf e)))
     | Inr created \<Rightarrow> submitted w sv rq req (fst created) (snd created)
   }"
  using assms by (simp add: handleCreateJob_def normal_request_def submitted_def Let_def)

lemma submitted_run:
  assumes "run_state (submitted w sv rq req job existing) s = (r, s')"
  shows "r = Response 201 (JobCreated job existing) \<and>
    published s' = published s @ (if \<not> existing \<and> cjr_delay_seconds req = 0 then [job_queue job] else [])"
proof -
  obtain u s1 where 1: "run_state (take_samples (RecordJobSubmitted (sv_metrics sv) (job_queue job) (job_type job) existing)) s = (u, s1)"
    by (rule prod.exhaust)
  obtain v s2 where 2: "run_state (if \<not> existing \<and> cjr_delay_seconds req = 0 then signal_job w sv (job_queue job) else ret ()) s1 = (v, s2)"
    by (rule prod.exhaust)
  have "published s2 = published s1 @ (if \<not> existing \<and> cjr_delay_seconds req = 0 then [job_queue job] else [])"
    using 2 signal_job_run by (auto split: if_splits)
  then show ?thesis
    using assms 1 2 take_samples_run [OF 1] append_log_run
    by (auto simp: submitted_def split: if_splits prod.splits)
qed

lemma store_only_submitted: "fair w \<Longrightarrow> store_only (submitted w sv rq req job existing)"
  unfolding submitted_def by (intro store_only_rules)

text \<open>
  C22. A created job is durable. When \<open>POST /jobs\<close> answers 201, the job it shows is in the database, then and
  in every later state, whatever the other clients did meanwhile; it carries the trimmed idempotency
  key of the request; and its queue is signalled once exactly when the job is new and due at once.
  Every other answer is a 400, and then nothing is signalled.
\<close>

theorem handleCreateJob_durable:
  assumes "fair w" and "db_ok (p_db s)" and "rq_job rq = Some req"
    and "run_state (handleCreateJob w tc sv rq) s = (r, s')"
  shows "(\<exists>j existing. r = Response 201 (JobCreated j existing) \<and>
      (\<forall>d. store_step\<^sup>*\<^sup>* (p_db s') d \<longrightarrow> status_of d (job_id j) \<noteq> None) \<and>
      (TrimSpace (cjr_idempotency_key req) \<noteq> [] \<longrightarrow> job_idempotency_key j = Some (TrimSpace (cjr_idempotency_key req))) \<and>
      published s' = published s @ (if \<not> existing \<and> cjr_delay_seconds req = 0 then [job_queue j] else [])) \<or>
    (rs_status r = 400 \<and> published s' = published s)"
proof (cases "cjr_type req = []")
  case True
  then have "handleCreateJob w tc sv rq = ret (writeError 400 ''type is required'')"
    by (simp add: handleCreateJob_def assms(3) Let_def)
  then show ?thesis using assms(4) by (auto simp: writeError_def)
next
  case False
  obtain x s1 where 1: "run_state (store_call w (create_call w tc req)) s = (x, s1)" by (rule prod.exhaust)
  from store_call_run [OF 1] have f: "create_call w tc req (p_calls s) (w_others w (p_calls s) (p_db s)) = (x, p_db s1)"
    "published s1 = published s" by simp_all
  show ?thesis
  proof (cases x)
    case (Inl e)
    then show ?thesis using assms(4) 1 f(2) by (auto simp: handleCreateJob_submits [OF assms(3) False])
  next
    case (Inr created)
    obtain j existing where c: "created = (j, existing)" by (rule prod.exhaust)
    have run: "run_state (submitted w sv rq req j existing) s1 = (r, s')"
      using assms(4) 1 Inr c by (simp add: handleCreateJob_submits [OF assms(3) False])
    have commit: "create_commit (w_jsonb w) (w_now w (p_calls s)) (w_ids w (p_calls s) 0)
        (create_params_of tc (normal_request req)) (w_others w (p_calls s) (p_db s)) (j, existing) (p_db s1)"
      using create.success f(1) Inr c by blast
    have "store_step\<^sup>*\<^sup>* (p_db s) (p_db s1)"
      by (rule store_onlyD [OF store_only_call [OF assms(1)] 1]) (rule disjI2, rule store_step.create)
    then have ok: "db_ok (p_db s1)" using assms(2) by (rule store.good_run)
    have "known (job_id j) d" if "store_step\<^sup>*\<^sup>* (p_db s') d" for d
    proof -
      have "store_step\<^sup>*\<^sup>* (p_db s1) d"
        using store_onlyD [OF store_only_submitted [OF assms(1)] run] that by (rule rtranclp_trans)
      then show ?thesis using stable_run [OF known_stable _ ok] create_known [OF commit] by simp
    qed
    then have "\<forall>d. store_step\<^sup>*\<^sup>* (p_db s') d \<longrightarrow> status_of d (job_id j) \<noteq> None" by (simp add: known_def)
    moreover have "TrimSpace (cjr_idempotency_key req) \<noteq> [] \<longrightarrow> job_idempotency_key j = Some (TrimSpace (cjr_idempotency_key req))"
      using create_key [OF commit] by simp
    ultimately show ?thesis
      using submitted_run [OF run] f(2) by (intro disjI1 exI [of _ j] exI [of _ existing]) simp
  qed
qed

theorem handleCreateJob_durable_witness:
  "rs_status (fst (run_state (handleCreateJob sample_world \<lparr>tc_parent = [], tc_state = []\<rparr> (NewServer ''secret'' None)
     (sample_request PostJobs)) \<lparr>p_db = sample_db, p_calls = 0, p_events = []\<rparr>)) \<in> {201, 400}"
proof -
  let ?s = "\<lparr>p_db = sample_db, p_calls = 0, p_events = []\<rparr>"
  obtain r s' where run: "run_state (handleCreateJob sample_world \<lparr>tc_parent = [], tc_state = []\<rparr> (NewServer ''secret'' None)
     (sample_request PostJobs)) ?s = (r, s')" by (rule prod.exhaust)
  obtain req where req: "rq_job (sample_request PostJobs) = Some req" by (simp add: sample_request_def)
  have ok: "db_ok (p_db ?s)" by (simp add: sample_db_ok)
  have "rs_status r \<in> {201, 400}"
    using handleCreateJob_durable [OF sample_world_quiet(2) ok req run] by auto
  then show ?thesis using run by simp
qed

text \<open>
  An outage is reported as a bad request, although the job may have been stored. When the
  acknowledgement of the INSERT of a valid request is lost, \<open>POST /jobs\<close> answers 400 with the
  connection's error; the job is in the database then, and its queue is not signalled.
\<close>

lemma create_outage_is_bad_request:
  assumes "quiet w" and "rq_job rq = Some req" and "cjr_type req \<noteq> []"
    and "check_create (create_params_of tc (normal_request req)) = Inr q"
    and "w_net w (p_calls s) 0 = AckLost" and "TrimSpace (cjr_idempotency_key req) = []"
    and "w_ids w (p_calls s) 0 \<notin> job_id ` set (jobs (p_db s))"
    and "run_state (handleCreateJob w tc sv rq) s = (r, s')"
  shows "r = Response 400 (Failure (ErrorOf ErrConn)) \<and> published s' = published s \<and>
    jobs (p_db s') = jobs (p_db s) @ [new_job (w_jsonb w) (w_now w (p_calls s)) (w_ids w (p_calls s) 0) q]"
proof -
  have "cp_idempotency_key q = None"
    using check_create_Inr(1) [OF assms(4)] assms(6) by (simp add: create_params_of_def)
  then have free: "\<not> key_taken (job_idempotency_key (new_job jsonb now gid q)) d" for jsonb now gid d
    by (simp add: key_taken_def new_job_def nullif_def nullableStringValue_def)
  have "create_call w tc req (p_calls s) (p_db s) = (Inl ErrConn, (p_db s)\<lparr>jobs := jobs (p_db s) @
      [new_job (w_jsonb w) (w_now w (p_calls s)) (w_ids w (p_calls s) 0) q]\<rparr>)"
    using assms(4,5,7) free by (simp add: CreateJob_def run_sql_def insert_job_def scan_result_def)
  then show ?thesis
    using assms(1,8) by (auto simp: handleCreateJob_submits [OF assms(2,3)] store_call_def Let_def quiet_def published_def)
qed

definition outage_world :: world where
  "outage_world = sample_world\<lparr>w_net := (\<lambda>k i. AckLost)\<rparr>"

lemma create_outage_is_bad_request_witness:
  "rs_status (fst (run_state (handleCreateJob outage_world \<lparr>tc_parent = [], tc_state = []\<rparr> (NewServer ''secret'' None)
     ((sample_request PostJobs)\<lparr>rq_job := map_option (\<lambda>req. req\<lparr>cjr_idempotency_key := []\<rparr>) (rq_job (sample_request PostJobs))\<rparr>))
     \<lparr>p_db = empty_db, p_calls = 0, p_events = []\<rparr>)) = 400"
proof -
  let ?rq = "(sample_request PostJobs)\<lparr>rq_job := map_option (\<lambda>req. req\<lparr>cjr_idempotency_key := []\<rparr>) (rq_job (sample_request PostJobs))\<rparr>"
  let ?tc = "\<lparr>tc_parent = [], tc_state = []\<rparr> :: trace_context" and ?s = "\<lparr>p_db = empty_db, p_calls = 0, p_events = []\<rparr>"
  obtain r s' where run: "run_state (handleCreateJob outage_world ?tc (NewServer ''secret'' None) ?rq) ?s = (r, s')" by (rule prod.exhaust)
  have w: "quiet outage_world" "w_net outage_world k 0 = AckLost" for k
    by (simp_all add: outage_world_def sample_world_def quiet_def)
  let ?req = "(the (rq_job (sample_request PostJobs)))\<lparr>cjr_idempotency_key := []\<rparr>"
  have "isl (check_create (create_params_of ?tc (normal_request ?req))) = False" by code_simp
  then obtain q where q: "check_create (create_params_of ?tc (normal_request ?req)) = Inr q"
    by (cases "check_create (create_params_of ?tc (normal_request ?req))") auto
  have req: "rq_job ?rq = Some ?req" "cjr_type ?req \<noteq> []" "TrimSpace (cjr_idempotency_key ?req) = []"
    by (simp_all add: sample_request_def)
  show ?thesis
    using create_outage_is_bad_request [OF w(1) req(1,2) q w(2) req(3) _ run] run by (simp add: empty_db_def)
qed

section \<open>Limits\<close>

text \<open>The conversion to \<open>int32\<close> drops the high bits of a large limit: 4294967297 asks for one row.\<close>

lemma limit_wraps:
  assumes "Atoi raw = Some (m + 2 ^ 32 * k)" and "0 \<le> k" and "0 < m" and "m < 2 ^ 31" and "raw \<noteq> []"
  shows "parse_limit fallback raw = Some m"
proof -
  have "wrap32 (m + 2 ^ 32 * k) = m" using assms(3,4) mod_mult_self2 [of "m + 2 ^ 31" "2 ^ 32" k] by (simp add: wrap32_def algebra_simps)
  moreover have "0 < m + 2 ^ 32 * k" using assms(2,3) by (simp add: add_pos_nonneg)
  ultimately show ?thesis using assms(1,5) by (simp add: parse_limit_def)
qed

definition listed :: "request \<Rightarrow> job \<Rightarrow> bool" where
  "listed rq j \<longleftrightarrow> (rq_status rq = [] \<or> job_status_text (job_status j) = rq_status rq) \<and> (rq_queue rq = [] \<or> job_queue j = rq_queue rq)"

text \<open>
  Listing jobs. A listing shows jobs of the database that match the filters, newest first, and the
  newest of them: it is as long as the limit and the matches allow, the limit being 50 unless the
  request names one between 1 and 100, and what it leaves out is no newer than what it shows.
\<close>

lemma handleListJobs_newest:
  assumes "run_state (handleListJobs w rq) s = (r, s')" and "rs_body r = JobsBody js"
  shows "\<exists>n. parse_limit 50 (rq_limit rq) = Some n \<and>
    set js \<subseteq> {j \<in> set (jobs (p_db s')). listed rq j} \<and> length js \<le> 100 \<and>
    length js = min (nat (if 1 \<le> n \<and> n \<le> 100 then n else 50)) (length (filter (listed rq) (jobs (p_db s')))) \<and>
    sorted_wrt (\<lambda>j k. job_created_at k \<le> job_created_at j) js \<and>
    (\<forall>j \<in> set (jobs (p_db s')). listed rq j \<and> j \<notin> set js \<longrightarrow> (\<forall>k \<in> set js. job_created_at j \<le> job_created_at k))"
proof -
  obtain n where n: "parse_limit 50 (rq_limit rq) = Some n"
    using assms by (cases "parse_limit 50 (rq_limit rq)") (auto simp: handleListJobs_def writeError_def)
  let ?f = "\<lambda>k. ListJobs (w_net w k) \<lparr>lf_status = rq_status rq, lf_queue = rq_queue rq, lf_limit = n\<rparr>"
  let ?limit = "nat (if 1 \<le> n \<and> n \<le> 100 then n else 50)"
  let ?le = "desc job_created_at ties"
  obtain x s1 where 1: "run_state (store_call w ?f) s = (x, s1)" by (rule prod.exhaust)
  have x: "x = Inr js" "s' = s1"
    using assms 1 n by (auto simp: handleListJobs_def writeError_def split: sum.splits)
  let ?M = "filter (listed rq) (jobs (p_db s'))"
  have limit: "(if n \<le> 0 \<or> n > 100 then 50 else n) = (if 1 \<le> n \<and> n \<le> 100 then n else 50)" by auto
  have js: "js = take ?limit (order_by ?le ?M)"
    using store_call_run [OF 1] x
    by (auto simp: ListJobs_def Let_def run_sql_query limit listed_def [abs_def] split: if_splits)
  note order = desc_row_order [OF ties_row_order, of job_created_at]
  have sorted: "sorted_wrt ?le (order_by ?le ?M)" by (rule row_order.sorted_order_by [OF order])
  have sub: "set js \<subseteq> set ?M" unfolding js by (rule subsetI, rule set_take_order_by)
  have "sorted_wrt ?le js" unfolding js by (rule sorted_wrt_take [OF sorted])
  then have "sorted_wrt (\<lambda>j k. job_created_at k \<le> job_created_at j) js"
    by (rule sorted_wrt_mono_rel [rotated]) (auto simp: desc_def)
  moreover have "job_created_at j \<le> job_created_at k" if "j \<in> set ?M" "j \<notin> set js" "k \<in> set js" for j k
  proof -
    have "j \<in> set (drop ?limit (order_by ?le ?M))"
      using that(1,2) js by (metis Un_iff append_take_drop_id set_append set_order_by)
    then have "?le k j" using row_order.limit_least [OF order] that(3) unfolding js by blast
    then show ?thesis by (auto simp: desc_def)
  qed
  moreover have "length js = min ?limit (length ?M)" by (simp add: js)
  moreover have "length js \<le> 100" using calculation(3) by (auto split: if_splits)
  ultimately show ?thesis using n sub by auto
qed

lemma handleListJobs_newest_witness:
  "\<exists>js. rs_body (fst (run_state (handleListJobs sample_world (sample_request GetJobs)) \<lparr>p_db = sample_db, p_calls = 0, p_events = []\<rparr>)) = JobsBody js \<and>
     length js = 1"
proof -
  let ?s = "\<lparr>p_db = sample_db, p_calls = 0, p_events = []\<rparr>"
  obtain r s' where run: "run_state (handleListJobs sample_world (sample_request GetJobs)) ?s = (r, s')" by (rule prod.exhaust)
  have body: "rs_body r = JobsBody (jobs sample_db)" "p_db s' = sample_db"
    using run by (auto simp: handleListJobs_def parse_limit_def sample_request_def store_call_def Let_def ListJobs_def run_sql_query
        sample_world_def sample_db_def)
  show ?thesis
    using handleListJobs_newest [OF run body(1)] run body
    by (auto simp: sample_db_def sample_request_def listed_def parse_limit_def)
qed

end
