(* ===== verification/Completion.thy ===== *)
theory Completion
  imports WorkerPool Config Api
begin

text \<open>
  Work that is due gets done. The components are put together: a job that \<open>POST /jobs\<close> created
  (\<open>Api\<close>) is taken by the drain loop of a worker (\<open>Worker\<close>) and succeeds when its handler does, if
  nobody interferes and the network answers. \<open>fresh_ids\<close> states what \<open>uuid.New\<close> and
  \<open>gen_random_uuid\<close> are relied on for.
\<close>

section \<open>Calls are counted\<close>

definition counting :: "'a cmd \<Rightarrow> bool" where
  "counting m \<longleftrightarrow> state_io_rel (\<lambda>s s'. p_calls s \<le> p_calls s') m"

named_theorems counting_rules \<open>computations whose calls are counted\<close>

lemma countingD: "counting m \<Longrightarrow> run_state m s = (a, s') \<Longrightarrow> p_calls s \<le> p_calls s'"
  by (metis counting_def state_io_rel_def snd_conv)

lemma counting_base [counting_rules]:
  "counting (ret a)" "counting (store_call w f)" "counting (publish w q)" "counting (take_samples xs)" "counting moment"
  by (simp_all add: counting_def state_io_rel_def store_call_def publish_def take_samples_def moment_def Let_def split_beta)

lemma counting_bind [counting_rules]:
  assumes "counting m" and "\<And>a. counting (f a)"
  shows "counting (m \<bind> f)"
proof -
  have "p_calls s \<le> p_calls (snd (run_state (m \<bind> f) s))" for s
  proof -
    obtain a s1 where 1: "run_state m s = (a, s1)" by fastforce
    obtain b s2 where 2: "run_state (f a) s1 = (b, s2)" by fastforce
    show ?thesis using countingD [OF assms(1) 1] countingD [OF assms(2) 2] by (simp add: 1 2)
  qed
  then show ?thesis by (simp add: counting_def state_io_rel_def)
qed

lemma counting_if [counting_rules]: "counting m \<Longrightarrow> counting n \<Longrightarrow> counting (if b then m else n)"
  by simp

lemma counting_sum [counting_rules]:
  "(\<And>e. counting (f e)) \<Longrightarrow> (\<And>a. counting (g a)) \<Longrightarrow> counting (case x of Inl e \<Rightarrow> f e | Inr a \<Rightarrow> g a)"
  by (cases x) simp_all

lemma counting_option [counting_rules]:
  "counting m \<Longrightarrow> (\<And>a. counting (g a)) \<Longrightarrow> counting (case x of None \<Rightarrow> m | Some a \<Rightarrow> g a)"
  by (cases x) simp_all

lemma counting_execute: "counting (execute w pd since r claimed sl)"
  unfolding execute_def fail_job_def worker_log_def append_log_call_def Let_def by (intro counting_rules)

section \<open>A claim and its execution\<close>

definition queue_of :: "runner \<Rightarrow> string" where
  "queue_of r = (if rn_queue r = [] then ''default'' else rn_queue r)"

text \<open>The ids that the calls from \<open>k\<close> up to \<open>K\<close> hand out are not in use, and no two calls hand out the same.\<close>

definition fresh_ids :: "world \<Rightarrow> nat \<Rightarrow> nat \<Rightarrow> db \<Rightarrow> bool" where
  "fresh_ids w k K d \<longleftrightarrow>
     (\<forall>n \<in> {k..<K}. w_ids w n 0 \<notin> att_id ` set (attempts d) \<and> w_ids w n 1 \<notin> att_lease_token ` set (attempts d)) \<and>
     inj_on (\<lambda>n. w_ids w n 0) {k..<K} \<and> inj_on (\<lambda>n. w_ids w n 1) {k..<K}"

lemma fresh_ids_later: "fresh_ids w k K d \<Longrightarrow> k \<le> k' \<Longrightarrow> K' \<le> K \<Longrightarrow> attempts d' = attempts d \<Longrightarrow> fresh_ids w k' K' d'"
  by (auto simp: fresh_ids_def elim!: inj_on_subset)

definition room :: "db \<Rightarrow> bool" where
  "room d \<longleftrightarrow> (\<forall>j \<in> set (jobs d). job_max_attempts j < 2 ^ 31 - 1)"

text \<open>Nobody else works, every call is answered, no row is locked, and the clock does not run backwards.\<close>

definition calm :: "world \<Rightarrow> bool" where
  "calm w \<longleftrightarrow> quiet w \<and> (\<forall>k. w_net w k = all_served \<and> w_locked w k = {}) \<and> mono (w_now w)"

lemma calm_fair: "calm w \<Longrightarrow> fair w"
  by (simp add: calm_def quiet_def fair_def)

lemma room_int32:
  assumes "db_ok d" and "room d" and "j \<in> set (jobs d)"
  shows "int32 (job_attempt_count j + 1)"
proof -
  have "job_ok (attempts_of (job_id j) (attempts d)) j" using assms(1,3) by (simp add: db_ok_def jobs_ok_def)
  then have "0 \<le> job_attempt_count j" "job_attempt_count j \<le> normalizedMaxAttempts (job_max_attempts j)"
    by (simp_all add: job_ok_def count_ok_def)
  then show ?thesis using assms(2,3) by (auto simp: room_def int32_def normalizedMaxAttempts_def split: if_splits)
qed

lemma runHandler_claim_set [simp]: "runHandler pd (claim_set now w lease t j) = runHandler pd j"
proof -
  have "job_type (claim_set now w lease t j) = job_type j" "job_payload (claim_set now w lease t j) = job_payload j"
    "job_deadline (claim_set now w lease t j) = job_deadline j"
    by (simp_all add: claim_set_def job_deadline_def)
  note same = this
  show ?thesis unfolding runHandler_def same by (rule refl)
qed

lemma outcome_keeps [simp]:
  "job_id (outcome_set now policy j res k) = job_id k"
  "job_max_attempts (outcome_set now policy j res k) = job_max_attempts k"
  "att_id (outcome_attempt now res a) = att_id a" "att_lease_token (outcome_attempt now res a) = att_lease_token a"
  by (simp_all add: outcome_set_def outcome_attempt_def complete_set_def fail_set_def reschedule_set_def dead_letter_set_def
      attempt_succeed_def attempt_fail_def split: option.split)

text \<open>One turn of the drain loop.\<close>

lemma turn:
  assumes w: "calm w" and d: "db_ok (p_db s)" "room (p_db s)" "fresh_ids w (p_calls s) K (p_db s)"
    and c: "ClaimJob {} (w_now w (p_calls s)) (w_ids w (p_calls s) 0) (w_ids w (p_calls s) 1) (rn_queue r) (rn_worker_id r)
      (rn_lease r) all_served (p_db s) = (Inr (Some cl), d1)"
    and run: "run_state (execute w pd since r cl sl) (s\<lparr>p_db := d1, p_calls := Suc (p_calls s)\<rparr>) = (u, s')"
  obtains j where "j \<in> set (jobs (p_db s))" "claim_due (w_now w (p_calls s)) (queue_of r) j"
    "room (p_db s')" "fresh_ids w (p_calls s') K (p_db s')" "p_calls s < p_calls s'"
    "\<And>k. k \<in> set (jobs (p_db s)) \<Longrightarrow> k \<noteq> j \<Longrightarrow> k \<in> set (jobs (p_db s'))"
    "runHandler pd j = None \<Longrightarrow> status_of (p_db s') (job_id j) = Some Succeeded"
proof -
  let ?k = "p_calls s" and ?d = "p_db s"
  let ?now = "w_now w ?k" and ?gid = "w_ids w ?k 0" and ?t = "w_ids w ?k 1"
  let ?w = "if rn_worker_id r = [] then ''worker-unknown'' else rn_worker_id r"
  have "claim_commit {} ?now ?gid ?t (queue_of r) ?w (rn_lease r) ?d (Some cl) d1"
    using claim.success [OF c] by (simp add: queue_of_def)
  with d(1) show ?thesis
  proof (cases rule: claim_commit_cases)
    case (claimed j a)
    let ?j = "claim_set ?now ?w (rn_lease r) ?t j"
    have jobs1: "jobs d1 = map (\<lambda>k. if k = j then ?j else k) (jobs ?d)"
      using update_by_id [OF d(1)] find_row_unique [OF db_ok_distinct(1) [OF d(1)] claimed(2)] by (simp add: claimed(9))
    have j1: "?j \<in> set (jobs d1)" using claimed(2) by (auto simp: jobs1 image_iff)
    have fenced: "job_fenced (job_id ?j) ?t ?j" "job_lease_token ?j = Some ?t" by (simp_all add: job_fenced_def claim_set_def)
    have ok1: "db_ok d1" using ClaimJob_db_ok [OF d(1)] c by (metis snd_conv)
    let ?now' = "w_now w (Suc (Suc ?k))" and ?res = "runHandler pd j"
    let ?f = "outcome_set ?now' (rn_policy r) ?j ?res" and ?g = "outcome_attempt ?now' ?res"
    have "quiet w" "\<And>k. w_net w k = all_served" using w by (simp_all add: calm_def)
    note ex = execute_run [OF this ok1 j1 fenced refl, where pd = pd and a = a and since = since and sl = sl and r = r and ?k0.0 = "Suc ?k"]
    have id: "job_id ?j = job_id j" by (simp add: claim_set_def)
    have s': "jobs (p_db s') = update_rows (by_id (job_id j)) ?f (jobs d1)"
        "attempts (p_db s') = update_rows (attempt_fenced (job_id j) ?t) ?g (attempts d1)"
      using tripleD [OF ex, of "s\<lparr>p_db := d1, p_calls := Suc ?k\<rparr>" u s'] run claimed(1)
      by (simp_all add: close_lease_def id)
    have calls: "Suc ?k \<le> p_calls s'" using countingD [OF counting_execute run] by simp
    show ?thesis
    proof (rule that [OF claimed(2,4)])
      show "room (p_db s')"
        using d(2) claimed(2) by (auto simp: room_def s'(1) set_update_rows jobs1 claim_set_def split: if_splits)
      have ids: "att_id ` set (attempts (p_db s')) = insert ?gid (att_id ` set (attempts ?d))"
          "att_lease_token ` set (attempts (p_db s')) = insert ?t (att_lease_token ` set (attempts ?d))"
        unfolding s'(2) by (simp_all add: image_update_rows claimed(6,9) new_attempt_def)
      show "fresh_ids w (p_calls s') K (p_db s')"
        unfolding fresh_ids_def ids
      proof (intro conjI ballI)
        fix n assume n: "n \<in> {p_calls s'..<K}"
        then have "n \<in> {?k..<K}" "?k \<in> {?k..<K}" "n \<noteq> ?k" using calls by auto
        then show "w_ids w n 0 \<notin> insert ?gid (att_id ` set (attempts ?d))"
            "w_ids w n 1 \<notin> insert ?t (att_lease_token ` set (attempts ?d))"
          using d(3) by (auto simp: fresh_ids_def dest: inj_onD)
      next
        have "{p_calls s'..<K} \<subseteq> {?k..<K}" using calls by auto
        then show "inj_on (\<lambda>n. w_ids w n 0) {p_calls s'..<K}" "inj_on (\<lambda>n. w_ids w n 1) {p_calls s'..<K}"
          using d(3) by (auto simp: fresh_ids_def elim!: inj_on_subset)
      qed
      show "?k < p_calls s'" using calls by simp
      show "k \<in> set (jobs (p_db s'))" if "k \<in> set (jobs ?d)" "k \<noteq> j" for k
      proof -
        have "job_id k \<noteq> job_id j" using key_unique [OF db_ok_distinct(1) [OF d(1)] that(1) claimed(2)] that(2) by blast
        moreover have "k \<in> set (jobs d1)" using that by (auto simp: jobs1 image_iff)
        ultimately show ?thesis by (auto simp: s'(1) set_update_rows)
      qed
      show "status_of (p_db s') (job_id j) = Some Succeeded" if "runHandler pd j = None"
      proof -
        have "find_row job_id (job_id j) (jobs d1) = Some ?j"
          using find_row_unique [OF db_ok_distinct(1) [OF ok1] j1] id by simp
        then show ?thesis
          using that by (simp add: status_of_def s'(1) find_row_update_rows id outcome_set_def complete_set_def)
      qed
    qed
  qed simp
qed

lemma counting_drain: "counting (drain w pd since cancelled r sl n)"
  by (induction n) (auto intro!: counting_rules counting_execute)

lemma drain_counts:
  assumes "run_state (drain w pd since cancelled r sl (Suc n)) s = (out, s')"
  shows "p_calls s < p_calls s'"
proof -
  let ?f = "\<lambda>k. ClaimJob (w_locked w k) (w_now w k) (w_ids w k 0) (w_ids w k 1) (rn_queue r) (rn_worker_id r) (rn_lease r) (w_net w k)"
  let ?g = "\<lambda>res. case res of
     Inl e \<Rightarrow> ret (Some (Some e))
   | Inr claim \<Rightarrow> (case claim of
       None \<Rightarrow> ret (Some None)
     | Some claimed \<Rightarrow> do {
         execute w pd since r claimed sl;
         k \<leftarrow> moment;
         if cancelled k then ret (Some None) else drain w pd since cancelled r sl n
       })"
  obtain x s1 where 1: "run_state (store_call w ?f) s = (x, s1)" by (rule prod.exhaust)
  have "counting (?g x)" by (intro counting_rules counting_execute counting_drain)
  moreover have "run_state (?g x) s1 = (out, s')" using assms 1 by simp
  ultimately have "p_calls s1 \<le> p_calls s'" by (rule countingD)
  moreover have "p_calls s1 = Suc (p_calls s)" using 1 by (auto simp: store_call_def Let_def split: prod.splits)
  ultimately show ?thesis by simp
qed

lemma success_stable: "stable (\<lambda>d. status_of d i = Some Succeeded)"
  unfolding stable_def
proof (intro allI impI)
  fix d d'
  assume d: "db_ok d" "store_step d d'" "status_of d i = Some Succeeded"
  have "queue_step (status_of d) (status_of d')" by (rule queue.simulates) fact+
  then show "status_of d' i = Some Succeeded"
    unfolding queue_step_def using d(3) by (auto dest!: spec [of _ i] )
qed

section \<open>Draining completes what is due\<close>

lemma drain_completes:
  assumes w: "calm w" "\<And>k. \<not> cancelled k" and t0: "t0 \<le> w_now w (p_calls s)"
    and d: "db_ok (p_db s)" "room (p_db s)" "fresh_ids w (p_calls s) K (p_db s)" "remaining (p_db s) < n"
    and js: "\<And>j. j \<in> D \<Longrightarrow> claim_due t0 (queue_of r) j \<and> runHandler pd j = None"
      "\<And>j. j \<in> D \<Longrightarrow> j \<in> set (jobs (p_db s)) \<or> status_of (p_db s) (job_id j) = Some Succeeded"
    and run: "run_state (drain w pd since cancelled r sl n) s = (out, s')" and K: "p_calls s' \<le> K"
  shows "\<forall>j \<in> D. status_of (p_db s') (job_id j) = Some Succeeded"
  using t0 d js(2) run
proof (induction n arbitrary: s)
  case (Suc n)
  let ?k = "p_calls s" and ?d = "p_db s"
  let ?now = "w_now w ?k" and ?gid = "w_ids w ?k 0" and ?t = "w_ids w ?k 1"
  let ?claim = "ClaimJob {} ?now ?gid ?t (rn_queue r) (rn_worker_id r) (rn_lease r) all_served ?d"
  have due: "claim_due ?now (queue_of r) j" if "j \<in> D" for j
    using js(1) [OF that] Suc.prems(1) by (auto simp: claim_due_def)
  have call: "run_state (store_call w (\<lambda>k. ClaimJob (w_locked w k) (w_now w k) (w_ids w k 0) (w_ids w k 1) (rn_queue r)
      (rn_worker_id r) (rn_lease r) (w_net w k))) s = (fst ?claim, s\<lparr>p_db := snd ?claim, p_calls := Suc ?k\<rparr>)"
    using w(1) by (simp add: store_call_def Let_def calm_def quiet_def split_beta)
  note outcome = ClaimJob_outcome [OF Suc.prems(2), where locked = "{}" and now = ?now and gid = ?gid and t = ?t and queue = "rn_queue r"
      and w = "rn_worker_id r" and lease = "rn_lease r" and net = all_served]
  have "?k < p_calls s'" by (rule drain_counts [OF Suc.prems(7)])
  then have started: "?k \<in> {?k..<K}" using K by simp
  show ?case
  proof (cases "\<exists>k \<in> set (jobs ?d). claim_due ?now (queue_of r) k")
    case False
    then have "j \<notin> set (jobs ?d)" if "j \<in> D" for j using due [OF that] by blast
    then have over: "status_of ?d (job_id j) = Some Succeeded" if "j \<in> D" for j using Suc.prems(6) that by blast
    have ok: "db_ok (p_db s)" by (rule Suc.prems(2))
    have "store_step\<^sup>*\<^sup>* ?d (p_db s')"
      by (rule store_onlyD [OF store_only_drain [OF calm_fair [OF w(1)]] Suc.prems(7)])
    then show ?thesis using stable_run [OF success_stable _ ok] over by blast
  next
    case True
    then obtain k where k: "k \<in> set (jobs ?d)" "claim_due ?now (queue_of r) k" by blast
    have bound: "\<forall>j \<in> set (jobs ?d). int32 (job_attempt_count j + 1)" using room_int32 [OF Suc.prems(2,3)] by blast
    have unused: "?gid \<notin> att_id ` set (attempts ?d)" "?t \<notin> att_lease_token ` set (attempts ?d)"
      using Suc.prems(4) started by (simp_all add: fresh_ids_def)
    have named: "job_id k \<notin> {}" "queue_of r \<noteq> []" by (simp_all add: queue_of_def)
    have same: "?claim = ClaimJob {} ?now ?gid ?t (queue_of r) (rn_worker_id r) (rn_lease r) all_served ?d"
      by (simp add: ClaimJob_def queue_of_def)
    obtain cl d1 where c: "?claim = (Inr (Some cl), d1)"
      unfolding same using claim_answers [OF Suc.prems(2) k named bound unused] by (metis prod.exhaust)
    obtain u s2 where ex: "run_state (execute w pd since r cl sl) (s\<lparr>p_db := d1, p_calls := Suc ?k\<rparr>) = (u, s2)"
      by (rule prod.exhaust)
    have "db_ok d1" "remaining d1 < remaining ?d" using outcome c by simp_all
    moreover have "quiet w" using w(1) by (simp add: calm_def)
    ultimately have "db_ok (p_db s2) \<and> remaining (p_db s2) \<le> remaining d1"
      using tripleD [OF execute_remaining [where m = "remaining d1"] _ ex] by simp
    then have s2: "db_ok (p_db s2)" "remaining (p_db s2) < n"
      using \<open>remaining d1 < remaining ?d\<close> Suc.prems(5) by simp_all
    have next_turn: "run_state (drain w pd since cancelled r sl n) s2 = (out, s')"
      using Suc.prems(7) call c ex w(2) [of "p_calls s2"] by (simp add: moment_def)
    obtain j where j: "j \<in> set (jobs ?d)" "room (p_db s2)" "fresh_ids w (p_calls s2) K (p_db s2)" "?k < p_calls s2"
        "\<And>k. k \<in> set (jobs ?d) \<Longrightarrow> k \<noteq> j \<Longrightarrow> k \<in> set (jobs (p_db s2))"
        "runHandler pd j = None \<Longrightarrow> status_of (p_db s2) (job_id j) = Some Succeeded"
      by (rule turn [OF w(1) Suc.prems(2-4) c ex]) (rule that)
    have "store_step\<^sup>*\<^sup>* ?d d1"
      using store_step.claim [where d = ?d and locked = "{}" and now = ?now and t = ?t and w = "rn_worker_id r" and net = all_served
        and queue = "rn_queue r" and lease = "rn_lease r" and gid = ?gid] c by simp
    moreover have "store_step\<^sup>*\<^sup>* d1 (p_db s2)"
      using store_onlyD [OF store_only_execute [OF calm_fair [OF w(1)]] ex] by simp
    ultimately have steps: "store_step\<^sup>*\<^sup>* ?d (p_db s2)" by (rule rtranclp_trans)
    have D: "i \<in> set (jobs (p_db s2)) \<or> status_of (p_db s2) (job_id i) = Some Succeeded" if "i \<in> D" for i
    proof (cases "i \<in> set (jobs ?d)")
      case True
      then show ?thesis using j(5) [of i] j(6) js(1) [OF that] by (cases "i = j") simp_all
    next
      case False
      then have "status_of ?d (job_id i) = Some Succeeded" using Suc.prems(6) [OF that] by blast
      then show ?thesis using stable_run [OF success_stable steps Suc.prems(2)] by simp
    qed
    have "t0 \<le> w_now w (p_calls s2)"
      using Suc.prems(1) j(4) w(1) by (auto simp: calm_def dest: monoD [of "w_now w" ?k "p_calls s2"])
    then show ?thesis by (rule Suc.IH [OF _ s2(1) j(2,3) s2(2) D next_turn])
  qed
qed simp

section \<open>From the request to the success\<close>

lemma AppendJobLog_rest:
  assumes "quiet w"
  shows "triple (\<lambda>s. jobs (p_db s) = js \<and> attempts (p_db s) = as) (append_log_call w p) (\<lambda>_ s. jobs (p_db s) = js \<and> attempts (p_db s) = as)"
  unfolding append_log_call_def
  by (rule triple_quiet_call [OF assms, where R = "\<lambda>d. jobs d = js \<and> attempts d = as" and Q = "\<lambda>_ d. jobs d = js \<and> attempts d = as"])
    (simp add: split_beta AppendJobLog_jobs)

lemma submitted_keeps:
  assumes "quiet w"
  shows "triple (\<lambda>s. jobs (p_db s) = js \<and> attempts (p_db s) = as) (submitted w sv rq req job existing)
    (\<lambda>_ s. jobs (p_db s) = js \<and> attempts (p_db s) = as)"
proof -
  let ?R = "\<lambda>s. jobs (p_db s) = js \<and> attempts (p_db s) = as"
  note silent = triple_silent [where R = "\<lambda>d. jobs d = js \<and> attempts d = as"]
  have same: "triple ?R (ret ()) (\<lambda>_. ?R)" by (rule triple_return)
  have signal: "triple ?R (signal_job w sv q) (\<lambda>_. ?R)" for q
    unfolding signal_job_def by (rule triple_bind [OF silent(3)], rule triple_if [OF same silent(2)])
  have log: "triple ?R (append_log_call w p \<bind> (\<lambda>_. ret ())) (\<lambda>_. ?R)" for p
    by (rule triple_bind [OF AppendJobLog_rest [OF assms] same])
  show ?thesis
    unfolding submitted_def
    by (rule triple_bind [OF silent(2)], rule triple_bind [OF triple_if [OF signal same]],
        rule triple_bind [OF triple_if [OF log same]], rule triple_return)
qed

lemma counting_create: "counting (handleCreateJob w tc sv rq)"
  unfolding handleCreateJob_def signal_job_def append_log_call_def Let_def by (intro counting_rules)

lemma create_max_attempts:
  "check_create p = Inr q \<Longrightarrow> cp_max_attempts p < 2 ^ 31 - 1 \<Longrightarrow> cp_max_attempts q < 2 ^ 31 - 1"
  by (auto simp: check_create_def Let_def split: if_splits)

lemma create_delay: "check_create p = Inr q \<Longrightarrow> cp_delay_seconds q = cp_delay_seconds p"
  by (auto simp: check_create_def Let_def split: if_splits)

text \<open>What an undisturbed creation adds.\<close>

lemma created_job:
  assumes "quiet w" and "rq_job rq = Some req"
    and "run_state (handleCreateJob w tc sv rq) s = (Response 201 (JobCreated j False), s')"
  obtains q where "check_create (create_params_of tc (normal_request req)) = Inr q"
    "j = new_job (w_jsonb w) (w_now w (p_calls s)) (w_ids w (p_calls s) 0) q"
    "jobs (p_db s') = jobs (p_db s) @ [j]" "attempts (p_db s') = attempts (p_db s)"
proof -
  have typed: "cjr_type req \<noteq> []"
    using assms(2,3) by (auto simp: handleCreateJob_def writeError_def Let_def split: if_splits)
  obtain x s1 where 1: "run_state (store_call w (create_call w tc req)) s = (x, s1)" by (rule prod.exhaust)
  obtain job existing where x: "x = Inr (job, existing)" and rest: "run_state (submitted w sv rq req job existing) s1
      = (Response 201 (JobCreated j False), s')"
    using assms(3) 1 by (auto simp: handleCreateJob_submits [OF assms(2) typed] split: sum.splits)
  have job: "job = j" "\<not> existing" using submitted_run [OF rest] by auto
  have call: "create_call w tc req (p_calls s) (p_db s) = (Inr (j, False), p_db s1)"
    using store_call_run [OF 1] x job assms(1) by (simp add: quiet_def)
  obtain q where q: "check_create (create_params_of tc (normal_request req)) = Inr q"
      "j = new_job (w_jsonb w) (w_now w (p_calls s)) (w_ids w (p_calls s) 0) q"
      "p_db s1 = (p_db s)\<lparr>jobs := jobs (p_db s) @ [j]\<rparr>"
    using create.success [OF call] by (auto simp: create_commit_def)
  show ?thesis
    by (rule that [OF q(1,2)]) (use tripleD [OF submitted_keeps [OF assms(1)] _ rest] q(3) in auto)
qed

lemma created_due:
  assumes "check_create p = Inr q" and "cp_delay_seconds p = 0"
  shows "claim_due now (job_queue (new_job jsonb now gid q)) (new_job jsonb now gid q)"
  using create_delay [OF assms(1)] assms(2) by (simp add: claim_due_def claimable_def new_job_def intervalLiteral_def)

lemma submission_completes:
  assumes "calm w" and "\<forall>k. \<not> cancelled k" and "db_ok (p_db s)" and "room (p_db s)"
    and "rq_job rq = Some req" and "cjr_delay_seconds req = 0" and "cjr_max_attempts req < 2 ^ 31 - 1"
    and "run_state (handleCreateJob w tc sv rq) s = (Response 201 (JobCreated j False), s0)"
    and "p_db s1 = p_db s0" and "p_calls s1 = p_calls s0"
    and "queue_of r = job_queue j" and "runHandler pd j = None" and "remaining (p_db s1) < n"
    and "run_state (drain w pd since cancelled r sl n) s1 = (out, s2)" and "fresh_ids w (p_calls s) (p_calls s2) (p_db s)"
  shows "status_of (p_db s2) (job_id j) = Some Succeeded \<and> (\<exists>res. out = Some res)"
proof -
  have q: "quiet w" using assms(1) by (simp add: calm_def)
  obtain c where c: "check_create (create_params_of tc (normal_request req)) = Inr c"
      "j = new_job (w_jsonb w) (w_now w (p_calls s)) (w_ids w (p_calls s) 0) c"
      "jobs (p_db s1) = jobs (p_db s) @ [j]" "attempts (p_db s1) = attempts (p_db s)"
    using created_job [OF q assms(5,8)] assms(9) by auto
  have "store_step\<^sup>*\<^sup>* (p_db s) (p_db s1)"
    unfolding assms(9) by (rule store_onlyD [OF store_only_create [OF calm_fair [OF assms(1)]] assms(8)])
  then have ok: "db_ok (p_db s1)" using assms(3) by (rule store.good_run)
  have later: "p_calls s \<le> p_calls s1" unfolding assms(10) by (rule countingD [OF counting_create assms(8)])
  have "cp_delay_seconds (create_params_of tc (normal_request req)) = 0" by (simp add: create_params_of_def assms(6))
  then have due: "claim_due (w_now w (p_calls s)) (queue_of r) j"
    using created_due [OF c(1)] assms(11) c(2) by simp
  have "cp_max_attempts (create_params_of tc (normal_request req)) = cjr_max_attempts req"
    by (simp add: create_params_of_def normal_request_def Let_def)
  then have room: "room (p_db s1)"
    using create_max_attempts [OF c(1)] assms(4,7) c(2,3) by (simp add: room_def new_job_def)
  have now: "w_now w (p_calls s) \<le> w_now w (p_calls s1)" using assms(1) later by (auto simp: calm_def dest: monoD)
  have "\<forall>i \<in> {j}. status_of (p_db s2) (job_id i) = Some Succeeded"
    by (rule drain_completes [OF assms(1) _ now ok room _ assms(13) _ _ assms(14) order_refl])
      (use assms(2,12) due c(3) fresh_ids_later [OF assms(15) later order_refl c(4)] in auto)
  then show ?thesis using drain_run [OF q ok assms(13,14)] by auto
qed

text \<open>
  C5. A submitted job is done. A job that \<open>POST /jobs\<close> answered as new and that is due at once has
  succeeded when the drain loop of a worker of its queue returns, and the loop does return, provided
  its handler returns without an error, the worker is not told to stop, nobody else works on the database or
  locks its rows, calls are answered, the clock does not run backwards, identifiers are not repeated and the
  attempt limits leave room in their 32-bit column; whatever other jobs the queue holds, and whatever comes of them.
\<close>

theorem submitted_job_succeeds:
  assumes "calm w" and "\<forall>k. \<not> cancelled k" and "db_ok (p_db s)" and "room (p_db s)"
    and "rq_job rq = Some req" and "cjr_delay_seconds req = 0" and "cjr_max_attempts req < 2 ^ 31 - 1"
    and "run_state (handleCreateJob w tc sv rq) s = (Response 201 (JobCreated j False), s1)"
    and "queue_of r = job_queue j" and "runHandler pd j = None" and "remaining (p_db s1) < n"
    and "run_state (drain w pd since cancelled r sl n) s1 = (out, s2)" and "fresh_ids w (p_calls s) (p_calls s2) (p_db s)"
  shows "status_of (p_db s2) (job_id j) = Some Succeeded \<and> (\<exists>res. out = Some res)"
  by (rule submission_completes [OF assms(1-8) refl refl assms(9-13)])

definition sample_create :: "response cmd" where
  "sample_create = handleCreateJob sample_world \<lparr>tc_parent = [], tc_state = []\<rparr> (NewServer ''secret'' None) (sample_request PostJobs)"

definition sample_drain :: "error option option cmd" where
  "sample_drain = drain sample_world sample_payloads (\<lambda>k i. 5) (\<lambda>k. False) sample_runner 1 4"

lemma sample_world_calm: "calm sample_world"
  using sample_world_quiet by (auto simp: calm_def sample_world_def intro: monoI)

theorem submitted_job_succeeds_witness:
  "status_of (p_db (snd (run_state (sample_create \<bind> (\<lambda>_. sample_drain)) \<lparr>p_db = empty_db, p_calls = 0, p_events = []\<rparr>))) 100 = Some Succeeded"
proof -
  let ?s = "\<lparr>p_db = empty_db, p_calls = 0, p_events = []\<rparr>"
  obtain r s1 where 1: "run_state sample_create ?s = (r, s1)" by (rule prod.exhaust)
  obtain out s2 where 2: "run_state sample_drain s1 = (out, s2)" by (rule prod.exhaust)
  have e: "(case run_state (sample_create \<bind> (\<lambda>r. sample_drain \<bind> (\<lambda>u. ret r))) ?s of (r, s2) \<Rightarrow>
      (case r of Response c b \<Rightarrow> (case b of JobCreated j existing \<Rightarrow> c = 201 \<and> \<not> existing \<and> job_id j = 100 \<and>
        job_queue j = ''default'' \<and> runHandler sample_payloads j = None | _ \<Rightarrow> False)) \<and> p_calls s2 = 8)"
    by code_simp
  obtain j where r: "r = Response 201 (JobCreated j False)" and j: "job_id j = 100" "job_queue j = ''default''"
      "runHandler sample_payloads j = None" and calls: "p_calls s2 = 8"
    using e by (auto simp: 1 2 split: response.splits reply_body.splits)
  have "remaining (p_db (snd (run_state sample_create ?s))) < 4" by code_simp
  then have small: "remaining (p_db s1) < 4" by (simp add: 1)
  have "distinct (map (\<lambda>n. w_ids sample_world n 0) [0..<8]) \<and> distinct (map (\<lambda>n. w_ids sample_world n 1) [0..<8])"
    by code_simp
  then have fresh: "fresh_ids sample_world (p_calls ?s) (p_calls s2) (p_db ?s)"
    by (simp only: distinct_map set_upt) (simp add: fresh_ids_def calls empty_db_def)
  have queue: "queue_of sample_runner = job_queue j" by (simp add: j(2) queue_of_def sample_runner_def NewRunner_def)
  let ?req = "the (rq_job (sample_request PostJobs))"
  have req: "rq_job (sample_request PostJobs) = Some ?req" "cjr_delay_seconds ?req = 0" "cjr_max_attempts ?req < 2 ^ 31 - 1"
    by (simp_all add: sample_request_def)
  have ok: "db_ok (p_db ?s)" "room (p_db ?s)" using db_ok_empty by (simp_all add: room_def empty_db_def)
  have "status_of (p_db s2) (job_id j) = Some Succeeded \<and> (\<exists>res. out = Some res)"
    by (rule submitted_job_succeeds [OF sample_world_calm _ ok req 1 [unfolded sample_create_def r] queue j(3) small
          2 [unfolded sample_drain_def] fresh]) simp
  then show ?thesis by (simp add: 1 2 j(1))
qed

end
