(* ===== verification/GoUrl.thy ===== *)
theory GoUrl
  imports GoText "HOL-Library.Char_ord"
begin

text \<open>
  The parts of Go's \<open>net/url\<close> and \<open>path/filepath\<close> that the commands of \<open>cmd/pulsequeue/main.go\<close> and the
  handlers of \<open>internal/api\<close> rest on, on byte strings: percent-encoding of path segments, the reading
  of a request target, and the parsing of queries.
\<close>

section \<open>Percent-encoding\<close>

definition alphanumeric :: "char \<Rightarrow> bool" where
  "alphanumeric c \<longleftrightarrow> (let n = (of_char c :: nat)
     in (48 \<le> n \<and> n \<le> 57) \<or> (65 \<le> n \<and> n \<le> 90) \<or> (97 \<le> n \<and> n \<le> 122))"

definition unreserved :: "char \<Rightarrow> bool" where
  "unreserved c \<longleftrightarrow> alphanumeric c \<or> c \<in> {CHR ''-'', CHR ''_'', CHR ''.'', CHR ''~''}"

datatype encoding = encodePath | encodePathSegment

definition shouldEscape :: "char \<Rightarrow> encoding \<Rightarrow> bool" where
  "shouldEscape c mode =
     (if unreserved c then False
      else if c \<in> {CHR ''$'', CHR ''&'', CHR ''+'', CHR '','', CHR ''/'', CHR '':'', CHR '';'', CHR ''='', CHR ''?'', CHR ''@''}
      then (case mode of
          encodePath \<Rightarrow> c = CHR ''?''
        | encodePathSegment \<Rightarrow> c \<in> {CHR ''/'', CHR '';'', CHR '','', CHR ''?''})
      else True)"

definition upper_hex :: "nat \<Rightarrow> char" where
  "upper_hex n = (if n < 10 then char_of (48 + n) else char_of (55 + n))"

definition unhex :: "char \<Rightarrow> nat option" where
  "unhex c = (let n = (of_char c :: nat)
     in if 48 \<le> n \<and> n \<le> 57 then Some (n - 48)
        else if 97 \<le> n \<and> n \<le> 102 then Some (n - 87)
        else if 65 \<le> n \<and> n \<le> 70 then Some (n - 55) else None)"

definition escape_char :: "encoding \<Rightarrow> char \<Rightarrow> string" where
  "escape_char mode c =
     (if shouldEscape c mode then [CHR 0x25, upper_hex (of_char c div 16), upper_hex (of_char c mod 16)] else [c])"

definition escape :: "encoding \<Rightarrow> string \<Rightarrow> string" where
  "escape mode s = concat (map (escape_char mode) s)"

definition PathEscape :: "string \<Rightarrow> string" where
  "PathEscape s = escape encodePathSegment s"

text \<open>A percent sign must come before two hexadecimal digits; \<open>blank\<close> is what a plus sign stands for.\<close>

fun unescape :: "char \<Rightarrow> string \<Rightarrow> string option" where
  "unescape blank [] = Some []"
| "unescape blank (c # s) =
     (if c = CHR 0x25
      then (case s of
          a # b # s' \<Rightarrow> (case (unhex a, unhex b, unescape blank s') of
              (Some x, Some y, Some t) \<Rightarrow> Some (char_of (16 * x + y) # t)
            | _ \<Rightarrow> None)
        | _ \<Rightarrow> None)
      else map_option ((#) (if c = CHR ''+'' then blank else c)) (unescape blank s))"

definition PathUnescape :: "string \<Rightarrow> string option" where
  "PathUnescape s = unescape (CHR ''+'') s"

definition QueryUnescape :: "string \<Rightarrow> string option" where
  "QueryUnescape s = unescape (CHR 0x20) s"

section \<open>Request targets\<close>

text \<open>\<open>strings.Cut\<close> at a byte.\<close>

definition Cut :: "char \<Rightarrow> string \<Rightarrow> string \<times> string" where
  "Cut c s = (takeWhile (\<lambda>x. x \<noteq> c) s, tl (dropWhile (\<lambda>x. x \<noteq> c) s))"

text \<open>
  \<open>url.Parse\<close> of what follows the authority of a URL: the path as written and the query, None for an
  error (a control character, a percent sign without two hexadecimal digits after it).
\<close>

definition control_char :: "char \<Rightarrow> bool" where
  "control_char c \<longleftrightarrow> (of_char c :: nat) < 32 \<or> c = CHR 0x7F"

definition Parse_target :: "string \<Rightarrow> (string \<times> string) option" where
  "Parse_target s =
     (case Cut (CHR ''#'') s of (u, fragment) \<Rightarrow>
        case Cut (CHR ''?'') u of (path, query) \<Rightarrow>
          if list_ex control_char u \<or> PathUnescape fragment = None \<or> PathUnescape path = None then None
          else Some (path, query))"

text \<open>
  \<open>EscapedPath\<close>: the path that the client writes on the wire, which is the path as written if that is a
  valid encoding, else the encoding of the path it stands for.
\<close>

definition valid_char :: "char \<Rightarrow> bool" where
  "valid_char c \<longleftrightarrow>
     c \<in> {CHR ''!'', CHR ''$'', CHR ''&'', CHR 0x27, CHR ''('', CHR '')'', CHR ''*'', CHR ''+'', CHR '','', CHR '';'',
       CHR ''='', CHR '':'', CHR ''@'', CHR ''['', CHR '']'', CHR 0x25} \<or> \<not> shouldEscape c encodePath"

definition validEncoded :: "string \<Rightarrow> bool" where
  "validEncoded s \<longleftrightarrow> list_all valid_char s"

definition EscapedPath :: "string \<Rightarrow> string" where
  "EscapedPath path =
     (if validEncoded path then path
      else (case PathUnescape path of None \<Rightarrow> path | Some p \<Rightarrow> escape encodePath p))"

section \<open>Queries\<close>

text \<open>\<open>ParseQuery\<close> without its error, as \<open>URL.Query\<close> has it: pairs that do not parse are left out.\<close>

definition query_pair :: "string \<Rightarrow> (string \<times> string) option" where
  "query_pair part =
     (if CHR '';'' \<in> set part \<or> part = [] then None
      else (case Cut (CHR ''='') part of (key, val) \<Rightarrow>
          (case (QueryUnescape key, QueryUnescape val) of
             (Some k, Some v) \<Rightarrow> Some (k, v)
           | _ \<Rightarrow> None)))"

definition ParseQuery :: "string \<Rightarrow> (string \<times> string) list" where
  "ParseQuery query = List.map_filter query_pair (split_on (CHR ''&'') query)"

definition query_Get :: "string \<Rightarrow> string \<Rightarrow> string" where
  "query_Get query key = (case map_of (ParseQuery query) key of None \<Rightarrow> [] | Some v \<Rightarrow> v)"

section \<open>Clean paths\<close>

text \<open>\<open>filepath.Clean\<close> on Unix: the elements kept so far, the last one first.\<close>

fun clean_elements :: "bool \<Rightarrow> string list \<Rightarrow> string list \<Rightarrow> string list" where
  "clean_elements rooted kept [] = rev kept"
| "clean_elements rooted kept (e # es) =
     (if e = [] \<or> e = ''.'' then clean_elements rooted kept es
      else if e = ''..'' then
        (case kept of
           [] \<Rightarrow> clean_elements rooted (if rooted then [] else [e]) es
         | k # ks \<Rightarrow> clean_elements rooted (if k = ''..'' then e # kept else ks) es)
      else clean_elements rooted (e # kept) es)"

definition Clean :: "string \<Rightarrow> string" where
  "Clean path =
     (let rooted = HasPrefix path ''/'';
          out = (if rooted then ''/'' else []) @ join ''/'' (clean_elements rooted [] (split_on (CHR ''/'') path))
      in if out = [] then ''.'' else out)"

section \<open>Facts\<close>

lemma unhex_upper_hex [simp]: "n < 16 \<Longrightarrow> unhex (upper_hex n) = Some n"
  by (auto simp: unhex_def upper_hex_def Let_def of_char_of)

lemma unreserved_upper_hex [simp]: "n < 16 \<Longrightarrow> unreserved (upper_hex n)"
  by (auto simp: unreserved_def alphanumeric_def upper_hex_def Let_def of_char_of)

lemma of_char_lt [simp]: "(of_char c :: nat) < 256"
  by (metis nat_of_char_less_256)

lemma char_of_halves [simp]: "char_of (16 * ((of_char c :: nat) div 16) + of_char c mod 16) = c"
  by (metis char_of_char mult_div_mod_eq)

lemma unescape_escape_char: "unescape (CHR ''+'') (escape_char mode c @ s) = map_option ((#) c) (unescape (CHR ''+'') s)"
proof -
  have "c \<noteq> CHR 0x25" if "\<not> shouldEscape c mode"
    using that by (auto simp: shouldEscape_def unreserved_def alphanumeric_def)
  moreover have "(of_char c :: nat) div 16 < 16" using of_char_lt [of c] by linarith
  ultimately show ?thesis by (auto simp: escape_char_def split: option.splits)
qed

lemma PathUnescape_escape [simp]: "PathUnescape (escape mode s) = Some s"
proof -
  have "unescape (CHR ''+'') (escape mode s) = Some s"
    by (induction s) (simp_all add: escape_def unescape_escape_char)
  then show ?thesis by (simp add: PathUnescape_def)
qed

lemma unescape_append: "unescape blank a = Some x \<Longrightarrow> unescape blank (a @ b) = map_option ((@) x) (unescape blank b)"
proof (induction blank a arbitrary: x rule: unescape.induct)
  case (1 blank)
  then show ?case by (simp add: option.map_id0 [unfolded id_def])
next
  case (2 blank c s)
  show ?case
  proof (cases "c = CHR 0x25")
    case True
    then obtain p q s' where s: "s = p # q # s'" using 2(3) by (auto split: list.splits)
    from True s 2(3) obtain m n t where p: "unhex p = Some m" "unhex q = Some n" "unescape blank s' = Some t"
      "x = char_of (16 * m + n) # t"
      by (auto split: option.splits)
    have "unescape blank (s' @ b) = map_option ((@) t) (unescape blank b)" by (rule 2(1) [OF True s refl p(3)])
    then show ?thesis using True s p by (cases "unescape blank b") simp_all
  next
    case False
    then obtain t where t: "unescape blank s = Some t" "x = (if c = CHR ''+'' then blank else c) # t"
      using 2(3) by auto
    have "unescape blank (s @ b) = map_option ((@) t) (unescape blank b)" by (rule 2(2) [OF False t(1)])
    then show ?thesis using False t(2) by (cases "unescape blank b") simp_all
  qed
qed

lemma PathUnescape_append: "PathUnescape a = Some x \<Longrightarrow> PathUnescape (a @ b) = map_option ((@) x) (PathUnescape b)"
  by (simp add: PathUnescape_def unescape_append)

lemma unescape_none: "list_all (\<lambda>c. c \<noteq> CHR 0x25 \<and> c \<noteq> CHR ''+'') s \<Longrightarrow> unescape blank s = Some s"
  by (induction s) auto

text \<open>The bytes of an escaped segment.\<close>

definition segment_char :: "char \<Rightarrow> bool" where
  "segment_char c \<longleftrightarrow> unreserved c \<or> c \<in> {CHR ''$'', CHR ''&'', CHR ''+'', CHR '':'', CHR ''='', CHR ''@'', CHR 0x25}"

lemma segment_chars: "list_all segment_char (PathEscape s)"
proof -
  have "(of_char c :: nat) div 16 < 16" for c using of_char_lt [of c] by linarith
  moreover have "segment_char c" if "\<not> shouldEscape c encodePathSegment" for c
    using that by (auto simp: shouldEscape_def segment_char_def split: if_splits)
  ultimately show ?thesis
    by (auto simp: PathEscape_def escape_def escape_char_def list_all_iff segment_char_def)
qed

lemma unreserved_graphic: "unreserved c \<Longrightarrow> 32 < (of_char c :: nat) \<and> (of_char c :: nat) < 127 \<and>
    c \<notin> {CHR ''/'', CHR ''#'', CHR ''?'', CHR ''&'', CHR '';'', CHR ''='', CHR ''+'', CHR 0x25}"
  by (auto simp: unreserved_def alphanumeric_def Let_def)

lemma segment_graphic: "segment_char c \<Longrightarrow> \<not> control_char c \<and> c \<notin> {CHR ''/'', CHR ''#'', CHR ''?''}"
  using unreserved_graphic [of c] by (auto simp: segment_char_def control_char_def)

lemma unreserved_segment: "list_all unreserved s \<Longrightarrow> PathEscape s = s"
  by (induction s) (simp_all add: PathEscape_def escape_def escape_char_def shouldEscape_def)

lemma unreserved_query: "list_all unreserved s \<Longrightarrow> QueryUnescape s = Some s"
  unfolding QueryUnescape_def by (rule unescape_none) (auto simp: list_all_iff dest: unreserved_graphic)

section \<open>Reading back what was written\<close>

definition path_char :: "char \<Rightarrow> bool" where
  "path_char c \<longleftrightarrow> \<not> control_char c \<and> c \<notin> {CHR ''#'', CHR ''?''}"

lemma Cut_none: "c \<notin> set s \<Longrightarrow> Cut c s = (s, [])"
  by (induction s) (auto simp: Cut_def)

lemma Cut_at: "c \<notin> set s \<Longrightarrow> Cut c (s @ c # t) = (s, t)"
  by (induction s) (auto simp: Cut_def)

lemma Parse_target_path:
  assumes "list_all path_char p" and "PathUnescape p = Some x"
  shows "Parse_target p = Some (p, [])"
proof -
  have "CHR ''#'' \<notin> set p" "CHR ''?'' \<notin> set p" "\<not> list_ex control_char p"
    using assms(1) by (auto simp: list_all_iff list_ex_iff path_char_def)
  then show ?thesis using assms(2) by (simp add: Parse_target_def Cut_none PathUnescape_def)
qed

lemma Parse_target_query:
  assumes "list_all path_char p" and "PathUnescape p = Some x" and "list_all path_char q"
  shows "Parse_target (p @ CHR ''?'' # q) = Some (p, q)"
proof -
  have "CHR ''#'' \<notin> set (p @ CHR ''?'' # q)" "CHR ''?'' \<notin> set p" "\<not> list_ex control_char (p @ CHR ''?'' # q)"
    using assms(1,3) by (auto simp: list_all_iff list_ex_iff path_char_def control_char_def)
  then show ?thesis using assms(2) by (simp add: Parse_target_def Cut_none Cut_at PathUnescape_def)
qed

lemma unreserved_path: "unreserved c \<Longrightarrow> path_char c"
proof -
  assume u: "unreserved c"
  then have "c \<noteq> CHR 0x7F" by (auto simp: unreserved_def alphanumeric_def)
  moreover have "\<not> (of_char c :: nat) < 32" "c \<noteq> CHR ''#''" "c \<noteq> CHR ''?''"
    using unreserved_graphic [OF u] by (simp_all del: of_char_lt)
  ultimately show ?thesis by (simp add: path_char_def control_char_def)
qed

lemma segment_path: "segment_char c \<Longrightarrow> path_char c"
  by (drule segment_graphic) (auto simp: path_char_def)

lemma path_char_segment: "list_all path_char (PathEscape s)"
  by (rule list.pred_mono_strong [OF segment_chars segment_path])

lemma path_char_unreserved: "list_all unreserved s \<Longrightarrow> list_all path_char s"
  by (erule list.pred_mono_strong) (rule unreserved_path)

lemma split_on_append: "c \<notin> set a \<Longrightarrow> split_on c (a @ c # b) = a # split_on c b"
  by (induction a) auto

lemma split_on_none: "c \<notin> set a \<Longrightarrow> split_on c a = [a]"
  by (induction a) auto

lemma query_pair_unreserved:
  assumes "list_all unreserved k" and "list_all unreserved v"
  shows "query_pair (k @ CHR ''='' # v) = Some (k, v)"
proof -
  have "CHR ''='' \<notin> set k" "CHR '';'' \<notin> set (k @ CHR ''='' # v)"
    using assms by (auto simp: list_all_iff dest: unreserved_graphic)
  then show ?thesis using assms by (simp add: query_pair_def Cut_at unreserved_query)
qed

lemma no_ampersand: "list_all unreserved k \<Longrightarrow> list_all unreserved v \<Longrightarrow> CHR ''&'' \<notin> set (k @ CHR ''='' # v)"
  by (auto simp: list_all_iff dest: unreserved_graphic)

lemma ParseQuery_one:
  "list_all unreserved k \<Longrightarrow> list_all unreserved v \<Longrightarrow> ParseQuery (k @ CHR ''='' # v) = [(k, v)]"
  by (simp add: ParseQuery_def split_on_none [OF no_ampersand] query_pair_unreserved map_filter_simps)

lemma ParseQuery_more:
  assumes "list_all unreserved k" and "list_all unreserved v"
  shows "ParseQuery (k @ CHR ''='' # v @ CHR ''&'' # rest) = (k, v) # ParseQuery rest"
proof -
  have "split_on (CHR ''&'') ((k @ CHR ''='' # v) @ CHR ''&'' # rest) = (k @ CHR ''='' # v) # split_on (CHR ''&'') rest"
    by (rule split_on_append) (rule no_ampersand [OF assms])
  then show ?thesis by (simp add: ParseQuery_def query_pair_unreserved assms map_filter_simps)
qed

lemma valid_segment: "segment_char c \<Longrightarrow> valid_char c"
  unfolding segment_char_def valid_char_def shouldEscape_def by auto

lemma valid_slash: "valid_char (CHR ''/'')"
  by code_simp

lemma EscapedPath_segments: "list_all (\<lambda>c. segment_char c \<or> c = CHR ''/'') p \<Longrightarrow> EscapedPath p = p"
  unfolding EscapedPath_def validEncoded_def
  by (erule list.pred_mono_strong [THEN if_P]) (metis valid_segment valid_slash)

lemma Clean_examples:
  "Clean [] = ''.''" "Clean ''a//b/./../c'' = ''a/c''" "Clean ''/../a'' = ''/a''" "Clean ''../a'' = ''../a''"
  by code_simp+

text \<open>Paths of unreserved bytes and slashes are read and sent as they are written.\<close>

definition plain_char :: "char \<Rightarrow> bool" where
  "plain_char c \<longleftrightarrow> unreserved c \<or> c = CHR ''/''"

lemma plain_path_char: "plain_char c \<Longrightarrow> path_char c"
  unfolding plain_char_def by (erule disjE, erule unreserved_path, simp add: path_char_def control_char_def)

lemma plain_unescape: "list_all plain_char p \<Longrightarrow> PathUnescape p = Some p"
  unfolding PathUnescape_def
  by (rule unescape_none, erule list.pred_mono_strong) (use unreserved_graphic in \<open>auto simp: plain_char_def\<close>)

lemma plain_target:
  assumes "list_all plain_char p"
  shows "Parse_target p = Some (p, [])" "EscapedPath p = p"
    "list_all path_char q \<Longrightarrow> Parse_target (p @ CHR ''?'' # q) = Some (p, q)"
proof -
  have p: "list_all path_char p" by (rule list.pred_mono_strong [OF assms plain_path_char])
  show "Parse_target p = Some (p, [])" by (rule Parse_target_path [OF p plain_unescape [OF assms]])
  show "list_all path_char q \<Longrightarrow> Parse_target (p @ CHR ''?'' # q) = Some (p, q)"
    by (rule Parse_target_query [OF p plain_unescape [OF assms]])
  show "EscapedPath p = p"
    by (rule EscapedPath_segments, rule list.pred_mono_strong [OF assms]) (auto simp: plain_char_def segment_char_def)
qed

end
