(* ===== verification/Rows.thy ===== *)
theory Rows
  imports Schema "HOL-Library.Monad_Syntax"
begin

text \<open>
  How \<open>storage.go\<close> reads rows: the columns that a statement selects are taken by position, so the
  \<open>...SelectColumns\<close> texts must agree with the destinations of the \<open>scan...\<close> functions. A table row
  is the list of its columns as \<open>migrations/*.sql\<close> declare them, a selected row the list of the values
  in the order of the statement, and \<open>Scan\<close> of pgx fails on a value of another type and on NULL
  where the destination is not a pointer.
\<close>

section \<open>Values\<close>

datatype column_value =
    VNull | VUuid uuid | VText string | VTexts "string list" | VInt int | VBool bool | VTime instant | VJson string

definition nullable :: "('a \<Rightarrow> column_value) \<Rightarrow> 'a option \<Rightarrow> column_value" where
  "nullable f x = (case x of None \<Rightarrow> VNull | Some a \<Rightarrow> f a)"

fun as_uuid :: "column_value \<Rightarrow> uuid option" where
  "as_uuid (VUuid u) = Some u"
| "as_uuid _ = None"

fun as_text :: "column_value \<Rightarrow> string option" where
  "as_text (VText s) = Some s"
| "as_text _ = None"

fun as_texts :: "column_value \<Rightarrow> string list option" where
  "as_texts (VTexts s) = Some s"
| "as_texts _ = None"

fun as_int :: "column_value \<Rightarrow> int option" where
  "as_int (VInt n) = Some n"
| "as_int _ = None"

fun as_bool :: "column_value \<Rightarrow> bool option" where
  "as_bool (VBool b) = Some b"
| "as_bool _ = None"

fun as_time :: "column_value \<Rightarrow> instant option" where
  "as_time (VTime t) = Some t"
| "as_time _ = None"

fun as_json :: "column_value \<Rightarrow> string option" where
  "as_json (VJson s) = Some s"
| "as_json _ = None"

text \<open>A destination that is a pointer.\<close>

fun as_pointer :: "(column_value \<Rightarrow> 'a option) \<Rightarrow> column_value \<Rightarrow> 'a option option" where
  "as_pointer f VNull = Some None"
| "as_pointer f v = map_option Some (f v)"

text \<open>
  The statuses are strings in Go; the \<open>CHECK\<close> constraints of the tables admit only the texts of
  the constructors.
\<close>

fun attempt_status_text :: "attempt_status \<Rightarrow> string" where
  "attempt_status_text AttemptRunning = ''running''"
| "attempt_status_text AttemptSucceeded = ''succeeded''"
| "attempt_status_text AttemptFailed = ''failed''"

definition as_job_status :: "column_value \<Rightarrow> job_status option" where
  "as_job_status v = Option.bind (as_text v) (\<lambda>s. find (\<lambda>x. job_status_text x = s)
     [Queued, Running, Succeeded, Failed, RetryScheduled, DeadLetter, Cancelled])"

definition as_attempt_status :: "column_value \<Rightarrow> attempt_status option" where
  "as_attempt_status v = Option.bind (as_text v) (\<lambda>s. find (\<lambda>x. attempt_status_text x = s)
     [AttemptRunning, AttemptSucceeded, AttemptFailed])"

definition as_worker_status :: "column_value \<Rightarrow> worker_status option" where
  "as_worker_status v = Option.bind (as_text v) worker_status_of"

text \<open>\<open>SELECT cols\<close> of a row: None where a column does not exist.\<close>

definition select_columns :: "string list \<Rightarrow> (string \<times> column_value) list \<Rightarrow> column_value list option" where
  "select_columns cols row = those (map (map_of row) cols)"

section \<open>Tables, statements and destinations\<close>

definition job_row :: "job \<Rightarrow> (string \<times> column_value) list" where
  "job_row j =
     [(''id'', VUuid (job_id j)), (''queue'', VText (job_queue j)), (''type'', VText (job_type j)),
      (''payload'', VJson (job_payload j)), (''status'', VText (job_status_text (job_status j))),
      (''priority'', VInt (job_priority j)), (''max_attempts'', VInt (job_max_attempts j)),
      (''attempt_count'', VInt (job_attempt_count j)), (''idempotency_key'', nullable VText (job_idempotency_key j)),
      (''locked_by'', nullable VText (job_locked_by j)), (''locked_until'', nullable VTime (job_locked_until j)),
      (''lease_token'', nullable VUuid (job_lease_token j)), (''created_at'', VTime (job_created_at j)),
      (''updated_at'', VTime (job_updated_at j)), (''completed_at'', nullable VTime (job_completed_at j)),
      (''last_error'', nullable VText (job_last_error j)), (''timeout_seconds'', nullable VInt (job_timeout_seconds j)),
      (''available_at'', VTime (job_available_at j)), (''dead_lettered_at'', nullable VTime (job_dead_lettered_at j)),
      (''traceparent'', nullable VText (job_traceparent j)), (''tracestate'', nullable VText (job_tracestate j))]"

definition jobSelectColumns :: "string list" where
  "jobSelectColumns =
     [''id'', ''queue'', ''type'', ''payload'', ''status'', ''priority'', ''max_attempts'', ''attempt_count'',
      ''idempotency_key'', ''locked_by'', ''locked_until'', ''lease_token'', ''timeout_seconds'', ''traceparent'',
      ''tracestate'', ''available_at'', ''dead_lettered_at'', ''created_at'', ''updated_at'', ''completed_at'',
      ''last_error'']"

definition scanJob :: "column_value list \<Rightarrow> job option" where
  "scanJob vs =
     (if length vs \<noteq> 21 then None
      else do {
        x_job_id \<leftarrow> as_uuid (vs ! 0);
        x_job_queue \<leftarrow> as_text (vs ! 1);
        x_job_type \<leftarrow> as_text (vs ! 2);
        x_job_payload \<leftarrow> as_json (vs ! 3);
        x_job_status \<leftarrow> as_job_status (vs ! 4);
        x_job_priority \<leftarrow> as_int (vs ! 5);
        x_job_max_attempts \<leftarrow> as_int (vs ! 6);
        x_job_attempt_count \<leftarrow> as_int (vs ! 7);
        x_job_idempotency_key \<leftarrow> as_pointer as_text (vs ! 8);
        x_job_locked_by \<leftarrow> as_pointer as_text (vs ! 9);
        x_job_locked_until \<leftarrow> as_pointer as_time (vs ! 10);
        x_job_lease_token \<leftarrow> as_pointer as_uuid (vs ! 11);
        x_job_timeout_seconds \<leftarrow> as_pointer as_int (vs ! 12);
        x_job_traceparent \<leftarrow> as_pointer as_text (vs ! 13);
        x_job_tracestate \<leftarrow> as_pointer as_text (vs ! 14);
        x_job_available_at \<leftarrow> as_time (vs ! 15);
        x_job_dead_lettered_at \<leftarrow> as_pointer as_time (vs ! 16);
        x_job_created_at \<leftarrow> as_time (vs ! 17);
        x_job_updated_at \<leftarrow> as_time (vs ! 18);
        x_job_completed_at \<leftarrow> as_pointer as_time (vs ! 19);
        x_job_last_error \<leftarrow> as_pointer as_text (vs ! 20);
        Some \<lparr>job_id = x_job_id, job_queue = x_job_queue, job_type = x_job_type, job_payload = x_job_payload,
              job_status = x_job_status, job_priority = x_job_priority, job_max_attempts = x_job_max_attempts,
              job_attempt_count = x_job_attempt_count, job_idempotency_key = x_job_idempotency_key,
              job_locked_by = x_job_locked_by, job_locked_until = x_job_locked_until, job_lease_token = x_job_lease_token,
              job_timeout_seconds = x_job_timeout_seconds, job_traceparent = x_job_traceparent,
              job_tracestate = x_job_tracestate, job_available_at = x_job_available_at,
              job_dead_lettered_at = x_job_dead_lettered_at, job_created_at = x_job_created_at,
              job_updated_at = x_job_updated_at, job_completed_at = x_job_completed_at, job_last_error = x_job_last_error\<rparr>
      })"

definition attempt_row :: "attempt \<Rightarrow> (string \<times> column_value) list" where
  "attempt_row a =
     [(''id'', VUuid (att_id a)), (''job_id'', VUuid (att_job_id a)), (''worker_id'', VText (att_worker_id a)),
      (''lease_token'', VUuid (att_lease_token a)), (''attempt_number'', VInt (att_number a)),
      (''status'', VText (attempt_status_text (att_status a))), (''started_at'', VTime (att_started_at a)),
      (''finished_at'', nullable VTime (att_finished_at a)), (''error_message'', nullable VText (att_error a)),
      (''duration_ms'', nullable VInt (att_duration_ms a))]"

definition jobAttemptSelectColumns :: "string list" where
  "jobAttemptSelectColumns =
     [''id'', ''job_id'', ''worker_id'', ''lease_token'', ''attempt_number'', ''status'', ''started_at'', ''finished_at'',
      ''error_message'', ''duration_ms'']"

definition scanJobAttempt :: "column_value list \<Rightarrow> attempt option" where
  "scanJobAttempt vs =
     (if length vs \<noteq> 10 then None
      else do {
        x_att_id \<leftarrow> as_uuid (vs ! 0);
        x_att_job_id \<leftarrow> as_uuid (vs ! 1);
        x_att_worker_id \<leftarrow> as_text (vs ! 2);
        x_att_lease_token \<leftarrow> as_uuid (vs ! 3);
        x_att_number \<leftarrow> as_int (vs ! 4);
        x_att_status \<leftarrow> as_attempt_status (vs ! 5);
        x_att_started_at \<leftarrow> as_time (vs ! 6);
        x_att_finished_at \<leftarrow> as_pointer as_time (vs ! 7);
        x_att_error \<leftarrow> as_pointer as_text (vs ! 8);
        x_att_duration_ms \<leftarrow> as_pointer as_int (vs ! 9);
        Some \<lparr>att_id = x_att_id, att_job_id = x_att_job_id, att_worker_id = x_att_worker_id,
              att_lease_token = x_att_lease_token, att_number = x_att_number, att_status = x_att_status,
              att_started_at = x_att_started_at, att_finished_at = x_att_finished_at, att_error = x_att_error,
              att_duration_ms = x_att_duration_ms\<rparr>
      })"

definition worker_row :: "worker \<Rightarrow> (string \<times> column_value) list" where
  "worker_row w =
     [(''id'', VText (wk_id w)), (''hostname'', VText (wk_hostname w)), (''queues'', VTexts (wk_queues w)),
      (''status'', VText (worker_status_text (wk_status w))), (''concurrency'', VInt (wk_concurrency w)),
      (''metadata'', VJson (wk_metadata w)), (''started_at'', VTime (wk_started_at w)),
      (''last_heartbeat_at'', VTime (wk_last_heartbeat_at w)), (''updated_at'', VTime (wk_updated_at w))]"

definition workerSelectColumns :: "string list" where
  "workerSelectColumns =
     [''id'', ''hostname'', ''queues'', ''status'', ''concurrency'', ''metadata'', ''started_at'', ''last_heartbeat_at'',
      ''updated_at'']"

definition scanWorker :: "column_value list \<Rightarrow> worker option" where
  "scanWorker vs =
     (if length vs \<noteq> 9 then None
      else do {
        x_wk_id \<leftarrow> as_text (vs ! 0);
        x_wk_hostname \<leftarrow> as_text (vs ! 1);
        x_wk_queues \<leftarrow> as_texts (vs ! 2);
        x_wk_status \<leftarrow> as_worker_status (vs ! 3);
        x_wk_concurrency \<leftarrow> as_int (vs ! 4);
        x_wk_metadata \<leftarrow> as_json (vs ! 5);
        x_wk_started_at \<leftarrow> as_time (vs ! 6);
        x_wk_last_heartbeat_at \<leftarrow> as_time (vs ! 7);
        x_wk_updated_at \<leftarrow> as_time (vs ! 8);
        Some \<lparr>wk_id = x_wk_id, wk_hostname = x_wk_hostname, wk_queues = x_wk_queues, wk_status = x_wk_status,
              wk_concurrency = x_wk_concurrency, wk_metadata = x_wk_metadata, wk_started_at = x_wk_started_at,
              wk_last_heartbeat_at = x_wk_last_heartbeat_at, wk_updated_at = x_wk_updated_at\<rparr>
      })"

definition job_log_row :: "job_log \<Rightarrow> (string \<times> column_value) list" where
  "job_log_row l =
     [(''id'', VUuid (log_id l)), (''job_id'', VUuid (log_job_id l)), (''attempt_id'', nullable VUuid (log_attempt_id l)),
      (''logged_at'', VTime (log_logged_at l)), (''level'', VText (log_level l)), (''message'', VText (log_message l)),
      (''fields'', VJson (log_fields l))]"

definition jobLogSelectColumns :: "string list" where
  "jobLogSelectColumns =
     [''id'', ''job_id'', ''attempt_id'', ''logged_at'', ''level'', ''message'', ''fields'']"

definition scanJobLog :: "column_value list \<Rightarrow> job_log option" where
  "scanJobLog vs =
     (if length vs \<noteq> 7 then None
      else do {
        x_log_id \<leftarrow> as_uuid (vs ! 0);
        x_log_job_id \<leftarrow> as_uuid (vs ! 1);
        x_log_attempt_id \<leftarrow> as_pointer as_uuid (vs ! 2);
        x_log_logged_at \<leftarrow> as_time (vs ! 3);
        x_log_level \<leftarrow> as_text (vs ! 4);
        x_log_message \<leftarrow> as_text (vs ! 5);
        x_log_fields \<leftarrow> as_json (vs ! 6);
        Some \<lparr>log_id = x_log_id, log_job_id = x_log_job_id, log_attempt_id = x_log_attempt_id,
              log_logged_at = x_log_logged_at, log_level = x_log_level, log_message = x_log_message,
              log_fields = x_log_fields\<rparr>
      })"

definition cron_job_row :: "cron_job \<Rightarrow> (string \<times> column_value) list" where
  "cron_job_row c =
     [(''id'', VUuid (cj_id c)), (''name'', VText (cj_name c)), (''queue'', VText (cj_queue c)),
      (''type'', VText (cj_type c)), (''payload'', VJson (cj_payload c)), (''schedule'', VText (cj_schedule c)),
      (''enabled'', VBool (cj_enabled c)), (''priority'', VInt (cj_priority c)),
      (''max_attempts'', VInt (cj_max_attempts c)), (''timeout_seconds'', nullable VInt (cj_timeout_seconds c)),
      (''next_run_at'', VTime (cj_next_run_at c)), (''last_run_at'', nullable VTime (cj_last_run_at c)),
      (''created_at'', VTime (cj_created_at c)), (''updated_at'', VTime (cj_updated_at c))]"

definition cronJobSelectColumns :: "string list" where
  "cronJobSelectColumns =
     [''id'', ''name'', ''queue'', ''type'', ''payload'', ''schedule'', ''enabled'', ''priority'', ''max_attempts'',
      ''timeout_seconds'', ''next_run_at'', ''last_run_at'', ''created_at'', ''updated_at'']"

definition scanCronJob :: "column_value list \<Rightarrow> cron_job option" where
  "scanCronJob vs =
     (if length vs \<noteq> 14 then None
      else do {
        x_cj_id \<leftarrow> as_uuid (vs ! 0);
        x_cj_name \<leftarrow> as_text (vs ! 1);
        x_cj_queue \<leftarrow> as_text (vs ! 2);
        x_cj_type \<leftarrow> as_text (vs ! 3);
        x_cj_payload \<leftarrow> as_json (vs ! 4);
        x_cj_schedule \<leftarrow> as_text (vs ! 5);
        x_cj_enabled \<leftarrow> as_bool (vs ! 6);
        x_cj_priority \<leftarrow> as_int (vs ! 7);
        x_cj_max_attempts \<leftarrow> as_int (vs ! 8);
        x_cj_timeout_seconds \<leftarrow> as_pointer as_int (vs ! 9);
        x_cj_next_run_at \<leftarrow> as_time (vs ! 10);
        x_cj_last_run_at \<leftarrow> as_pointer as_time (vs ! 11);
        x_cj_created_at \<leftarrow> as_time (vs ! 12);
        x_cj_updated_at \<leftarrow> as_time (vs ! 13);
        Some \<lparr>cj_id = x_cj_id, cj_name = x_cj_name, cj_queue = x_cj_queue, cj_type = x_cj_type, cj_payload = x_cj_payload,
              cj_schedule = x_cj_schedule, cj_enabled = x_cj_enabled, cj_priority = x_cj_priority,
              cj_max_attempts = x_cj_max_attempts, cj_timeout_seconds = x_cj_timeout_seconds,
              cj_next_run_at = x_cj_next_run_at, cj_last_run_at = x_cj_last_run_at, cj_created_at = x_cj_created_at,
              cj_updated_at = x_cj_updated_at\<rparr>
      })"

definition cron_run_row :: "cron_run \<Rightarrow> (string \<times> column_value) list" where
  "cron_run_row r =
     [(''id'', VUuid (cr_id r)), (''cron_job_id'', VUuid (cr_cron_job_id r)),
      (''scheduled_for'', VTime (cr_scheduled_for r)), (''job_id'', nullable VUuid (cr_job_id r)),
      (''scheduler_id'', VText (cr_scheduler_id r)), (''created_at'', VTime (cr_created_at r))]"

definition cronRunSelectColumns :: "string list" where
  "cronRunSelectColumns =
     [''id'', ''cron_job_id'', ''scheduled_for'', ''job_id'', ''scheduler_id'', ''created_at'']"

definition scanCronRun :: "column_value list \<Rightarrow> cron_run option" where
  "scanCronRun vs =
     (if length vs \<noteq> 6 then None
      else do {
        x_cr_id \<leftarrow> as_uuid (vs ! 0);
        x_cr_cron_job_id \<leftarrow> as_uuid (vs ! 1);
        x_cr_scheduled_for \<leftarrow> as_time (vs ! 2);
        x_cr_job_id \<leftarrow> as_pointer as_uuid (vs ! 3);
        x_cr_scheduler_id \<leftarrow> as_text (vs ! 4);
        x_cr_created_at \<leftarrow> as_time (vs ! 5);
        Some \<lparr>cr_id = x_cr_id, cr_cron_job_id = x_cr_cron_job_id, cr_scheduled_for = x_cr_scheduled_for,
              cr_job_id = x_cr_job_id, cr_scheduler_id = x_cr_scheduler_id, cr_created_at = x_cr_created_at\<rparr>
      })"

section \<open>Facts\<close>

lemma as_nullable_uuid [simp]: "as_pointer as_uuid (nullable VUuid x) = Some x"
  by (cases x) (simp_all add: nullable_def)

lemma as_nullable_text [simp]: "as_pointer as_text (nullable VText x) = Some x"
  by (cases x) (simp_all add: nullable_def)

lemma as_nullable_int [simp]: "as_pointer as_int (nullable VInt x) = Some x"
  by (cases x) (simp_all add: nullable_def)

lemma as_nullable_time [simp]: "as_pointer as_time (nullable VTime x) = Some x"
  by (cases x) (simp_all add: nullable_def)

lemma as_job_status_text [simp]: "as_job_status (VText (job_status_text s)) = Some s"
  by (cases s) (simp_all add: as_job_status_def)

lemma as_attempt_status_text [simp]: "as_attempt_status (VText (attempt_status_text s)) = Some s"
  by (cases s) (simp_all add: as_attempt_status_def)

lemma as_worker_status_text [simp]: "as_worker_status (VText (worker_status_text s)) = Some s"
  by (cases s) (simp_all add: as_worker_status_def worker_status_of_def)

lemma nth_rest: "(x # xs) ! numeral n = xs ! pred_numeral n"
  by (simp add: numeral_eq_Suc)

lemma job_read: "select_columns jobSelectColumns (job_row j) \<bind> scanJob = Some j"
  by (simp add: select_columns_def jobSelectColumns_def job_row_def scanJob_def)

lemma attempt_read: "select_columns jobAttemptSelectColumns (attempt_row a) \<bind> scanJobAttempt = Some a"
  by (simp add: select_columns_def jobAttemptSelectColumns_def attempt_row_def scanJobAttempt_def)

lemma worker_read: "select_columns workerSelectColumns (worker_row w) \<bind> scanWorker = Some w"
  by (simp add: select_columns_def workerSelectColumns_def worker_row_def scanWorker_def)

lemma job_log_read: "select_columns jobLogSelectColumns (job_log_row l) \<bind> scanJobLog = Some l"
  by (simp add: select_columns_def jobLogSelectColumns_def job_log_row_def scanJobLog_def)

lemma cron_job_read: "select_columns cronJobSelectColumns (cron_job_row c) \<bind> scanCronJob = Some c"
  by (simp add: select_columns_def cronJobSelectColumns_def cron_job_row_def scanCronJob_def)

lemma cron_run_read: "select_columns cronRunSelectColumns (cron_run_row r) \<bind> scanCronRun = Some r"
  by (simp add: select_columns_def cronRunSelectColumns_def cron_run_row_def scanCronRun_def)

text \<open>
  C39. Rows are read as they were written. For every table, the columns that the store selects are
  columns of the table, and scanning them by position gives back the struct that the row stands for:
  no two columns are swapped, none is missing, and NULL reaches only destinations that can hold it.
\<close>

theorem rows_roundtrip:
  "select_columns jobSelectColumns (job_row j) \<bind> scanJob = Some j \<and>
   select_columns jobAttemptSelectColumns (attempt_row a) \<bind> scanJobAttempt = Some a \<and>
   select_columns workerSelectColumns (worker_row w) \<bind> scanWorker = Some w \<and>
   select_columns jobLogSelectColumns (job_log_row l) \<bind> scanJobLog = Some l \<and>
   select_columns cronJobSelectColumns (cron_job_row c) \<bind> scanCronJob = Some c \<and>
   select_columns cronRunSelectColumns (cron_run_row r) \<bind> scanCronRun = Some r"
  by (intro conjI job_read attempt_read worker_read job_log_read cron_job_read cron_run_read)

end
