(* ===== verification/Cli.thy ===== *)
theory Cli
  imports Config Api GoUrl Rows
begin

text \<open>
  The client commands of \<open>cmd/pulsequeue/main.go\<close>. A command validates the configuration, sends one
  request to the API and prints the reply. It runs in the state monad over a \<open>terminal\<close>: the requests
  sent and the text on standard output; its result is the error that \<open>main\<close> prints before it exits
  with 1, or success. The machine around it is a \<open>host\<close>: files, the HTTP client, the encoders and
  decoders of \<open>encoding/json\<close> for the structs, \<open>strconv.Quote\<close> and the printing of UUIDs. Timestamps are
  printed in UTC. The flags come parsed, with cobra's check that there is one argument done.
\<close>

section \<open>The machine\<close>

record http_request =
  hr_method :: string
  hr_url :: string
  hr_authorization :: "string option"
  hr_content_type :: "string option"
  hr_body :: "string option"

text \<open>A reply: the body as far as it was read, and the error that ended the reading.\<close>

record http_reply =
  hp_status :: int
  hp_body :: string
  hp_error :: "string option"

record host =
  h_is_dir :: "string \<Rightarrow> bool option"
  h_read_file :: "string \<Rightarrow> string + string"
  h_url_error :: "string \<Rightarrow> string option"
  h_do :: "nat \<Rightarrow> http_request \<Rightarrow> string + http_reply"
  h_marshal_job :: "create_job_request \<Rightarrow> string + string"
  h_marshal_cron :: "create_cron_request \<Rightarrow> string + string"
  h_created :: "string \<Rightarrow> string + job \<times> bool"
  h_job :: "string \<Rightarrow> string + job"
  h_jobs :: "string \<Rightarrow> string + job list"
  h_attempts :: "string \<Rightarrow> string + attempt list"
  h_logs :: "string \<Rightarrow> string + job_log list"
  h_workers :: "string \<Rightarrow> string + worker list"
  h_queues :: "string \<Rightarrow> string + queue_summary list"
  h_cron_job :: "string \<Rightarrow> string + cron_job"
  h_cron_jobs :: "string \<Rightarrow> string + cron_job list"
  h_indent :: "reply_body \<Rightarrow> string"
  h_quote :: "string \<Rightarrow> string"
  h_uuid_str :: "uuid \<Rightarrow> string"

record terminal =
  t_sent :: "http_request list"
  t_out :: string

type_synonym 'a cli = "(terminal, string + 'a) state"

definition fail_with :: "string \<Rightarrow> 'a cli" where
  "fail_with e = State_Monad.return (Inl e)"

text \<open>\<open>if err != nil { return err }\<close>\<close>

definition attempt_then :: "'a cli \<Rightarrow> ('a \<Rightarrow> 'b cli) \<Rightarrow> 'b cli" where
  "attempt_then m f = do { x \<leftarrow> m; case x of Inl e \<Rightarrow> fail_with e | Inr a \<Rightarrow> f a }"

definition send :: "host \<Rightarrow> http_request \<Rightarrow> http_reply cli" where
  "send h rq = State (\<lambda>t. (h_do h (length (t_sent t)) rq, t\<lparr>t_sent := t_sent t @ [rq]\<rparr>))"

definition print :: "string \<Rightarrow> unit cli" where
  "print s = State (\<lambda>t. (Inr (), t\<lparr>t_out := t_out t @ s\<rparr>))"

section \<open>Requests\<close>

definition fileExists :: "host \<Rightarrow> string \<Rightarrow> bool" where
  "fileExists h path = (case h_is_dir h path of None \<Rightarrow> False | Some is_dir \<Rightarrow> \<not> is_dir)"

definition readPayload :: "host \<Rightarrow> string \<Rightarrow> string + string" where
  "readPayload h v =
     (if v = [] then Inr [CHR 0x7B, CHR 0x7D]
      else let path = (if HasPrefix v ''@'' then TrimPrefix v ''@'' else v)
        in if HasPrefix v ''@'' \<or> fileExists h path
           then (case h_read_file h (Clean path) of
               Inl e \<Rightarrow> Inl e
             | Inr raw \<Rightarrow> if \<not> json_Valid raw then Inl ''payload file must contain valid JSON'' else Inr raw)
           else if \<not> json_Valid v then Inl ''payload must be valid JSON''
           else Inr v)"

text \<open>
  \<open>input\<close> is the marshalled body or the error of \<open>json.Marshal\<close>, None for no body. Every command asks for
  an output, so that \<open>decode\<close> is always there.
\<close>

definition doJSON ::
    "host \<Rightarrow> config \<Rightarrow> string \<Rightarrow> string \<Rightarrow> (string + string) option \<Rightarrow> (string \<Rightarrow> string + 'a) \<Rightarrow> 'a cli" where
  "doJSON h c meth path input decode =
     (case input of
        Some (Inl e) \<Rightarrow> fail_with e
      | _ \<Rightarrow>
         (case h_url_error h (APIURL c @ path) of
            Some e \<Rightarrow> fail_with e
          | None \<Rightarrow>
              attempt_then (send h
                \<lparr>hr_method = meth, hr_url = APIURL c @ path, hr_authorization = Some (''Bearer '' @ OperatorToken c),
                 hr_content_type = (if input \<noteq> None then Some ''application/json'' else None),
                 hr_body = (case input of Some (Inr raw) \<Rightarrow> Some raw | _ \<Rightarrow> None)\<rparr>)
                (\<lambda>resp. case hp_error resp of
                     Some e \<Rightarrow> fail_with e
                   | None \<Rightarrow>
                       if hp_status resp \<ge> 300
                       then fail_with (meth @ '' '' @ path @ '' returned '' @ Itoa (hp_status resp) @ '': '' @ TrimSpace (hp_body resp))
                       else State_Monad.return (decode (hp_body resp)))))"

definition show_result :: "host \<Rightarrow> string \<Rightarrow> reply_body \<Rightarrow> string \<Rightarrow> unit cli" where
  "show_result h output result text = print (if output = ''json'' then h_indent h result else text)"

definition with_client :: "config \<Rightarrow> 'a cli \<Rightarrow> 'a cli" where
  "with_client c m = (case ValidateClient c of Some e \<Rightarrow> fail_with e | None \<Rightarrow> m)"

section \<open>Texts\<close>

abbreviation (input) tab :: string where "tab \<equiv> [CHR 0x09]"
abbreviation (input) newline :: string where "newline \<equiv> [CHR 0x0A]"

definition job_line :: "host \<Rightarrow> job \<Rightarrow> string" where
  "job_line h j = h_uuid_str h (job_id j) @ tab @ job_queue j @ tab @ job_type j @ tab @ job_status_text (job_status j) @ tab @
     ''attempts='' @ Itoa (job_attempt_count j) @ newline"

definition attempt_line :: "host \<Rightarrow> attempt \<Rightarrow> string" where
  "attempt_line h a =
     (let duration = (case att_duration_ms a of None \<Rightarrow> [] | Some d \<Rightarrow> '' duration_ms='' @ Itoa d);
          message = (case att_error a of None \<Rightarrow> [] | Some e \<Rightarrow> '' error='' @ h_quote h e)
      in Itoa (att_number a) @ tab @ h_uuid_str h (att_id a) @ tab @ att_worker_id a @ tab @ attempt_status_text (att_status a) @
         duration @ message @ newline)"

definition log_line :: "job_log \<Rightarrow> string" where
  "log_line l =
     (let fields = TrimSpace (log_fields l);
          start = format_RFC3339 (log_logged_at l) @ tab @ log_level l @ tab @ log_message l
      in if fields = [] \<or> fields = [CHR 0x7B, CHR 0x7D] then start @ newline else start @ tab @ fields @ newline)"

definition worker_line :: "worker \<Rightarrow> string" where
  "worker_line w = wk_id w @ tab @ join '','' (wk_queues w) @ tab @ ''status='' @ worker_status_text (wk_status w) @ tab @
     ''concurrency='' @ Itoa (wk_concurrency w) @ tab @ ''last_heartbeat='' @ format_RFC3339 (wk_last_heartbeat_at w) @ newline"

definition queue_line :: "queue_summary \<Rightarrow> string" where
  "queue_line q =
     (let oldest = (case qs_oldest_available_at q of None \<Rightarrow> [] | Some t \<Rightarrow> '' oldest_available_at='' @ format_RFC3339 t)
      in qs_queue q @ tab @ ''total='' @ Itoa (qs_total_jobs q) @ tab @ ''queued='' @ Itoa (qs_queued q) @ tab @
         ''retry_scheduled='' @ Itoa (qs_retry_scheduled q) @ tab @ ''running='' @ Itoa (qs_running q) @ tab @
         ''succeeded='' @ Itoa (qs_succeeded q) @ tab @ ''dead_letter='' @ Itoa (qs_dead_letter q) @ tab @
         ''cancelled='' @ Itoa (qs_cancelled q) @ tab @ ''active_workers='' @ Itoa (qs_active_workers q) @ oldest @ newline)"

definition cron_line :: "host \<Rightarrow> cron_job \<Rightarrow> string" where
  "cron_line h cj =
     (let last_run = (case cj_last_run_at cj of None \<Rightarrow> [] | Some t \<Rightarrow> '' last_run_at='' @ format_RFC3339 t)
      in h_uuid_str h (cj_id cj) @ tab @ cj_name cj @ tab @ cj_queue cj @ tab @ cj_schedule cj @ tab @
         ''enabled='' @ FormatBool (cj_enabled cj) @ tab @ ''next_run_at='' @ format_RFC3339 (cj_next_run_at cj) @ last_run @ newline)"

section \<open>Commands\<close>

record submit_flags =
  sf_queue :: string
  sf_type :: string
  sf_payload :: string
  sf_priority :: int
  sf_max_attempts :: int
  sf_timeout_seconds :: int
  sf_delay_seconds :: int
  sf_idempotency_key :: string
  sf_output :: string

definition submit_defaults :: submit_flags where
  "submit_defaults =
     \<lparr>sf_queue = ''default'', sf_type = ''demo.echo'', sf_payload = [CHR 0x7B, CHR 0x7D], sf_priority = 0, sf_max_attempts = 1,
      sf_timeout_seconds = 0, sf_delay_seconds = 0, sf_idempotency_key = [], sf_output = ''text''\<rparr>"

definition jobs_submit :: "host \<Rightarrow> config \<Rightarrow> submit_flags \<Rightarrow> unit cli" where
  "jobs_submit h c fl = with_client c
     (case readPayload h (sf_payload fl) of
        Inl e \<Rightarrow> fail_with e
      | Inr rawPayload \<Rightarrow>
          let body = \<lparr>cjr_queue = sf_queue fl, cjr_type = sf_type fl, cjr_payload = rawPayload, cjr_priority = sf_priority fl,
                cjr_max_attempts = sf_max_attempts fl, cjr_timeout_seconds = sf_timeout_seconds fl,
                cjr_delay_seconds = sf_delay_seconds fl, cjr_idempotency_key = sf_idempotency_key fl\<rparr>
          in attempt_then (doJSON h c ''POST'' ''/jobs'' (Some (h_marshal_job h body)) (h_created h))
               (\<lambda>result. show_result h (sf_output fl) (JobCreated (fst result) (snd result))
                  (''submitted job '' @ h_uuid_str h (job_id (fst result)) @ '' status='' @ job_status_text (job_status (fst result)) @
                   '' existing='' @ FormatBool (snd result) @ newline)))"

text \<open>The flags go into the query as they are.\<close>

definition jobs_list_path :: "string \<Rightarrow> string \<Rightarrow> int \<Rightarrow> string" where
  "jobs_list_path status queue limit = ''/jobs?status='' @ status @ ''&queue='' @ queue @ ''&limit='' @ Itoa limit"

definition jobs_list :: "host \<Rightarrow> config \<Rightarrow> string \<Rightarrow> string \<Rightarrow> int \<Rightarrow> string \<Rightarrow> unit cli" where
  "jobs_list h c status queue limit output = with_client c
     (attempt_then (doJSON h c ''GET'' (jobs_list_path status queue limit) None (h_jobs h))
        (\<lambda>found. show_result h output (JobsBody found) (concat (map (job_line h) found))))"

definition jobs_status :: "host \<Rightarrow> config \<Rightarrow> string \<Rightarrow> string \<Rightarrow> unit cli" where
  "jobs_status h c arg output = with_client c
     (attempt_then (doJSON h c ''GET'' (''/jobs/'' @ arg) None (h_job h))
        (\<lambda>job. show_result h output (JobBody job) (job_line h job)))"

definition jobs_attempts :: "host \<Rightarrow> config \<Rightarrow> string \<Rightarrow> string \<Rightarrow> unit cli" where
  "jobs_attempts h c arg output = with_client c
     (attempt_then (doJSON h c ''GET'' (''/jobs/'' @ arg @ ''/attempts'') None (h_attempts h))
        (\<lambda>found. show_result h output (AttemptsBody found) (concat (map (attempt_line h) found))))"

definition jobs_logs :: "host \<Rightarrow> config \<Rightarrow> string \<Rightarrow> int \<Rightarrow> string \<Rightarrow> unit cli" where
  "jobs_logs h c arg limit output = with_client c
     (attempt_then (doJSON h c ''GET'' (''/jobs/'' @ PathEscape arg @ ''/logs?limit='' @ Itoa limit) None (h_logs h))
        (\<lambda>found. show_result h output (LogsBody found) (concat (map log_line found))))"

definition jobs_retry :: "host \<Rightarrow> config \<Rightarrow> string \<Rightarrow> string \<Rightarrow> unit cli" where
  "jobs_retry h c arg output = with_client c
     (attempt_then (doJSON h c ''POST'' (''/jobs/'' @ PathEscape arg @ ''/retry'') None (h_job h))
        (\<lambda>job. show_result h output (JobBody job)
           (''retried job '' @ h_uuid_str h (job_id job) @ '' status='' @ job_status_text (job_status job) @ '' queue='' @
            job_queue job @ '' attempts='' @ Itoa (job_attempt_count job) @ '' max_attempts='' @ Itoa (job_max_attempts job) @
            newline)))"

definition jobs_cancel :: "host \<Rightarrow> config \<Rightarrow> string \<Rightarrow> string \<Rightarrow> unit cli" where
  "jobs_cancel h c arg output = with_client c
     (attempt_then (doJSON h c ''POST'' (''/jobs/'' @ PathEscape arg @ ''/cancel'') None (h_job h))
        (\<lambda>job. show_result h output (JobBody job)
           (''cancelled job '' @ h_uuid_str h (job_id job) @ '' status='' @ job_status_text (job_status job) @ '' queue='' @
            job_queue job @ newline)))"

definition workers_list :: "host \<Rightarrow> config \<Rightarrow> string \<Rightarrow> unit cli" where
  "workers_list h c output = with_client c
     (attempt_then (doJSON h c ''GET'' ''/workers'' None (h_workers h))
        (\<lambda>found. show_result h output (WorkersBody found) (concat (map worker_line found))))"

definition queues_list :: "host \<Rightarrow> config \<Rightarrow> string \<Rightarrow> unit cli" where
  "queues_list h c output = with_client c
     (attempt_then (doJSON h c ''GET'' ''/queues'' None (h_queues h))
        (\<lambda>found. show_result h output (QueuesBody found) (concat (map queue_line found))))"

record cron_flags =
  kf_name :: string
  kf_queue :: string
  kf_type :: string
  kf_payload :: string
  kf_schedule :: string
  kf_priority :: int
  kf_max_attempts :: int
  kf_timeout_seconds :: int
  kf_output :: string

definition cron_defaults :: cron_flags where
  "cron_defaults =
     \<lparr>kf_name = [], kf_queue = ''default'', kf_type = ''demo.echo'', kf_payload = [CHR 0x7B, CHR 0x7D], kf_schedule = [],
      kf_priority = 0, kf_max_attempts = 1, kf_timeout_seconds = 0, kf_output = ''text''\<rparr>"

definition cron_create :: "host \<Rightarrow> config \<Rightarrow> cron_flags \<Rightarrow> unit cli" where
  "cron_create h c fl =
     (if TrimSpace (kf_name fl) = [] then fail_with ''--name is required''
      else if TrimSpace (kf_schedule fl) = [] then fail_with ''--schedule is required''
      else if TrimSpace (kf_type fl) = [] then fail_with ''--type is required''
      else with_client c
        (case readPayload h (kf_payload fl) of
           Inl e \<Rightarrow> fail_with e
         | Inr rawPayload \<Rightarrow>
             let body = \<lparr>ccr_name = kf_name fl, ccr_queue = kf_queue fl, ccr_type = kf_type fl, ccr_payload = rawPayload,
                   ccr_schedule = kf_schedule fl, ccr_priority = kf_priority fl, ccr_max_attempts = kf_max_attempts fl,
                   ccr_timeout_seconds = kf_timeout_seconds fl\<rparr>
             in attempt_then (doJSON h c ''POST'' ''/cron'' (Some (h_marshal_cron h body)) (h_cron_job h))
                  (\<lambda>cj. show_result h (kf_output fl) (CronJobBody cj)
                     (''created cron '' @ cj_name cj @ '' id='' @ h_uuid_str h (cj_id cj) @ '' schedule='' @
                      h_quote h (cj_schedule cj) @ '' next_run_at='' @ format_RFC3339 (cj_next_run_at cj) @ newline))))"

definition cron_list :: "host \<Rightarrow> config \<Rightarrow> string \<Rightarrow> unit cli" where
  "cron_list h c output = with_client c
     (attempt_then (doJSON h c ''GET'' ''/cron'' None (h_cron_jobs h))
        (\<lambda>found. show_result h output (CronJobsBody found) (concat (map (cron_line h) found))))"

definition cron_set_enabled :: "host \<Rightarrow> config \<Rightarrow> string \<Rightarrow> string \<Rightarrow> string \<Rightarrow> unit cli" where
  "cron_set_enabled h c name arg output = with_client c
     (attempt_then (doJSON h c ''POST'' (''/cron/'' @ PathEscape arg @ ''/'' @ name) None (h_cron_job h))
        (\<lambda>cj. show_result h output (CronJobBody cj)
           (name @ '' cron '' @ cj_name cj @ '' enabled='' @ FormatBool (cj_enabled cj) @ '' next_run_at='' @
            format_RFC3339 (cj_next_run_at cj) @ newline)))"

text \<open>
  \<open>health\<close> checks two paths without a token, whatever the configuration is; an error of reading the body
  is dropped.
\<close>

definition probe :: "host \<Rightarrow> config \<Rightarrow> string \<Rightarrow> unit cli" where
  "probe h c path =
     (case h_url_error h (APIURL c @ path) of
        Some e \<Rightarrow> fail_with e
      | None \<Rightarrow>
          attempt_then (send h \<lparr>hr_method = ''GET'', hr_url = APIURL c @ path, hr_authorization = None,
              hr_content_type = None, hr_body = None\<rparr>)
            (\<lambda>resp. attempt_then (print (path @ '' '' @ Itoa (hp_status resp) @ '' '' @ TrimSpace (hp_body resp) @ newline))
               (\<lambda>_. if hp_status resp \<ge> 300 then fail_with (path @ '' returned '' @ Itoa (hp_status resp))
                    else State_Monad.return (Inr ()))))"

definition health :: "host \<Rightarrow> config \<Rightarrow> unit cli" where
  "health h c = attempt_then (probe h c ''/health/live'') (\<lambda>_. probe h c ''/health/ready'')"

datatype command =
    JobsSubmit submit_flags | JobsList string string int string | JobsStatus string string | JobsAttempts string string
  | JobsLogs string int string | JobsRetry string string | JobsCancel string string
  | WorkersList string | QueuesList string
  | CronCreate cron_flags | CronList string | CronEnable string string | CronDisable string string
  | HealthCheck

fun run_command :: "host \<Rightarrow> config \<Rightarrow> command \<Rightarrow> unit cli" where
  "run_command h c (JobsSubmit fl) = jobs_submit h c fl"
| "run_command h c (JobsList status queue limit output) = jobs_list h c status queue limit output"
| "run_command h c (JobsStatus arg output) = jobs_status h c arg output"
| "run_command h c (JobsAttempts arg output) = jobs_attempts h c arg output"
| "run_command h c (JobsLogs arg limit output) = jobs_logs h c arg limit output"
| "run_command h c (JobsRetry arg output) = jobs_retry h c arg output"
| "run_command h c (JobsCancel arg output) = jobs_cancel h c arg output"
| "run_command h c (WorkersList output) = workers_list h c output"
| "run_command h c (QueuesList output) = queues_list h c output"
| "run_command h c (CronCreate fl) = cron_create h c fl"
| "run_command h c (CronList output) = cron_list h c output"
| "run_command h c (CronEnable arg output) = cron_set_enabled h c ''enable'' arg output"
| "run_command h c (CronDisable arg output) = cron_set_enabled h c ''disable'' arg output"
| "run_command h c HealthCheck = health h c"

section \<open>One request\<close>

text \<open>
  What may come of a request \<open>rq\<close> sent at \<open>t\<close>: the transport's error, an error of reading or decoding
  the reply, the refusal that the status says, or a success with some output.
\<close>

definition answered :: "host \<Rightarrow> terminal \<Rightarrow> string \<Rightarrow> string \<Rightarrow> http_request \<Rightarrow> string + unit \<Rightarrow> string \<Rightarrow> bool" where
  "answered h t meth path rq res out \<longleftrightarrow>
     (case h_do h (length (t_sent t)) rq of
        Inl e \<Rightarrow> res = Inl e \<and> out = []
      | Inr resp \<Rightarrow>
          if hp_error resp \<noteq> None then res = Inl (the (hp_error resp)) \<and> out = []
          else if hp_status resp \<ge> 300
          then res = Inl (meth @ '' '' @ path @ '' returned '' @ Itoa (hp_status resp) @ '': '' @ TrimSpace (hp_body resp)) \<and> out = []
          else res = Inr () \<or> isl res \<and> out = [])"

definition sends :: "host \<Rightarrow> config \<Rightarrow> string \<Rightarrow> string \<Rightarrow> unit cli \<Rightarrow> bool" where
  "sends h c meth path m \<longleftrightarrow>
     (\<forall>t res t'. run_state m t = (res, t') \<longrightarrow>
        (isl res \<and> t' = t) \<or>
        (ValidateClient c = None \<and>
         (\<exists>rq out. hr_method rq = meth \<and> hr_url rq = APIURL c @ path \<and> hr_authorization rq = Some (''Bearer '' @ OperatorToken c) \<and>
            t_sent t' = t_sent t @ [rq] \<and> t_out t' = t_out t @ out \<and> answered h t meth path rq res out)))"

named_theorems sends_rules \<open>commands that send one request\<close>

lemma sends_fail [sends_rules]: "sends h c meth path (fail_with e)"
  by (simp add: sends_def fail_with_def)

lemma sends_if [sends_rules]: "sends h c meth path m \<Longrightarrow> sends h c meth path n \<Longrightarrow> sends h c meth path (if b then m else n)"
  by simp

lemma sends_sum [sends_rules]:
  "(\<And>a. sends h c meth path (g a)) \<Longrightarrow> sends h c meth path (case x of Inl e \<Rightarrow> fail_with e | Inr a \<Rightarrow> g a)"
  by (cases x) (simp_all add: sends_fail)

lemma run_show_result:
  "run_state (show_result h output result text) t = (res, t') \<Longrightarrow> \<exists>out. res = Inr () \<and> t' = t\<lparr>t_out := t_out t @ out\<rparr>"
  by (auto simp: show_result_def print_def)

text \<open>A call of the API, whose result is shown.\<close>

lemma sends_call:
  assumes "ValidateClient c = None"
  shows "sends h c meth path (attempt_then (doJSON h c meth path input decode) (\<lambda>a. show_result h output (f a) (g a)))"
  using assms
  by (auto simp: sends_def answered_def doJSON_def attempt_then_def fail_with_def send_def show_result_def print_def
      split: option.splits sum.splits if_splits)

lemma sends_command [sends_rules]:
  "sends h c meth path (with_client c (attempt_then (doJSON h c meth path input decode) (\<lambda>a. show_result h output (f a) (g a))))"
  by (cases "ValidateClient c") (simp_all add: with_client_def sends_call sends_fail)

lemma sends_payload [sends_rules]:
  "sends h c meth path (with_client c (case x of Inl e \<Rightarrow> fail_with e
     | Inr p \<Rightarrow> attempt_then (doJSON h c meth path (input p) decode) (\<lambda>a. show_result h output (f a) (g a))))"
  by (cases "ValidateClient c"; cases x) (simp_all add: with_client_def sends_call sends_fail)

text \<open>Method and path of a command's request.\<close>

fun command_target :: "command \<Rightarrow> string \<times> string" where
  "command_target (JobsSubmit fl) = (''POST'', ''/jobs'')"
| "command_target (JobsList status queue limit output) = (''GET'', jobs_list_path status queue limit)"
| "command_target (JobsStatus arg output) = (''GET'', ''/jobs/'' @ arg)"
| "command_target (JobsAttempts arg output) = (''GET'', ''/jobs/'' @ arg @ ''/attempts'')"
| "command_target (JobsLogs arg limit output) = (''GET'', ''/jobs/'' @ PathEscape arg @ ''/logs?limit='' @ Itoa limit)"
| "command_target (JobsRetry arg output) = (''POST'', ''/jobs/'' @ PathEscape arg @ ''/retry'')"
| "command_target (JobsCancel arg output) = (''POST'', ''/jobs/'' @ PathEscape arg @ ''/cancel'')"
| "command_target (WorkersList output) = (''GET'', ''/workers'')"
| "command_target (QueuesList output) = (''GET'', ''/queues'')"
| "command_target (CronCreate fl) = (''POST'', ''/cron'')"
| "command_target (CronList output) = (''GET'', ''/cron'')"
| "command_target (CronEnable arg output) = (''POST'', ''/cron/'' @ PathEscape arg @ ''/enable'')"
| "command_target (CronDisable arg output) = (''POST'', ''/cron/'' @ PathEscape arg @ ''/disable'')"
| "command_target HealthCheck = (''GET'', ''/health/live'')"

lemma run_command_sends:
  "cmd \<noteq> HealthCheck \<Longrightarrow> sends h c (fst (command_target cmd)) (snd (command_target cmd)) (run_command h c cmd)"
  by (cases cmd) (simp_all only: run_command.simps command_target.simps fst_conv snd_conv jobs_submit_def jobs_list_def
      jobs_status_def jobs_attempts_def jobs_logs_def jobs_retry_def jobs_cancel_def workers_list_def queues_list_def
      cron_create_def cron_list_def cron_set_enabled_def Let_def sends_rules append_Cons append_Nil simp_thms)

section \<open>What the server receives\<close>

text \<open>
  \<open>net/http\<close> reads the target of the request line, trims the header's value and hands the path to the
  router, a parameter. \<open>base\<close> is the scheme and authority that the server answers to.
\<close>

definition trim_header :: "string \<Rightarrow> string" where
  "trim_header s = (let blank = (\<lambda>c. c = CHR 0x20 \<or> c = CHR 0x09) in rev (dropWhile blank (rev (dropWhile blank s))))"

definition receive ::
    "(string \<Rightarrow> string \<Rightarrow> route) \<Rightarrow> string \<Rightarrow> (string \<Rightarrow> create_job_request option) \<Rightarrow> (string \<Rightarrow> create_cron_request option) \<Rightarrow>
     string \<Rightarrow> http_request \<Rightarrow> request option" where
  "receive router base unmarshal_job unmarshal_cron rid rq =
     (let body = (case hr_body rq of None \<Rightarrow> [] | Some b \<Rightarrow> b)
      in case Parse_target (drop (length base) (hr_url rq)) of
        None \<Rightarrow> None
      | Some (path, params) \<Rightarrow> Some
          \<lparr>rq_route = router (hr_method rq) (EscapedPath path),
           rq_authorization = (case hr_authorization rq of None \<Rightarrow> [] | Some v \<Rightarrow> trim_header v),
           rq_limit = query_Get params ''limit'', rq_status = query_Get params ''status'', rq_queue = query_Get params ''queue'',
           rq_job = unmarshal_job body, rq_cron = unmarshal_cron body, rq_id = rid\<rparr>)"

text \<open>The concrete path of a route, and what is relied on of the router: it finds the route of such a path.\<close>

fun route_path :: "route \<Rightarrow> string" where
  "route_path (GetJobById i) = ''/jobs/'' @ i"
| "route_path (GetJobAttempts i) = ''/jobs/'' @ i @ ''/attempts''"
| "route_path (GetJobLogs i) = ''/jobs/'' @ i @ ''/logs''"
| "route_path (PostJobRetry i) = ''/jobs/'' @ i @ ''/retry''"
| "route_path (PostJobCancel i) = ''/jobs/'' @ i @ ''/cancel''"
| "route_path (PostCronEnable i) = ''/cron/'' @ i @ ''/enable''"
| "route_path (PostCronDisable i) = ''/cron/'' @ i @ ''/disable''"
| "route_path r = routePattern r"

definition plain_param :: "string \<Rightarrow> bool" where
  "plain_param s \<longleftrightarrow> s \<noteq> [] \<and> list_all unreserved s"

fun routable :: "route \<Rightarrow> bool" where
  "routable (GetJobById i) = plain_param i"
| "routable (GetJobAttempts i) = plain_param i"
| "routable (GetJobLogs i) = plain_param i"
| "routable (PostJobRetry i) = plain_param i"
| "routable (PostJobCancel i) = plain_param i"
| "routable (PostCronEnable i) = plain_param i"
| "routable (PostCronDisable i) = plain_param i"
| "routable (NoRoute m p) = False"
| "routable r = True"

definition router_ok :: "(string \<Rightarrow> string \<Rightarrow> route) \<Rightarrow> bool" where
  "router_ok router \<longleftrightarrow> (\<forall>r. routable r \<longrightarrow> router (route_method r) (route_path r) = r)"

text \<open>What a user means by a command.\<close>

fun intended_route :: "command \<Rightarrow> route" where
  "intended_route (JobsSubmit fl) = PostJobs"
| "intended_route (JobsList status queue limit output) = GetJobs"
| "intended_route (JobsStatus arg output) = GetJobById arg"
| "intended_route (JobsAttempts arg output) = GetJobAttempts arg"
| "intended_route (JobsLogs arg limit output) = GetJobLogs arg"
| "intended_route (JobsRetry arg output) = PostJobRetry arg"
| "intended_route (JobsCancel arg output) = PostJobCancel arg"
| "intended_route (WorkersList output) = GetWorkers"
| "intended_route (QueuesList output) = GetQueues"
| "intended_route (CronCreate fl) = PostCron"
| "intended_route (CronList output) = GetCron"
| "intended_route (CronEnable arg output) = PostCronEnable arg"
| "intended_route (CronDisable arg output) = PostCronDisable arg"
| "intended_route HealthCheck = HealthLive"

fun intended_query :: "command \<Rightarrow> string \<times> string \<times> string" where
  "intended_query (JobsList status queue limit output) = (status, queue, Itoa limit)"
| "intended_query (JobsLogs arg limit output) = ([], [], Itoa limit)"
| "intended_query cmd = ([], [], [])"

definition plain_command :: "command \<Rightarrow> bool" where
  "plain_command cmd \<longleftrightarrow> routable (intended_route cmd) \<and>
     (case intended_query cmd of (status, queue, limit) \<Rightarrow> list_all unreserved status \<and> list_all unreserved queue)"

definition query_text :: "command \<Rightarrow> string" where
  "query_text cmd = (case cmd of
       JobsList status queue limit output \<Rightarrow> ''status='' @ status @ ''&queue='' @ queue @ ''&limit='' @ Itoa limit
     | JobsLogs arg limit output \<Rightarrow> ''limit='' @ Itoa limit
     | _ \<Rightarrow> [])"

lemma unreserved_digit: "unreserved (char_of (48 + n mod 10 :: nat))"
proof -
  have "n mod 10 \<le> 9" by simp
  then have "(48 + n mod 10) mod 256 = 48 + n mod 10" by (intro mod_less) linarith
  then show ?thesis using \<open>n mod 10 \<le> 9\<close> by (simp add: unreserved_def alphanumeric_def Let_def of_char_of)
qed

lemma unreserved_pad: "list_all unreserved (pad_digits w n)"
  by (induction w n rule: pad_digits.induct) (simp_all add: unreserved_digit)

lemma unreserved_Itoa [simp]: "list_all unreserved (Itoa n)"
  by (simp add: Itoa_def unreserved_pad unreserved_def del: pad_digits.simps)

lemma plain_param_chars: "list_all unreserved s \<Longrightarrow> list_all plain_char s"
  by (erule list.pred_mono_strong) (simp add: plain_char_def)

lemma plain_route_path:
  "cmd \<noteq> HealthCheck \<Longrightarrow> plain_command cmd \<Longrightarrow> list_all plain_char (route_path (intended_route cmd))"
  by (cases cmd) (simp_all add: plain_command_def plain_param_def plain_param_chars plain_char_def unreserved_def alphanumeric_def)

lemma path_char_query: "plain_command cmd \<Longrightarrow> list_all path_char (query_text cmd)"
  by (cases cmd) (simp_all add: plain_command_def query_text_def path_char_unreserved path_char_def control_char_def)

lemma command_target_plain:
  assumes "cmd \<noteq> HealthCheck" and "plain_command cmd"
  shows "fst (command_target cmd) = route_method (intended_route cmd)"
    "snd (command_target cmd) = route_path (intended_route cmd) @
       (if query_text cmd = [] then [] else CHR ''?'' # query_text cmd)"
  using assms
  by (cases cmd; simp add: plain_command_def plain_param_def unreserved_segment jobs_list_path_def query_text_def)+

lemma query_words: "list_all unreserved ''status''" "list_all unreserved ''queue''" "list_all unreserved ''limit''"
  by code_simp+

lemma ParseQuery_list:
  assumes "list_all unreserved status" and "list_all unreserved queue"
  shows "ParseQuery (''status='' @ status @ ''&queue='' @ queue @ ''&limit='' @ Itoa limit) =
    [(''status'', status), (''queue'', queue), (''limit'', Itoa limit)]"
  using ParseQuery_more [OF query_words(1) assms(1), of "''queue='' @ queue @ ''&limit='' @ Itoa limit"]
    ParseQuery_more [OF query_words(2) assms(2), of "''limit='' @ Itoa limit"]
    ParseQuery_one [OF query_words(3) unreserved_Itoa [of limit]]
  by simp

lemma ParseQuery_Nil: "ParseQuery [] = []"
  by code_simp

lemma query_text_Get:
  assumes "plain_command cmd"
  shows "(query_Get (query_text cmd) ''status'', query_Get (query_text cmd) ''queue'', query_Get (query_text cmd) ''limit'') =
    intended_query cmd"
proof (cases cmd)
  case (JobsList status queue limit out)
  then have s: "list_all unreserved status" "list_all unreserved queue"
    using assms by (simp_all add: plain_command_def)
  have "query_text cmd = ''status='' @ status @ ''&queue='' @ queue @ ''&limit='' @ Itoa limit"
    by (simp add: JobsList query_text_def)
  then show ?thesis by (simp only: query_Get_def ParseQuery_list [OF s]) (simp add: JobsList)
next
  case (JobsLogs arg limit out)
  then have "query_text cmd = ''limit'' @ CHR ''='' # Itoa limit" by (simp add: query_text_def)
  then show ?thesis
    by (simp only: query_Get_def ParseQuery_one [OF query_words(3) unreserved_Itoa]) (simp add: JobsLogs)
qed (simp_all add: query_text_def query_Get_def ParseQuery_Nil)

section \<open>Examples\<close>

definition sample_router :: "string \<Rightarrow> string \<Rightarrow> route" where
  "sample_router meth path =
     (let es = tl (split_on (CHR ''/'') path)
      in case es of
        [a] \<Rightarrow>
          if a = ''jobs'' then (if meth = ''POST'' then PostJobs else GetJobs)
          else if a = ''cron'' then (if meth = ''POST'' then PostCron else GetCron)
          else if a = ''workers'' then GetWorkers else if a = ''queues'' then GetQueues
          else if a = ''metrics'' then GetMetrics else NoRoute meth path
      | [a, b] \<Rightarrow>
          if a = ''jobs'' then GetJobById b
          else if b = ''live'' then HealthLive else if b = ''ready'' then HealthReady else NoRoute meth path
      | [a, b, d] \<Rightarrow>
          if a = ''jobs'' then (if d = ''attempts'' then GetJobAttempts b else if d = ''logs'' then GetJobLogs b
            else if d = ''retry'' then PostJobRetry b else PostJobCancel b)
          else (if d = ''enable'' then PostCronEnable b else PostCronDisable b)
      | _ \<Rightarrow> NoRoute meth path)"

lemma slash_reserved: "\<not> unreserved (CHR ''/'')"
  by code_simp

lemma split_param:
  assumes "plain_param i"
  shows "split_on (CHR ''/'') (i @ CHR ''/'' # rest) = i # split_on (CHR ''/'') rest" "split_on (CHR ''/'') i = [i]"
proof -
  have "CHR ''/'' \<notin> set i" using assms slash_reserved by (auto simp: plain_param_def list_all_iff)
  then show "split_on (CHR ''/'') (i @ CHR ''/'' # rest) = i # split_on (CHR ''/'') rest" "split_on (CHR ''/'') i = [i]"
    by (simp_all add: split_on_append split_on_none)
qed

lemma sample_router_ok: "router_ok sample_router"
proof -
  have "sample_router (route_method r) (route_path r) = r" if "routable r" for r
    using that by (cases r) (simp_all add: sample_router_def split_param)
  then show ?thesis by (simp add: router_ok_def)
qed

definition sample_host :: host where
  "sample_host = \<lparr>h_is_dir = (\<lambda>p. None), h_read_file = (\<lambda>p. Inl ''no such file''), h_url_error = (\<lambda>u. None),
     h_do = (\<lambda>k rq. Inr \<lparr>hp_status = 404, hp_body = '' job not found '', hp_error = None\<rparr>),
     h_marshal_job = (\<lambda>r. Inr (cjr_payload r)), h_marshal_cron = (\<lambda>r. Inr (ccr_payload r)),
     h_created = (\<lambda>s. Inl s), h_job = (\<lambda>s. Inl s), h_jobs = (\<lambda>s. Inl s), h_attempts = (\<lambda>s. Inl s), h_logs = (\<lambda>s. Inl s),
     h_workers = (\<lambda>s. Inl s), h_queues = (\<lambda>s. Inl s), h_cron_job = (\<lambda>s. Inl s), h_cron_jobs = (\<lambda>s. Inl s),
     h_indent = (\<lambda>b. []), h_quote = id, h_uuid_str = (\<lambda>u. ''u'')\<rparr>"

definition sample_config :: config where
  "sample_config = Load sample_durations sample_env None"

abbreviation (input) idle :: terminal where "idle \<equiv> \<lparr>t_sent = [], t_out = []\<rparr>"

definition sample_sent :: "command \<Rightarrow> http_request list" where
  "sample_sent cmd = t_sent (snd (run_state (run_command sample_host sample_config cmd) idle))"

definition sample_received :: "command \<Rightarrow> request option" where
  "sample_received cmd = receive sample_router (APIURL sample_config) (\<lambda>s. None) (\<lambda>s. None) ''r1'' (hd (sample_sent cmd))"

text \<open>
  Flags and arguments that are not escaped: a status with an ampersand sets the queue, a job id with a
  slash asks for another route.
\<close>

lemma list_flags_unescaped:
  "map_option rq_queue (sample_received (JobsList ''queued&queue=other'' [] 50 ''text'')) = Some ''other''"
  by code_simp

lemma status_argument_unescaped:
  "map_option rq_route (sample_received (JobsStatus ''42/attempts'' ''text'')) = Some (GetJobAttempts ''42'')"
  by code_simp

lemma sample_sent_one:
  "sample_sent (JobsRetry ''42'' ''text'') = [hd (sample_sent (JobsRetry ''42'' ''text''))]"
  "sample_sent (JobsCancel ''a/b?c'' ''text'') = [hd (sample_sent (JobsCancel ''a/b?c'' ''text''))]"
  by code_simp+

lemma sample_command_run: "\<exists>res t'. run_state (run_command sample_host sample_config cmd) idle = (res, t') \<and> t_sent t' = sample_sent cmd"
  unfolding sample_sent_def by (cases "run_state (run_command sample_host sample_config cmd) idle") simp

section \<open>Properties\<close>

lemma sent_request:
  assumes "cmd \<noteq> HealthCheck" and "run_state (run_command h c cmd) t = (res, t')" and "t_sent t' = t_sent t @ [rq]"
  shows "ValidateClient c = None \<and> hr_method rq = fst (command_target cmd) \<and> hr_url rq = APIURL c @ snd (command_target cmd) \<and>
    hr_authorization rq = Some (''Bearer '' @ OperatorToken c)"
  using run_command_sends [OF assms(1), of h c, unfolded sends_def, rule_format, OF assms(2)] assms(3) by auto

text \<open>The two requests of \<open>health\<close>, the lines that it prints for their answers, and when it succeeds.\<close>

abbreviation (input) health_path :: "nat \<Rightarrow> string" where
  "health_path i \<equiv> [''/health/live'', ''/health/ready''] ! i"

abbreviation (input) health_request :: "config \<Rightarrow> nat \<Rightarrow> http_request" where
  "health_request c i \<equiv> \<lparr>hr_method = ''GET'', hr_url = APIURL c @ health_path i, hr_authorization = None,
     hr_content_type = None, hr_body = None\<rparr>"

lemma health_outcome:
  assumes "run_state (health h c) t = (res, t')"
  shows "\<exists>m \<le> 2. t_sent t' = t_sent t @ map (health_request c) [0..<m] \<and>
    t_out t' = t_out t @ concat (map (\<lambda>i. case h_do h (length (t_sent t) + i) (health_request c i) of
        Inl e \<Rightarrow> []
      | Inr resp \<Rightarrow> health_path i @ '' '' @ Itoa (hp_status resp) @ '' '' @ TrimSpace (hp_body resp) @ newline) [0..<m]) \<and>
    (res = Inr () \<longleftrightarrow> m = 2 \<and>
      (\<forall>i < m. \<exists>resp. h_do h (length (t_sent t) + i) (health_request c i) = Inr resp \<and> hp_status resp < 300))"
proof (cases "h_url_error h (APIURL c @ ''/health/live'') \<noteq> None")
  case True
  then show ?thesis using assms
    by (intro exI [of _ 0]) (auto simp: health_def probe_def attempt_then_def fail_with_def)
next
  case live: False
  show ?thesis
  proof (cases "(\<exists>resp. h_do h (length (t_sent t)) (health_request c 0) = Inr resp \<and> hp_status resp < 300) \<and>
      h_url_error h (APIURL c @ ''/health/ready'') = None")
    case True
    then show ?thesis using assms live
      by (intro exI [of _ 2]) (auto simp: health_def probe_def attempt_then_def send_def print_def fail_with_def
          numeral_2_eq_2 less_Suc_eq split: sum.splits if_splits)
  next
    case False
    then show ?thesis using assms live
      by (intro exI [of _ 1]) (auto simp: health_def probe_def attempt_then_def send_def print_def fail_with_def
          split: sum.splits if_splits)
  qed
qed

text \<open>
  C37. A command reports what happened. Every command but \<open>health\<close> either sends and prints nothing and
  fails, or sends one request, with the operator's token, to the configured server. It succeeds only
  when the server answered it with a status below 300; a refusal becomes an error that names the request,
  the status and the server's text, and whenever such a command fails it has printed nothing. \<open>health\<close> asks the
  live and then the ready endpoint, without the token, and prints a line for every answer; it succeeds exactly when both
  requests were sent and answered with a status below 300.
\<close>

theorem command_reports_outcome:
  assumes "run_state (run_command h c cmd) t = (res, t')"
  shows "if cmd = HealthCheck
    then \<exists>m \<le> 2. t_sent t' = t_sent t @ map (health_request c) [0..<m] \<and>
      t_out t' = t_out t @ concat (map (\<lambda>i. case h_do h (length (t_sent t) + i) (health_request c i) of
          Inl e \<Rightarrow> []
        | Inr resp \<Rightarrow> health_path i @ '' '' @ Itoa (hp_status resp) @ '' '' @ TrimSpace (hp_body resp) @ newline) [0..<m]) \<and>
      (res = Inr () \<longleftrightarrow> m = 2 \<and>
        (\<forall>i < m. \<exists>resp. h_do h (length (t_sent t) + i) (health_request c i) = Inr resp \<and> hp_status resp < 300))
    else (isl res \<and> t' = t) \<or>
    (ValidateClient c = None \<and>
     (\<exists>rq out path. hr_url rq = APIURL c @ path \<and> hr_authorization rq = Some (''Bearer '' @ OperatorToken c) \<and>
        t_sent t' = t_sent t @ [rq] \<and> t_out t' = t_out t @ out \<and>
        (case h_do h (length (t_sent t)) rq of
           Inl e \<Rightarrow> res = Inl e \<and> out = []
         | Inr resp \<Rightarrow>
             if hp_error resp \<noteq> None then res = Inl (the (hp_error resp)) \<and> out = []
             else if hp_status resp \<ge> 300
             then res = Inl (hr_method rq @ '' '' @ path @ '' returned '' @ Itoa (hp_status resp) @ '': '' @ TrimSpace (hp_body resp)) \<and>
               out = []
             else res = Inr () \<or> isl res \<and> out = [])))"
proof (cases "cmd = HealthCheck")
  case True
  then have "run_state (health h c) t = (res, t')" using assms by simp
  then show ?thesis unfolding if_P [OF True] by (rule health_outcome)
next
  case False
  let ?m = "fst (command_target cmd)" and ?p = "snd (command_target cmd)"
  consider (none) "isl res \<and> t' = t"
    | (one) rq out where "ValidateClient c = None" "hr_method rq = ?m" "hr_url rq = APIURL c @ ?p"
        "hr_authorization rq = Some (''Bearer '' @ OperatorToken c)" "t_sent t' = t_sent t @ [rq]" "t_out t' = t_out t @ out"
        "answered h t ?m ?p rq res out"
    using run_command_sends [OF False, of h c, unfolded sends_def, rule_format, OF assms] by blast
  then show ?thesis
  proof cases
    case none
    then show ?thesis unfolding if_not_P [OF False] by (rule disjI1)
  next
    case one
    show ?thesis
      unfolding if_not_P [OF False]
      by (intro disjI2 conjI exI [of _ rq] exI [of _ out] exI [of _ ?p])
        (use one(7) in \<open>simp_all only: one(1-6) answered_def\<close>)
  qed
qed

theorem command_reports_outcome_witness:
  "isl (fst (run_state (run_command sample_host sample_config (JobsRetry ''42'' ''text'')) idle)) \<and>
   t_out (snd (run_state (run_command sample_host sample_config (JobsRetry ''42'' ''text'')) idle)) = []"
proof -
  obtain res t' where run: "run_state (run_command sample_host sample_config (JobsRetry ''42'' ''text'')) idle = (res, t')"
    by (rule prod.exhaust)
  have "h_do sample_host 0 rq = Inr \<lparr>hp_status = 404, hp_body = '' job not found '', hp_error = None\<rparr>" for rq
    by (simp add: sample_host_def)
  then show ?thesis using command_reports_outcome [OF run] run by auto
qed

lemma command_received:
  assumes "router_ok router" and "cmd \<noteq> HealthCheck" and "plain_command cmd"
    and "trim_header (''Bearer '' @ OperatorToken c) = ''Bearer '' @ OperatorToken c"
    and "run_state (run_command h c cmd) t = (res, t')" and "t_sent t' = t_sent t @ [rq]"
  shows "OperatorToken c \<noteq> [] \<and> receive router (APIURL c) dj dc rid rq = Some
    \<lparr>rq_route = intended_route cmd, rq_authorization = ''Bearer '' @ OperatorToken c,
     rq_limit = snd (snd (intended_query cmd)), rq_status = fst (intended_query cmd), rq_queue = fst (snd (intended_query cmd)),
     rq_job = dj (case hr_body rq of None \<Rightarrow> [] | Some b \<Rightarrow> b), rq_cron = dc (case hr_body rq of None \<Rightarrow> [] | Some b \<Rightarrow> b),
     rq_id = rid\<rparr>"
proof -
  let ?p = "route_path (intended_route cmd)" and ?q = "query_text cmd"
  note rq = sent_request [OF assms(2,5,6)]
  note target = command_target_plain [OF assms(2,3)]
  have p: "list_all plain_char ?p" by (rule plain_route_path [OF assms(2,3)])
  have "Parse_target (snd (command_target cmd)) = Some (?p, ?q)"
    using plain_target [OF p] path_char_query [OF assms(3)] target(2) by simp
  moreover have "router (route_method (intended_route cmd)) ?p = intended_route cmd"
    using assms(1,3) by (simp add: router_ok_def plain_command_def)
  moreover have "OperatorToken c \<noteq> []" using rq by (auto simp: ValidateClient_def split: if_splits)
  moreover have "intended_query cmd = (query_Get ?q ''status'', query_Get ?q ''queue'', query_Get ?q ''limit'')"
    by (rule query_text_Get [OF assms(3), symmetric])
  ultimately show ?thesis
    using rq target(1) assms(4) plain_target(2) [OF p] by (simp add: receive_def Let_def)
qed



text \<open>The path segments of the commands that escape their argument.\<close>

fun command_segments :: "command \<Rightarrow> string list" where
  "command_segments (JobsLogs arg limit output) = [''jobs'', arg, ''logs'']"
| "command_segments (JobsRetry arg output) = [''jobs'', arg, ''retry'']"
| "command_segments (JobsCancel arg output) = [''jobs'', arg, ''cancel'']"
| "command_segments (CronEnable arg output) = [''cron'', arg, ''enable'']"
| "command_segments (CronDisable arg output) = [''cron'', arg, ''disable'']"
| "command_segments cmd = []"

lemma slash_not_escaped: "CHR ''/'' \<notin> set (PathEscape s)"
  using segment_chars [of s] segment_graphic [of "CHR ''/''"] by (auto simp: list_all_iff)

lemma escaped_segments:
  assumes "list_all unreserved a" and "list_all unreserved b"
  shows "map PathUnescape (split_on (CHR ''/'') (CHR ''/'' # a @ CHR ''/'' # PathEscape s @ CHR ''/'' # b)) =
    [Some [], Some a, Some s, Some b]"
proof -
  have "CHR ''/'' \<notin> set a" "CHR ''/'' \<notin> set b" using assms slash_reserved by (auto simp: list_all_iff)
  moreover have "PathUnescape a = Some a" "PathUnescape b = Some b" "PathUnescape [] = Some []"
    using assms by (simp_all add: plain_unescape plain_param_chars)
  moreover have "PathUnescape (PathEscape s) = Some s" by (simp add: PathEscape_def)
  ultimately show ?thesis
    by (simp add: split_on_append slash_not_escaped split_on_none)
qed

lemma escaped_path:
  assumes "list_all unreserved a" and "list_all unreserved b"
  shows "list_all path_char (CHR ''/'' # a @ CHR ''/'' # PathEscape s @ CHR ''/'' # b)"
    "PathUnescape (CHR ''/'' # a @ CHR ''/'' # PathEscape s @ CHR ''/'' # b) = Some (CHR ''/'' # a @ CHR ''/'' # s @ CHR ''/'' # b)"
    "EscapedPath (CHR ''/'' # a @ CHR ''/'' # PathEscape s @ CHR ''/'' # b) = CHR ''/'' # a @ CHR ''/'' # PathEscape s @ CHR ''/'' # b"
proof -
  let ?P = "\<lambda>c. segment_char c \<or> c = CHR ''/''"
  have seg: "list_all ?P w" if "list_all unreserved w" for w
    by (rule list.pred_mono_strong [OF that]) (simp add: segment_char_def)
  have "list_all ?P (PathEscape s)" by (rule list.pred_mono_strong [OF segment_chars]) simp
  then have all: "list_all ?P (CHR ''/'' # a @ CHR ''/'' # PathEscape s @ CHR ''/'' # b)"
    using assms by (simp add: seg)
  show "list_all path_char (CHR ''/'' # a @ CHR ''/'' # PathEscape s @ CHR ''/'' # b)"
    by (rule list.pred_mono_strong [OF all]) (auto simp: segment_path intro: plain_path_char simp: plain_char_def)
  show "EscapedPath (CHR ''/'' # a @ CHR ''/'' # PathEscape s @ CHR ''/'' # b) = CHR ''/'' # a @ CHR ''/'' # PathEscape s @ CHR ''/'' # b"
    by (rule EscapedPath_segments [OF all])
  have pre: "PathUnescape (''/'' @ a @ ''/'') = Some (''/'' @ a @ ''/'')" and post: "PathUnescape (''/'' @ b) = Some (''/'' @ b)"
    using assms by (intro plain_unescape; simp add: plain_param_chars plain_char_def)+
  have mid: "PathUnescape (PathEscape s) = Some s" by (simp add: PathEscape_def)
  have "PathUnescape ((''/'' @ a @ ''/'') @ PathEscape s @ ''/'' @ b) = Some ((''/'' @ a @ ''/'') @ s @ ''/'' @ b)"
    by (simp only: PathUnescape_append [OF pre] PathUnescape_append [OF mid] post option.map)
  then show "PathUnescape (CHR ''/'' # a @ CHR ''/'' # PathEscape s @ CHR ''/'' # b) = Some (CHR ''/'' # a @ CHR ''/'' # s @ CHR ''/'' # b)"
    by simp
qed

text \<open>
  C38. An escaped argument stays one path segment. Whatever bytes the argument of \<open>jobs logs\<close>, \<open>retry\<close>,
  \<open>cancel\<close> and \<open>cron enable\<close>, \<open>disable\<close> has, slashes, question marks and control characters among them, the
  request's target parses, goes over the wire as it was written, and splits at its slashes into the segments
  of the intended path, the middle one of which decodes to the argument.
\<close>

theorem argument_is_one_segment:
  assumes "command_segments cmd = [a, arg, b]"
    and "run_state (run_command h c cmd) t = (res, t')" and "t_sent t' = t_sent t @ [rq]"
  shows "\<exists>path query. Parse_target (drop (length (APIURL c)) (hr_url rq)) = Some (path, query) \<and> EscapedPath path = path \<and>
    map PathUnescape (split_on (CHR ''/'') path) = [Some [], Some a, Some arg, Some b]"
proof -
  define path where "path = CHR ''/'' # a @ CHR ''/'' # PathEscape arg @ CHR ''/'' # b"
  have words: "list_all unreserved w" if "w \<in> {''jobs'', ''cron'', ''logs'', ''retry'', ''cancel'', ''enable'', ''disable''}" for w
    using that by (auto simp: unreserved_def alphanumeric_def)
  have ab: "list_all unreserved a" "list_all unreserved b"
    using assms(1) by (cases cmd; force intro: words)+
  obtain query where target: "snd (command_target cmd) = path @ (if query = [] then [] else CHR ''?'' # query)"
    and query: "list_all path_char query"
  proof (cases "\<exists>arg limit out. cmd = JobsLogs arg limit out")
    case True
    then obtain limit out where "cmd = JobsLogs arg limit out" using assms(1) by auto
    then show ?thesis
      using assms(1) by (intro that [of "''limit='' @ Itoa limit"])
        (simp_all add: path_def path_char_unreserved path_char_def control_char_def)
  next
    case False
    then show ?thesis using assms(1) by (intro that [of "[]"]) (cases cmd; simp add: path_def)+
  qed
  note path = escaped_path [OF ab, of arg, folded path_def]
  have "Parse_target (snd (command_target cmd)) = Some (path, query)"
    using target query Parse_target_path [OF path(1,2)] Parse_target_query [OF path(1,2)] by (cases query) simp_all
  moreover have "cmd \<noteq> HealthCheck" using assms(1) by auto
  ultimately show ?thesis
    using sent_request [OF _ assms(2,3)] path(3) escaped_segments [OF ab, of arg, folded path_def] by auto
qed

theorem argument_is_one_segment_witness:
  "\<exists>path query. Parse_target (drop (length (APIURL sample_config)) (hr_url (hd (sample_sent (JobsCancel ''a/b?c'' ''text''))))) =
     Some (path, query) \<and>
   map PathUnescape (split_on (CHR ''/'') path) = [Some [], Some ''jobs'', Some ''a/b?c'', Some ''cancel'']"
proof -
  let ?cmd = "JobsCancel ''a/b?c'' ''text''"
  obtain res t' where run: "run_state (run_command sample_host sample_config ?cmd) idle = (res, t')" "t_sent t' = sample_sent ?cmd"
    using sample_command_run by blast
  have sent: "t_sent t' = t_sent idle @ [hd (sample_sent ?cmd)]" using run(2) sample_sent_one(2) by simp
  have "command_segments ?cmd = [''jobs'', ''a/b?c'', ''cancel'']" by simp
  from argument_is_one_segment [OF this run(1) sent] show ?thesis by (elim exE conjE) (intro exI conjI; assumption)
qed

text \<open>A payload that is sent is valid JSON, whether it comes from the flag or from a file.\<close>

lemma readPayload_valid: "readPayload h v = Inr raw \<Longrightarrow> json_Valid raw"
  by (auto simp: readPayload_def Let_def split: if_splits sum.splits)

text \<open>\<open>health\<close> succeeds exactly when both endpoints answered below 300.\<close>

lemma health_success:
  assumes "run_state (health h c) t = (res, t')" and "h_url_error h (APIURL c @ ''/health/live'') = None"
    and "h_url_error h (APIURL c @ ''/health/ready'') = None"
  shows "res = Inr () \<longleftrightarrow>
    (\<exists>a b live ready. t_sent t' = t_sent t @ [a, b] \<and> h_do h (length (t_sent t)) a = Inr live \<and>
       h_do h (Suc (length (t_sent t))) b = Inr ready \<and> hp_status live < 300 \<and> hp_status ready < 300)"
  using assms
  by (auto simp: health_def probe_def attempt_then_def send_def print_def fail_with_def split: sum.splits if_splits)

end
