(* ===== verification/EndToEnd.thy ===== *)
theory EndToEnd
  imports Completion Cli
begin

text \<open>
  The command line, the API and a worker together: an HTTP exchange is the server reading the request
  (\<open>receive\<close>), serving it, and writing status and body; \<open>render\<close> prints a body as JSON.
\<close>

section \<open>Exchanges\<close>

definition writeJSON :: "(reply_body \<Rightarrow> string) \<Rightarrow> int \<Rightarrow> reply_body \<Rightarrow> http_reply" where
  "writeJSON render status payload = \<lparr>hp_status = status, hp_body = render payload, hp_error = None\<rparr>"

text \<open>A request line that does not parse is answered by \<open>net/http\<close> itself.\<close>

definition http_exchange ::
    "(http_request \<Rightarrow> request option) \<Rightarrow> (reply_body \<Rightarrow> string) \<Rightarrow> (request \<Rightarrow> response cmd) \<Rightarrow> http_request \<Rightarrow> http_reply cmd" where
  "http_exchange read_request render respond rq =
     (case read_request rq of
        None \<Rightarrow> ret \<lparr>hp_status = 400, hp_body = ''400 Bad Request'', hp_error = None\<rparr>
      | Some rq' \<Rightarrow> do {
          r \<leftarrow> respond rq';
          ret (writeJSON render (rs_status r) (rs_body r))
        })"

section \<open>Facts\<close>

lemma triple_after: "(\<And>a. triple (\<lambda>_. True) (f a) Q) \<Longrightarrow> triple (\<lambda>_. True) (m \<bind> f) Q"
  by (rule triple_bind [where R = "\<lambda>_ _. True"]) (simp_all add: triple_def)

lemma create_answers:
  "triple (\<lambda>_. True) (handleCreateJob w tc sv rq) (\<lambda>r _. rs_status r < 300 \<longrightarrow> (\<exists>j e. r = Response 201 (JobCreated j e)))"
  unfolding handleCreateJob_def Let_def
  by (intro hoare triple_after) (simp_all add: writeError_def)

lemma create_success_status:
  "run_state (handleCreateJob w tc sv rq) s = (r, s') \<Longrightarrow> rs_status r < 300 \<Longrightarrow> \<exists>j e. r = Response 201 (JobCreated j e)"
  using tripleD [OF create_answers] by blast

definition submit_body :: "submit_flags \<Rightarrow> string \<Rightarrow> create_job_request" where
  "submit_body fl raw = \<lparr>cjr_queue = sf_queue fl, cjr_type = sf_type fl, cjr_payload = raw, cjr_priority = sf_priority fl,
     cjr_max_attempts = sf_max_attempts fl, cjr_timeout_seconds = sf_timeout_seconds fl,
     cjr_delay_seconds = sf_delay_seconds fl, cjr_idempotency_key = sf_idempotency_key fl\<rparr>"

definition submit_text :: "host \<Rightarrow> submit_flags \<Rightarrow> job \<Rightarrow> bool \<Rightarrow> string" where
  "submit_text h fl j existing = (if sf_output fl = ''json'' then h_indent h (JobCreated j existing)
     else ''submitted job '' @ h_uuid_str h (job_id j) @ '' status='' @ job_status_text (job_status j) @
       '' existing='' @ FormatBool existing @ [CHR 0x0A])"

lemma submit_success:
  assumes "run_state (jobs_submit h c fl) t = (Inr (), t')"
  obtains raw sent rq resp j existing where "readPayload h (sf_payload fl) = Inr raw"
    "h_marshal_job h (submit_body fl raw) = Inr sent" "hr_body rq = Some sent" "t_sent t' = t_sent t @ [rq]"
    "h_do h (length (t_sent t)) rq = Inr resp" "hp_error resp = None" "hp_status resp < 300"
    "h_created h (hp_body resp) = Inr (j, existing)" "t_out t' = t_out t @ submit_text h fl j existing"
proof -
  obtain raw where c: "ValidateClient c = None" and raw: "readPayload h (sf_payload fl) = Inr raw"
    using assms by (auto simp: jobs_submit_def with_client_def fail_with_def split: option.splits sum.splits)
  obtain sent where sent: "h_marshal_job h (submit_body fl raw) = Inr sent" and url: "h_url_error h (APIURL c @ ''/jobs'') = None"
    using assms by (auto simp: jobs_submit_def with_client_def fail_with_def c raw doJSON_def attempt_then_def submit_body_def Let_def
        split: option.splits sum.splits)
  let ?rq = "\<lparr>hr_method = ''POST'', hr_url = APIURL c @ ''/jobs'', hr_authorization = Some (''Bearer '' @ OperatorToken c),
    hr_content_type = Some ''application/json'', hr_body = Some sent\<rparr>"
  have run: "run_state (jobs_submit h c fl) t = run_state (attempt_then (attempt_then (send h ?rq) (\<lambda>resp. case hp_error resp of
        Some e \<Rightarrow> fail_with e
      | None \<Rightarrow> if hp_status resp \<ge> 300
          then fail_with (''POST'' @ '' '' @ ''/jobs'' @ '' returned '' @ Itoa (hp_status resp) @ '': '' @ TrimSpace (hp_body resp))
          else State_Monad.return (h_created h (hp_body resp))))
      (\<lambda>result. show_result h (sf_output fl) (JobCreated (fst result) (snd result))
        (''submitted job '' @ h_uuid_str h (job_id (fst result)) @ '' status='' @ job_status_text (job_status (fst result)) @
         '' existing='' @ FormatBool (snd result) @ [CHR 0x0A]))) t"
    by (simp add: jobs_submit_def with_client_def c raw doJSON_def url sent [unfolded submit_body_def] Let_def)
  show ?thesis
    using assms unfolding run
    by (auto simp: attempt_then_def send_def fail_with_def show_result_def print_def submit_text_def
        split: option.splits sum.splits if_splits intro!: that [OF raw sent, of ?rq])
qed

text \<open>A request that the command line sent to create a job, as the API serves it.\<close>

lemma submit_served:
  assumes "router_ok router" and "trim_header (''Bearer '' @ OperatorToken c) = ''Bearer '' @ OperatorToken c"
    and "run_state (run_command h c (JobsSubmit fl)) t = (res, t')" and "t_sent t' = t_sent t @ [rq]"
    and "hr_body rq = Some body" and "dj body = Some req"
    and "run_state (http_exchange (receive router (APIURL c) dj dc rid) render (serve w tc up dur (NewServer (OperatorToken c) m)) rq) s =
      (resp, s1)"
  obtains rq' r s0 where "receive router (APIURL c) dj dc rid rq = Some rq'" "rq_job rq' = Some req"
    "run_state (serve w tc up dur (NewServer (OperatorToken c) m) rq') s = (r, s1)"
    "run_state (handleCreateJob w tc (NewServer (OperatorToken c) m) rq') s = (r, s0)"
    "p_db s1 = p_db s0" "p_calls s1 = p_calls s0"
    "resp = \<lparr>hp_status = rs_status r, hp_body = render (rs_body r), hp_error = None\<rparr>"
proof -
  let ?sv = "NewServer (OperatorToken c) m"
  have "plain_command (JobsSubmit fl)" by (simp add: plain_command_def)
  then obtain rq' where rq': "receive router (APIURL c) dj dc rid rq = Some rq'" "rq_route rq' = PostJobs"
      "rq_authorization rq' = ''Bearer '' @ OperatorToken c" "OperatorToken c \<noteq> []" "rq_job rq' = Some req"
    using command_received [OF assms(1) _ _ assms(2,3,4), of dj dc rid] assms(5,6) by auto
  obtain r s2 where serve: "run_state (serve w tc up dur ?sv rq') s = (r, s2)" by (rule prod.exhaust)
  have resp: "resp = \<lparr>hp_status = rs_status r, hp_body = render (rs_body r), hp_error = None\<rparr>" "s2 = s1"
    using assms(7) by (simp_all add: http_exchange_def writeJSON_def rq'(1) serve)
  from serve_run [OF serve] obtain s0 where s0: "run_state (handle w tc up ?sv rq' (rq_route rq')) s = (r, s0)"
      "p_db s2 = p_db s0" "p_calls s2 = p_calls s0" by blast
  have "handle w tc up ?sv rq' (rq_route rq') = handleCreateJob w tc ?sv rq'"
    using rq'(2,3,4) by (simp add: requireAuth_def NewServer_def)
  then show ?thesis using that [OF rq'(1,5), of r s0] serve s0 resp by simp
qed

section \<open>Properties\<close>

text \<open>
  C6. A job submitted on the command line is done. When \<open>pulsequeue jobs submit\<close>, talking to an API of the
  same token, exits with success, it has printed the job that the API created; and if that job is new and
  due at once, it has succeeded when the drain loop of a worker of its queue returns, provided its handler
  returns without an error, the worker is not told to stop, nobody else works on the database or locks its
  rows, calls are answered, the clock does not run backwards, identifiers are not repeated and the attempt limits leave
  room in their 32-bit column. The token is one that a header carries unchanged; the router is relied on to find the routes of
  plain paths, and the codecs to decode what the other side has printed, for this exchange only.
\<close>

theorem submitted_from_command_line:
  assumes "calm w" and "\<forall>k. \<not> cancelled k" and "db_ok (p_db s)" and "room (p_db s)"
    and "router_ok router" and "trim_header (''Bearer '' @ OperatorToken c) = ''Bearer '' @ OperatorToken c"
    and "run_state (run_command h c (JobsSubmit fl)) t = (Inr (), t')" and "t_sent t' = t_sent t @ [rq]"
    and "run_state (http_exchange (receive router (APIURL c) dj dc rid) render (serve w tc up dur (NewServer (OperatorToken c) m)) rq) s =
      (resp, s1)"
    and "h_do h (length (t_sent t)) rq = Inr resp"
    and "dj (the (hr_body rq)) = Some req" and "cjr_delay_seconds req = 0" and "cjr_max_attempts req < 2 ^ 31 - 1"
    and "\<forall>rq' j e. receive router (APIURL c) dj dc rid rq = Some rq' \<and>
      fst (run_state (serve w tc up dur (NewServer (OperatorToken c) m) rq') s) = Response 201 (JobCreated j e) \<longrightarrow>
      h_created h (render (JobCreated j e)) = Inr (j, e)"
    and "run_state (drain w pd since cancelled r sl n) s1 = (out, s2)" and "fresh_ids w (p_calls s) (p_calls s2) (p_db s)"
  shows "\<exists>j existing. h_created h (hp_body resp) = Inr (j, existing) \<and> t_out t' = t_out t @ submit_text h fl j existing \<and>
    (\<not> existing \<and> queue_of r = job_queue j \<and> runHandler pd j = None \<and> remaining (p_db s1) < n \<longrightarrow>
      status_of (p_db s2) (job_id j) = Some Succeeded)"
proof -
  have "run_state (jobs_submit h c fl) t = (Inr (), t')" using assms(7) by simp
  then obtain raw body rq0 resp0 j existing where cli: "hr_body rq0 = Some body" "t_sent t' = t_sent t @ [rq0]"
      "h_do h (length (t_sent t)) rq0 = Inr resp0" "hp_status resp0 < 300"
      "h_created h (hp_body resp0) = Inr (j, existing)" "t_out t' = t_out t @ submit_text h fl j existing"
    by (rule submit_success)
  have same: "rq0 = rq" "resp0 = resp" using cli(2,3) assms(8,10) by auto
  have body: "hr_body rq = Some body" "dj body = Some req" using cli(1) assms(11) by (simp_all add: same)
  obtain rq' r0 s0 where api: "receive router (APIURL c) dj dc rid rq = Some rq'" "rq_job rq' = Some req"
      "run_state (serve w tc up dur (NewServer (OperatorToken c) m) rq') s = (r0, s1)"
      "run_state (handleCreateJob w tc (NewServer (OperatorToken c) m) rq') s = (r0, s0)"
      "p_db s1 = p_db s0" "p_calls s1 = p_calls s0"
      "resp = \<lparr>hp_status = rs_status r0, hp_body = render (rs_body r0), hp_error = None\<rparr>"
    by (rule submit_served [OF assms(5,6,7,8) body assms(9)])
  have "rs_status r0 < 300" using cli(4) api(7) same by simp
  then obtain j0 e0 where r0: "r0 = Response 201 (JobCreated j0 e0)" using create_success_status [OF api(4)] by blast
  have "h_created h (hp_body resp) = Inr (j0, e0)" using assms(14) api(1,3,7) r0 by simp
  then have j: "j = j0" "existing = e0" using cli(5) same by simp_all
  have "status_of (p_db s2) (job_id j) = Some Succeeded"
    if "\<not> existing" "queue_of r = job_queue j" "runHandler pd j = None" "remaining (p_db s1) < n"
  proof -
    have "run_state (handleCreateJob w tc (NewServer (OperatorToken c) m) rq') s = (Response 201 (JobCreated j False), s0)"
      using api(4) r0 j that(1) by simp
    from submission_completes [OF assms(1-4) api(2) assms(12,13) this api(5,6) that(2-4) assms(15,16)] show ?thesis by simp
  qed
  then show ?thesis using cli(5,6) same by (intro exI [of _ j] exI [of _ existing]) simp
qed

section \<open>Example\<close>

abbreviation (input) blank_trace :: trace_context where "blank_trace \<equiv> \<lparr>tc_parent = [], tc_state = []\<rparr>"
abbreviation (input) start :: proc where "start \<equiv> \<lparr>p_db = empty_db, p_calls = 0, p_events = []\<rparr>"

definition sample_read :: "http_request \<Rightarrow> request option" where
  "sample_read = receive sample_router (APIURL sample_config) (\<lambda>b. rq_job (sample_request PostJobs)) (\<lambda>b. None) ''r1''"

definition sample_exchange :: "http_request \<Rightarrow> http_reply cmd" where
  "sample_exchange rq = http_exchange sample_read (\<lambda>b. [CHR 0x7B, CHR 0x7D])
     (serve sample_world blank_trace (True, True) 5 (NewServer (OperatorToken sample_config) None)) rq"

definition created_of :: "reply_body \<Rightarrow> string + job \<times> bool" where
  "created_of b = (case b of JobCreated j e \<Rightarrow> Inr (j, e) | _ \<Rightarrow> Inl ''unexpected'')"

definition connected_host :: host where
  "connected_host = sample_host\<lparr>h_do := (\<lambda>k rq. Inr (fst (run_state (sample_exchange rq) start))),
     h_created := (\<lambda>b. created_of (rs_body (fst (run_state sample_create start))))\<rparr>"

definition sample_submit :: "(string + unit) \<times> terminal" where
  "sample_submit = run_state (run_command connected_host sample_config (JobsSubmit submit_defaults)) idle"

lemma sample_submit_runs:
  "case sample_submit of (res, t') \<Rightarrow> \<not> isl res \<and> t_out t' = ''submitted job u status=queued existing=false'' @ [CHR 0x0A] \<and>
     (case t_sent t' of [rq] \<Rightarrow> hr_body rq = Some [CHR 0x7B, CHR 0x7D] | _ \<Rightarrow> False)"
  by code_simp

definition sample_serve :: "request \<Rightarrow> response cmd" where
  "sample_serve = serve sample_world blank_trace (True, True) 5 (NewServer ''secret'' None)"

lemma sample_token: "OperatorToken sample_config = ''secret''"
  by code_simp

lemma sample_serve_runs:
  "case run_state (sample_serve (sample_request PostJobs) \<bind> (\<lambda>r. sample_drain \<bind> (\<lambda>u. ret r))) start of (r, s2) \<Rightarrow>
     p_calls s2 = 8 \<and> (case rs_body r of JobCreated j existing \<Rightarrow> job_id j = 100 \<and> \<not> existing \<and> job_queue j = ''default'' \<and>
       runHandler sample_payloads j = None | _ \<Rightarrow> False)"
  "remaining (p_db (snd (run_state (sample_serve (sample_request PostJobs)) start))) < 4"
  by code_simp+

lemma sample_fresh: "fresh_ids sample_world 0 8 empty_db"
proof -
  have "distinct (map (\<lambda>n. w_ids sample_world n 0) [0..<8]) \<and> distinct (map (\<lambda>n. w_ids sample_world n 1) [0..<8])"
    by code_simp
  then show ?thesis by (simp only: distinct_map set_upt) (simp add: fresh_ids_def empty_db_def)
qed

lemma sample_serve_creates:
  "fst (run_state (sample_serve (sample_request PostJobs)) start) = fst (run_state sample_create start)"
proof -
  let ?sv = "NewServer ''secret'' None" and ?rq = "sample_request PostJobs"
  obtain r s1 where 1: "run_state (sample_serve ?rq) start = (r, s1)" by (rule prod.exhaust)
  have "handle sample_world blank_trace (True, True) ?sv ?rq PostJobs = sample_create"
    by (simp add: sample_create_def requireAuth_def NewServer_def sample_request_def)
  moreover have "rq_route ?rq = PostJobs" by (simp add: sample_request_def)
  ultimately show ?thesis using serve_run [OF 1 [unfolded sample_serve_def]] 1 by auto
qed

theorem submitted_from_command_line_witness:
  "t_out (snd sample_submit) = ''submitted job u status=queued existing=false'' @ [CHR 0x0A] \<and>
   status_of (p_db (snd (run_state sample_drain (snd (run_state (sample_serve (sample_request PostJobs)) start))))) 100 = Some Succeeded"
proof -
  let ?body = "[CHR 0x7B, CHR 0x7D]" and ?sv = "NewServer (OperatorToken sample_config) None"
  obtain res t' where submit: "sample_submit = (res, t')" by (rule prod.exhaust)
  note runs = sample_submit_runs [unfolded submit prod.case]
  then have printed: "t_out t' = ''submitted job u status=queued existing=false'' @ [CHR 0x0A]" by blast
  have "res = Inr ()" using runs by (cases res) simp_all
  moreover obtain rq where "t_sent t' = [rq]" "hr_body rq = Some ?body"
  proof (cases "t_sent t'")
    case (Cons rq rest)
    then show ?thesis using runs that by (cases rest) simp_all
  qed (use runs in simp)
  ultimately have cli: "sample_submit = (Inr (), t')" "t_sent t' = [rq]" "hr_body rq = Some ?body" using submit by simp_all
  have run: "run_state (run_command connected_host sample_config (JobsSubmit submit_defaults)) idle = (Inr (), t')"
    using cli(1) by (simp add: sample_submit_def)
  have sent: "t_sent t' = t_sent idle @ [rq]" using cli(2) by simp
  have trim: "trim_header (''Bearer '' @ OperatorToken sample_config) = ''Bearer '' @ OperatorToken sample_config" by code_simp
  have read: "sample_read rq = Some (sample_request PostJobs)"
    using command_received [OF sample_router_ok _ _ trim run sent, of "\<lambda>b. rq_job (sample_request PostJobs)" "\<lambda>b. None" "''r1''"]
    by (simp add: sample_read_def plain_command_def sample_token) (simp add: sample_request_def)
  obtain r s1 where serve: "run_state (sample_serve (sample_request PostJobs)) start = (r, s1)" by (rule prod.exhaust)
  let ?resp = "\<lparr>hp_status = rs_status r, hp_body = ?body, hp_error = None\<rparr>"
  have exchange: "run_state (sample_exchange rq) start = (?resp, s1)"
    using serve by (simp add: sample_exchange_def http_exchange_def writeJSON_def read sample_serve_def sample_token)
  obtain out s2 where drain: "run_state sample_drain s1 = (out, s2)" by (rule prod.exhaust)
  obtain j where j: "rs_body r = JobCreated j False" "job_id j = 100" "job_queue j = ''default''" "runHandler sample_payloads j = None"
      and calls: "p_calls s2 = 8"
    using sample_serve_runs(1) by (auto simp: serve drain split: reply_body.splits)
  have few: "remaining (p_db s1) < 4" using sample_serve_runs(2) by (simp add: serve)
  have created: "h_created connected_host b = Inr (j, False)" for b
    using sample_serve_creates j(1) by (simp add: connected_host_def created_of_def serve)
  let ?req = "the (rq_job (sample_request PostJobs))"
  have req: "rq_job (sample_request PostJobs) = Some ?req" "cjr_delay_seconds ?req = 0" "cjr_max_attempts ?req < 2 ^ 31 - 1"
    by (simp_all add: sample_request_def)
  have start_ok: "db_ok (p_db start)" "room (p_db start)" using db_ok_empty by (simp_all add: room_def empty_db_def)
  have fresh: "fresh_ids sample_world (p_calls start) (p_calls s2) (p_db start)" using sample_fresh by (simp add: calls)
  have host: "h_do connected_host (length (t_sent idle)) rq = Inr ?resp" by (simp add: connected_host_def exchange)
  have decode: "\<forall>rq' k e. receive sample_router (APIURL sample_config) (\<lambda>b. rq_job (sample_request PostJobs)) (\<lambda>b. None) ''r1'' rq = Some rq' \<and>
      fst (run_state (serve sample_world blank_trace (True, True) 5 ?sv rq') start) = Response 201 (JobCreated k e) \<longrightarrow>
      h_created connected_host ?body = Inr (k, e)"
    using read serve j(1) by (auto simp: sample_read_def [symmetric] sample_serve_def [symmetric] sample_token created)
  have "\<exists>k e. h_created connected_host (hp_body ?resp) = Inr (k, e) \<and>
      t_out t' = t_out idle @ submit_text connected_host submit_defaults k e \<and>
      (\<not> e \<and> queue_of sample_runner = job_queue k \<and> runHandler sample_payloads k = None \<and> remaining (p_db s1) < 4 \<longrightarrow>
        status_of (p_db s2) (job_id k) = Some Succeeded)"
    by (rule submitted_from_command_line [OF sample_world_calm _ start_ok sample_router_ok trim run sent
          exchange [unfolded sample_exchange_def sample_read_def] host req decode drain [unfolded sample_drain_def] fresh]) simp
  then have "status_of (p_db s2) 100 = Some Succeeded"
    using j few by (auto simp: created queue_of_def sample_runner_def NewRunner_def)
  then show ?thesis by (simp add: cli(1) printed serve drain)
qed

end
