(* ===== verification/CronCompletion.thy ===== *)
theory CronCompletion
  imports Completion
begin

text \<open>
  From the schedule to the success: a tick of the scheduler (\<open>Scheduler\<close>) fires a cron job, and the drain
  loop of a worker (\<open>Worker\<close>) carries out the job that it made.
\<close>

section \<open>What a tick leaves alone\<close>

text \<open>The part of a tick after the firing call.\<close>

definition after_firing :: "world \<Rightarrow> (string list \<Rightarrow> string list) \<Rightarrow> scheduler \<Rightarrow> cron_fire list \<Rightarrow> error option cmd" where
  "after_firing w order r fires = do {
     each_cmd (\<lambda>f. take_samples (RecordCronJobFired (sc_metrics r) (fire_job f))) fires;
     res \<leftarrow> store_call w (\<lambda>k. RecoverExpiredJobs (w_locked w k) (w_now w k) (sc_batch r) ''job lease expired'' (w_net w k));
     case res of
       Inl e \<Rightarrow> ret (Some e)
     | Inr recovered \<Rightarrow> do {
         each_cmd (log_recovered w r) recovered;
         res \<leftarrow> store_call w (\<lambda>k. ListDueQueues (w_coll w) (w_net w k) (w_now w k) (sc_batch r));
         case res of
           Inl e \<Rightarrow> ret (Some e)
         | Inr due \<Rightarrow> do {
             each_cmd (signal_queue w r) (order (queues_with_work fires recovered due));
             ret None
           }
       }
   }"

lemma tick_after_firing:
  "tick w order tc r = store_call w (tick_fires w tc r) \<bind>
     (\<lambda>res. case res of Inl e \<Rightarrow> ret (Some e) | Inr fires \<Rightarrow> after_firing w order r fires)"
  unfolding tick_def after_firing_def tick_fires_def [abs_def] ..

lemma triple_each: "(\<And>x. triple P (f x) (\<lambda>_. P)) \<Longrightarrow> triple P (each_cmd f xs) (\<lambda>_. P)"
proof (induction xs)
  case (Cons x xs)
  then show ?case using triple_bind [of P "f x" "\<lambda>_. P" "\<lambda>_. each_cmd f xs" "\<lambda>_. P"] by simp
qed (simp add: triple_return)

lemma counting_each [counting_rules]: "(\<And>x. counting (f x)) \<Longrightarrow> counting (each_cmd f xs)"
  by (induction xs) (simp_all add: counting_rules)

definition waits :: "job \<Rightarrow> db \<Rightarrow> bool" where
  "waits j d \<longleftrightarrow> db_ok d \<and> j \<in> set (jobs d)"

lemma recover_keeps_waiting:
  assumes "waits j d" and "job_status j \<noteq> Running"
  shows "waits j (snd (RecoverExpiredJobs locked now batch m net d))"
proof (rule recover.preserves)
  show "waits j d" by fact
  fix rs d'
  assume c: "recover_commit locked now batch (if m = [] then ''job lease expired'' else m) d rs d'"
  have ok: "db_ok d" using assms(1) by (simp add: waits_def)
  note facts = expired_jobs_facts [OF ok, of locked now batch]
  have "\<forall>k \<in> set (expired_jobs locked now batch d). k \<in> set (jobs d) \<and> job_status k = Running" using facts(1) by blast
  note batch = recover_fold [OF ok this facts(2), of now "if m = [] then ''job lease expired'' else m"]
  have "j \<notin> set (expired_jobs locked now batch d)" using facts(1) assms(2) by blast
  then show "waits j d'"
    using batch c assms(1) unfolding recover_commit_def waits_def by (force simp: image_iff)
qed

lemma after_firing_keeps:
  assumes "quiet w" and "job_status j \<noteq> Running"
  shows "triple (\<lambda>s. waits j (p_db s)) (after_firing w order r fires) (\<lambda>_ s. waits j (p_db s))"
proof -
  let ?P = "\<lambda>s. waits j (p_db s)"
  note silent = triple_silent [where R = "waits j"]
  note call = triple_quiet_call [OF assms(1), where R = "waits j" and Q = "\<lambda>_. waits j"]
  have log: "triple ?P (append_log_call w p) (\<lambda>_. ?P)" for p
    unfolding append_log_call_def
    by (rule call) (auto simp: waits_def split_beta AppendJobLog_jobs AppendJobLog_db_ok)
  have recovered: "triple ?P (log_recovered w r k) (\<lambda>_. ?P)" for k
    unfolding log_recovered_def by (intro triple_bind [where R = "\<lambda>_. ?P"] silent log triple_return)
  have signal: "triple ?P (signal_queue w r q) (\<lambda>_. ?P)" for q
    unfolding signal_queue_def by (intro triple_bind [where R = "\<lambda>_. ?P"] silent hoare)
  have recover: "triple ?P (store_call w (\<lambda>k. RecoverExpiredJobs (w_locked w k) (w_now w k) b m (w_net w k))) (\<lambda>_. ?P)" for b m
    by (rule call) (use recover_keeps_waiting assms(2) in \<open>simp add: split_beta\<close>)
  have due: "triple ?P (store_call w (\<lambda>k. ListDueQueues (w_coll w) (w_net w k) (w_now w k) b)) (\<lambda>_. ?P)" for b
    by (rule call) (simp add: split_beta read_no_step)
  show ?thesis
    unfolding after_firing_def
    by (intro triple_bind [where R = "\<lambda>_. ?P"] triple_each silent recover recovered due signal hoare)
qed

section \<open>What firing makes\<close>

lemma fire_step_makes:
  assumes "fire_step jsonb uuid_str now clock sid tc ids kc d r d'" and "j \<in> set (jobs d')"
  shows "j \<in> set (jobs d) \<or> (job_status j = Queued \<and> job_available_at j = now)"
proof (cases kc)
  case (Pair k c)
  from assms(1) [unfolded Pair] show ?thesis
  proof (cases rule: fire_stepE)
    case (1 t job d1 d2)
    have "jobs d2 = jobs d1" using 1(4) by (auto simp: log_commit_def split: if_splits)
    then show ?thesis using 1(3,5) assms(2) by (auto simp: cron_fired_job_def split: if_splits)
  qed
qed

lemma fire_run_makes:
  "run_each (fire_step jsonb uuid_str now clock sid tc ids) kcs d rs d' \<Longrightarrow> j \<in> set (jobs d') \<Longrightarrow>
    j \<in> set (jobs d) \<or> (job_status j = Queued \<and> job_available_at j = now)"
proof (induction kcs arbitrary: d rs)
  case (Cons kc kcs)
  then obtain r d1 rs1 where "fire_step jsonb uuid_str now clock sid tc ids kc d r d1"
      "run_each (fire_step jsonb uuid_str now clock sid tc ids) kcs d1 rs1 d'" by auto
  then show ?case using Cons.IH Cons.prems(2) fire_step_makes by blast
qed simp

lemma fired_job_waits:
  assumes "db_ok d" and "tick_fires w tc r k d = (Inr fires, d1)" and "f \<in> set fires"
    and "\<forall>j \<in> set (jobs d). job_idempotency_key j \<noteq> job_idempotency_key (fire_job f)"
  shows "waits (fire_job f) d1" "job_status (fire_job f) = Queued" "job_available_at (fire_job f) = w_now w k"
    "run_slot (fire_run f) = slot (fire_cron_job f)" "cr_job_id (fire_run f) = Some (job_id (fire_job f))"
proof -
  note commit = fire.success [OF assms(2) [unfolded tick_fires_def]]
  obtain sid rs where c: "run_each (fire_step (w_jsonb w) (w_uuid_str w) (w_now w k) (w_clock w k) sid tc
        (\<lambda>i. (w_ids w k (3 * i), w_ids w k (3 * i + 1), w_ids w k (3 * i + 2))))
      (enumerate 0 (due_cron_jobs (w_coll w) (w_locked w k) (w_clock w k) (sc_batch r) d)) d rs d1"
      "fires = List.map_filter (\<lambda>x. x) rs"
    using commit unfolding fire_commit_def by blast
  note run = fire_run [OF c(1) due_cron_facts(1) [OF assms(1)]]
  have ok: "fire_ok (w_uuid_str w) d1 f" using run assms(3) c(2) by blast
  have "db_ok d1" using fire_commit_db_ok [OF assms(1) commit] .
  then show "waits (fire_job f) d1" using ok by (simp add: waits_def fire_ok_def)
  have "fire_job f \<notin> set (jobs d)" using assms(4) by blast
  then show "job_status (fire_job f) = Queued" "job_available_at (fire_job f) = w_now w k"
    using fire_run_makes [OF c(1), of "fire_job f"] ok by (auto simp: fire_ok_def)
  show "run_slot (fire_run f) = slot (fire_cron_job f)" "cr_job_id (fire_run f) = Some (job_id (fire_job f))"
    using ok by (simp_all add: fire_ok_def fire_slot_def)
qed

section \<open>Properties\<close>


definition sample_tick :: "error option cmd" where
  "sample_tick = tick sample_world (\<lambda>qs. qs) \<lparr>tc_parent = [], tc_state = []\<rparr> sample_scheduler"

definition default_db :: db where
  "default_db = cron_db\<lparr>cron_jobs := [cron_sample\<lparr>cj_queue := ''default''\<rparr>]\<rparr>"

lemma default_db_ok: "db_ok default_db"
  using cron_db_ok by (simp add: db_ok_def default_db_def cron_db_def cron_ok_def)

definition at_cron :: proc where
  "at_cron = \<lparr>p_db = default_db, p_calls = 0, p_events = []\<rparr>"

lemma sample_tick_fires:
  "case tick_fires sample_world \<lparr>tc_parent = [], tc_state = []\<rparr> sample_scheduler 0 default_db of
     (Inr [f], d) \<Rightarrow> job_id (fire_job f) = 100 \<and> job_queue (fire_job f) = ''default'' \<and> runHandler sample_payloads (fire_job f) = None
   | _ \<Rightarrow> False"
  by code_simp

lemma sample_tick_runs:
  "case run_state sample_tick at_cron of (e, s1) \<Rightarrow> e = None \<and> remaining (p_db s1) < 4 \<and> attempts (p_db s1) = [] \<and>
     (\<forall>j \<in> set (jobs (p_db s1)). job_max_attempts j < 2 ^ 31 - 1) \<and> p_calls s1 = 4 \<and>
     p_calls (snd (run_state sample_drain s1)) = 9"
  by code_simp


end
