(* ===== verification/SchedulerLoop.thy ===== *)
theory SchedulerLoop
  imports Scheduler
begin

text \<open>
  \<open>Run\<close> of \<open>internal/scheduler/scheduler.go\<close>: one tick after the other until the context is done. What
  \<open>select\<close> takes after a tick, the end of the context or the ticker, is an input (\<open>stops\<close>), since it is
  free to take either when both are ready; the waiting itself has no effect. \<open>scheduler_Run\<close> does at most
  \<open>n\<close> ticks, and its result is None when they are used up.
\<close>

section \<open>Definitions\<close>

primrec scheduler_Run ::
  "world \<Rightarrow> (nat \<Rightarrow> string list \<Rightarrow> string list) \<Rightarrow> (nat \<Rightarrow> trace_context) \<Rightarrow> (nat \<Rightarrow> bool) \<Rightarrow> scheduler \<Rightarrow> nat \<Rightarrow> nat \<Rightarrow>
   error option option cmd" where
  "scheduler_Run w order tc stops r i 0 = ret None"
| "scheduler_Run w order tc stops r i (Suc n) = do {
     run_tick w (order i) (tc i) r;
     if stops i then ret (Some None) else scheduler_Run w order tc stops r (Suc i) n
   }"

section \<open>What is counted\<close>

text \<open>The ticks that the metrics have counted.\<close>

definition is_tick :: "event \<Rightarrow> bool" where
  "is_tick e = (case e of Sampled (Inc f labels) \<Rightarrow> f = SchedulerTicks | _ \<Rightarrow> False)"

definition ticks_counted :: "proc \<Rightarrow> nat" where
  "ticks_counted s = length (filter is_tick (p_events s))"

named_theorems uncounted \<open>computations that count no tick\<close>

definition no_tick :: "'a cmd \<Rightarrow> bool" where
  "no_tick m \<longleftrightarrow> (\<forall>s. ticks_counted (snd (run_state m s)) = ticks_counted s)"

lemma no_tickD: "no_tick m \<Longrightarrow> run_state m s = (a, s') \<Longrightarrow> ticks_counted s' = ticks_counted s"
  by (metis no_tick_def snd_conv)

lemma no_tick_base [uncounted]:
  "no_tick (ret a)" "no_tick (store_call w f)" "no_tick (publish w q)"
  by (simp_all add: no_tick_def store_call_def publish_def ticks_counted_def is_tick_def Let_def split_beta)

lemma no_tick_samples [uncounted]: "\<forall>x \<in> set xs. \<not> is_tick (Sampled x) \<Longrightarrow> no_tick (take_samples xs)"
  by (simp add: no_tick_def take_samples_def ticks_counted_def filter_empty_conv)

lemma no_tick_bind [uncounted]: "no_tick m \<Longrightarrow> (\<And>a. no_tick (f a)) \<Longrightarrow> no_tick (m \<bind> f)"
  by (simp add: no_tick_def split_beta)

lemma no_tick_if [uncounted]: "no_tick m \<Longrightarrow> no_tick n \<Longrightarrow> no_tick (if b then m else n)"
  by simp

lemma no_tick_sum [uncounted]:
  "(\<And>e. no_tick (f e)) \<Longrightarrow> (\<And>a. no_tick (g a)) \<Longrightarrow> no_tick (case x of Inl e \<Rightarrow> f e | Inr a \<Rightarrow> g a)"
  by (cases x) simp_all

lemma no_tick_each [uncounted]: "(\<And>x. no_tick (f x)) \<Longrightarrow> no_tick (each_cmd f xs)"
  by (induction xs) (simp_all add: uncounted)

lemma no_tick_recorded [uncounted]:
  "\<forall>x \<in> set (RecordCronJobFired m j). \<not> is_tick (Sampled x)"
  "\<forall>x \<in> set (RecordSchedulerRecovered m j). \<not> is_tick (Sampled x)"
  "\<forall>x \<in> set (RecordNATSPublishFailure m c q). \<not> is_tick (Sampled x)"
  by (auto simp: RecordCronJobFired_def RecordSchedulerRecovered_def RecordNATSPublishFailure_def with_metrics_def
      is_tick_def split: option.splits)

lemma no_tick_tick: "no_tick (tick w order tc r)"
  unfolding tick_def log_recovered_def append_log_call_def signal_queue_def by (intro uncounted)

lemma run_tick_counts:
  assumes "run_state (run_tick w order tc r) s = (u, s')" and "sc_metrics r \<noteq> None"
  shows "ticks_counted s' = Suc (ticks_counted s)"
proof -
  obtain e s1 where 1: "run_state (tick w order tc r) s = (e, s1)" by (rule prod.exhaust)
  have "ticks_counted s1 = ticks_counted s" by (rule no_tickD [OF no_tick_tick 1])
  then show ?thesis
    using assms 1
    by (auto simp: run_tick_def take_samples_def RecordSchedulerTick_def with_metrics_def ticks_counted_def is_tick_def)
qed

section \<open>The loop\<close>

lemma store_only_scheduler_Run: "fair w \<Longrightarrow> store_only (scheduler_Run w order tc stops r i n)"
  by (induction n arbitrary: i) (simp_all add: store_only_rules store_only_run_tick)

lemma scheduler_Run_counts:
  assumes "sc_metrics r \<noteq> None" and "stops (i + m)" and "\<forall>l < m. \<not> stops (i + l)" and "m < n"
    and "run_state (scheduler_Run w order tc stops r i n) s = (out, s')"
  shows "out = Some None \<and> ticks_counted s' = ticks_counted s + Suc m"
  using assms(2-)
proof (induction m arbitrary: i n s)
  case 0
  obtain u s1 where 1: "run_state (run_tick w (order i) (tc i) r) s = (u, s1)" by (rule prod.exhaust)
  obtain n' where "n = Suc n'" using "0.prems"(3) by (cases n) simp_all
  then show ?case using 0 1 run_tick_counts [OF 1 assms(1)] by simp
next
  case (Suc m)
  obtain u s1 where 1: "run_state (run_tick w (order i) (tc i) r) s = (u, s1)" by (rule prod.exhaust)
  obtain n' where n: "n = Suc n'" using Suc.prems(3) by (cases n) simp_all
  have go: "\<not> stops i" "\<forall>l < m. \<not> stops (Suc i + l)" using Suc.prems(2) by force+
  have "run_state (scheduler_Run w order tc stops r (Suc i) n') s1 = (out, s')"
    using Suc.prems(4) 1 n go(1) by simp
  then show ?case using Suc.IH [of "Suc i" n' s1] Suc.prems(1,3) go(2) n run_tick_counts [OF 1 assms(1)] by simp
qed

text \<open>
  The scheduler runs until it is told to stop. Whatever the ticks meet, errors included, the loop of a
  scheduler whose context is done at the \<open>m\<close>-th wait returns nil after exactly \<open>m + 1\<close> ticks, each of them
  counted once by the metrics; and all that it did to the database are store operations.
\<close>

lemma scheduler_stops_when_told:
  assumes "fair w" and "stops m" and "\<forall>l < m. \<not> stops l"
    and "run_state (scheduler_Run w order tc stops (NewScheduler sid interval batch mt) 0 (Suc m)) s = (out, s')"
  shows "out = Some None \<and> ticks_counted s' = ticks_counted s + Suc m \<and> store_step\<^sup>*\<^sup>* (p_db s) (p_db s')"
proof -
  have "sc_metrics (NewScheduler sid interval batch mt) \<noteq> None" by (cases mt) (simp_all add: NewScheduler_def)
  then show ?thesis
    using scheduler_Run_counts [of "NewScheduler sid interval batch mt" stops 0 m "Suc m" w order tc s out s'] assms(2-)
      store_onlyD [OF store_only_scheduler_Run [OF assms(1)] assms(4)] by simp
qed

end
