(* ===== verification/Migrations.thy ===== *)
theory Migrations
  imports Schema "HOL-Library.Char_ord" "HOL-Library.List_Lexorder"
begin

text \<open>
  \<open>Store.ApplyMigrations\<close> of \<open>storage.go\<close>: the schema is brought up to date by the files of a
  directory, in the order of their names, each in a transaction with the row that records it. What
  PostgreSQL makes of a script is a parameter (None where it refuses it), and so is the directory. Other servers may
  migrate the same database at the same time: \<open>others\<close> is what they do before each round trip.
\<close>

section \<open>Definitions\<close>

record entry =
  en_name :: string
  en_dir :: bool
  en_text :: "string option"

record directory =
  dir_entries :: "entry list option"

record 's schema =
  mg_table :: bool
  mg_versions :: "string list"
  mg_schema :: 's

datatype migration_error =
    NoDirectory | NoEntries | Unreadable string | Refused string | QueryFailed | AlreadyApplied string | ConnectionFailed

definition HasSuffix :: "string \<Rightarrow> string \<Rightarrow> bool" where
  "HasSuffix s p \<longleftrightarrow> HasPrefix (rev s) (rev p)"

text \<open>\<open>strings.Split(s, m)[0]\<close> for a non-empty \<open>m\<close>.\<close>

fun before :: "string \<Rightarrow> string \<Rightarrow> string" where
  "before m [] = []"
| "before m (c # s) = (if HasPrefix (c # s) m then [] else c # before m s)"

definition upSQL :: "string \<Rightarrow> string" where
  "upSQL raw = before ''-- +goose Down'' raw"

definition is_migration :: "entry \<Rightarrow> bool" where
  "is_migration e \<longleftrightarrow> \<not> en_dir e \<and> HasSuffix (en_name e) ''.sql''"

definition version :: "entry \<Rightarrow> string" where
  "version e = TrimSuffix (en_name e) ''.sql''"

text \<open>One migration: \<open>Begin\<close>, the script, the row in \<open>schema_migrations\<close>, \<open>Commit\<close>.\<close>

definition migrate :: "(string \<Rightarrow> 's \<Rightarrow> 's option) \<Rightarrow> net \<Rightarrow> string \<Rightarrow> string \<Rightarrow> string \<Rightarrow> 's schema \<Rightarrow>
    migration_error option \<times> 's schema" where
  "migrate script net name v up d =
     (if net 0 \<noteq> Served then (Some ConnectionFailed, d)
      else if net 1 \<noteq> Served then (Some (Refused name), d)
      else (case script up (mg_schema d) of
          None \<Rightarrow> (Some (Refused name), d)
        | Some s \<Rightarrow>
            if net 2 \<noteq> Served then (Some ConnectionFailed, d)
            else if \<not> mg_table d \<or> v \<in> set (mg_versions d) then (Some (AlreadyApplied v), d)
            else
              (let d' = d\<lparr>mg_schema := s, mg_versions := mg_versions d @ [v]\<rparr>
               in case net 3 of
                    Served \<Rightarrow> (None, d')
                  | Lost \<Rightarrow> (Some ConnectionFailed, d)
                  | AckLost \<Rightarrow> (Some ConnectionFailed, d'))))"

text \<open>The loop over the entries; \<open>k\<close> counts the round trips.\<close>

fun apply_entries :: "(string \<Rightarrow> 's \<Rightarrow> 's option) \<Rightarrow> net \<Rightarrow> (nat \<Rightarrow> 's schema \<Rightarrow> 's schema) \<Rightarrow> nat \<Rightarrow> entry list \<Rightarrow>
    's schema \<Rightarrow> migration_error option \<times> 's schema" where
  "apply_entries script net others k [] d = (None, d)"
| "apply_entries script net others k (e # es) d =
     (if \<not> is_migration e then apply_entries script net others k es d
      else
        (let d = others k d
         in if net k \<noteq> Served \<or> \<not> mg_table d then (Some QueryFailed, d)
            else if version e \<in> set (mg_versions d) then apply_entries script net others (Suc k) es d
            else (case en_text e of
                None \<Rightarrow> (Some (Unreadable (en_name e)), d)
              | Some raw \<Rightarrow>
                  (case migrate script (\<lambda>i. net (Suc k + i)) (en_name e) (version e) (upSQL raw) (others (Suc k) d) of
                     (Some err, d') \<Rightarrow> (Some err, d')
                   | (None, d') \<Rightarrow> apply_entries script net others (k + 5) es d'))))"

text \<open>\<open>fs\<close> looks a directory up: None where \<open>os.Stat\<close> fails.\<close>

definition ApplyMigrations :: "(string \<Rightarrow> 's \<Rightarrow> 's option) \<Rightarrow> (string \<Rightarrow> directory option) \<Rightarrow> net \<Rightarrow>
    (nat \<Rightarrow> 's schema \<Rightarrow> 's schema) \<Rightarrow> string \<Rightarrow> 's schema \<Rightarrow> migration_error option \<times> 's schema" where
  "ApplyMigrations script fs net others dir d =
     (let dir = (if dir = [] then ''migrations'' else dir)
      in case fs dir of
           None \<Rightarrow> (Some NoDirectory, d)
         | Some content \<Rightarrow>
             (let d = others 0 d; created = d\<lparr>mg_table := True\<rparr>
              in case net 0 of
                   Lost \<Rightarrow> (Some ConnectionFailed, d)
                 | AckLost \<Rightarrow> (Some ConnectionFailed, created)
                 | Served \<Rightarrow>
                     (case dir_entries content of
                        None \<Rightarrow> (Some NoEntries, created)
                      | Some entries \<Rightarrow>
                          apply_entries script net others 1 (order_by (asc en_name ties) entries) created)))"

section \<open>Names and versions\<close>

lemma version_inj:
  assumes "is_migration e" and "is_migration f" and "version e = version f"
  shows "en_name e = en_name f"
proof -
  have "rev (en_name x) = ''lqs.'' @ rev (version x)" if "is_migration x" for x
  proof -
    have p: "HasPrefix (rev (en_name x)) ''lqs.''" using that by (simp add: is_migration_def HasSuffix_def)
    then have "rev (version x) = drop (length ''lqs.'') (rev (en_name x))" by (simp add: version_def TrimSuffix_def TrimPrefix_def)
    moreover have "take (length ''lqs.'') (rev (en_name x)) = ''lqs.''" using p by (simp only: HasPrefix_def)
    ultimately show ?thesis using append_take_drop_id [of "length ''lqs.''" "rev (en_name x)"] by metis
  qed
  then have "rev (en_name e) = rev (en_name f)" using assms by simp
  then show ?thesis by simp
qed

section \<open>Replaying\<close>

text \<open>The specification: the scripts one after the other, None where one is refused.\<close>

fun replay :: "(string \<Rightarrow> 's \<Rightarrow> 's option) \<Rightarrow> string list \<Rightarrow> 's \<Rightarrow> 's option" where
  "replay script [] s = Some s"
| "replay script (u # us) s = (case script u s of None \<Rightarrow> None | Some t \<Rightarrow> replay script us t)"

lemma replay_append: "replay script (us @ vs) s = Option.bind (replay script us s) (replay script vs)"
  by (induction us arbitrary: s) (simp_all split: option.split)

text \<open>The files of a directory as migrations, and those that a database has not seen.\<close>

definition files :: "entry list \<Rightarrow> (string \<times> string option) list" where
  "files es = map (\<lambda>e. (version e, map_option upSQL (en_text e))) (filter is_migration es)"

definition pending :: "entry list \<Rightarrow> 's schema \<Rightarrow> (string \<times> string option) list" where
  "pending es d = filter (\<lambda>(v, u). v \<notin> set (mg_versions d)) (files es)"

text \<open>Carrying out some migrations for good.\<close>

definition advanced :: "(string \<Rightarrow> 's \<Rightarrow> 's option) \<Rightarrow> (string \<times> string option) list \<Rightarrow> 's schema \<Rightarrow> 's schema \<Rightarrow> bool" where
  "advanced script ms d d' \<longleftrightarrow> None \<notin> set (map snd ms) \<and>
     (\<exists>s. replay script (map (the \<circ> snd) ms) (mg_schema d) = Some s \<and>
       d' = d\<lparr>mg_schema := s, mg_versions := mg_versions d @ map fst ms\<rparr>)"

lemma advanced_Nil [simp]: "advanced script [] d d' \<longleftrightarrow> d' = d"
  by (auto simp: advanced_def)

lemma advanced_Cons:
  "advanced script ((v, u) # ms) d d' \<longleftrightarrow> (\<exists>up s. u = Some up \<and> script up (mg_schema d) = Some s \<and>
     advanced script ms (d\<lparr>mg_schema := s, mg_versions := mg_versions d @ [v]\<rparr>) d')"
  by (cases u) (auto simp: advanced_def split: option.split_asm)

lemma advanced_trans: "advanced script ms d d' \<Longrightarrow> advanced script ns d' d'' \<Longrightarrow> advanced script (ms @ ns) d d''"
  by (auto simp: advanced_def replay_append)

lemma advanced_unique: "advanced script ms d d' \<Longrightarrow> advanced script ms d d'' \<Longrightarrow> d' = d''"
  by (auto simp: advanced_def)

lemma migrate_cases:
  assumes "migrate script net name v up d = (r, d')"
  obtains (stays) e where "r = Some e" "d' = d"
  | (done_once) s where "script up (mg_schema d) = Some s" "v \<notin> set (mg_versions d)" "mg_table d"
      "d' = d\<lparr>mg_schema := s, mg_versions := mg_versions d @ [v]\<rparr>" "r = (if net 3 = Served then None else Some ConnectionFailed)"
proof (cases "script up (mg_schema d)")
  case None
  then have "d' = d \<and> (\<exists>e. r = Some e)" using assms by (auto simp: migrate_def split: if_split_asm)
  then show ?thesis using stays by blast
next
  case (Some s)
  show ?thesis
  proof (cases "net 0 = Served \<and> net 1 = Served \<and> net 2 = Served \<and> mg_table d \<and> v \<notin> set (mg_versions d)")
    case True
    let ?d = "d\<lparr>mg_schema := s, mg_versions := mg_versions d @ [v]\<rparr>"
    have eq: "(r, d') = (case net 3 of Served \<Rightarrow> (None, ?d) | Lost \<Rightarrow> (Some ConnectionFailed, d) | AckLost \<Rightarrow> (Some ConnectionFailed, ?d))"
      using assms Some True by (simp add: migrate_def Let_def)
    show ?thesis
    proof (cases "net 3 = Lost")
      case lost: True
      then show ?thesis using eq by (intro stays) simp_all
    next
      case False
      then have "d' = ?d" "r = (if net 3 = Served then None else Some ConnectionFailed)"
        using eq by (cases "net 3"; simp)+
      then show ?thesis using done_once [OF Some] True by blast
    qed
  next
    case False
    then have "d' = d \<and> (\<exists>e. r = Some e)" using assms Some by (auto simp: migrate_def split: if_split_asm)
    then show ?thesis using stays by blast
  qed
qed

lemma pending_Cons:
  "pending (e # es) d =
     (if is_migration e \<and> version e \<notin> set (mg_versions d) then [(version e, map_option upSQL (en_text e))] else []) @ pending es d"
  by (simp add: pending_def files_def)

lemma pending_later:
  assumes "version e \<notin> fst ` set (files es)"
  shows "pending es (d\<lparr>mg_schema := s, mg_versions := mg_versions d @ [version e]\<rparr>) = pending es d"
  unfolding pending_def using assms by (intro filter_cong refl) (auto simp: image_iff)

text \<open>An undisturbed run carries out a prefix of what is pending.\<close>

lemma apply_entries_prefix:
  assumes "distinct (map fst (files es))" and "mg_table d"
    and "apply_entries script net (\<lambda>k d. d) k es d = (r, d')"
  shows "\<exists>n. advanced script (take n (pending es d)) d d' \<and> (r = None \<longrightarrow> length (pending es d) \<le> n)"
  using assms
proof (induction es arbitrary: k d)
  case Nil
  then show ?case by (simp add: pending_def files_def)
next
  case (Cons e es)
  show ?case
  proof (cases "is_migration e")
    case False
    then show ?thesis using Cons.IH [of d k] Cons.prems by (simp add: pending_Cons files_def)
  next
    case True
    have dist: "distinct (map fst (files es))" "version e \<notin> fst ` set (files es)"
      using Cons.prems(1) True by (simp_all add: files_def image_image comp_def)
    consider (failed) "d' = d" "r \<noteq> None"
      | (known) "version e \<in> set (mg_versions d)" "apply_entries script net (\<lambda>k d. d) (Suc k) es d = (r, d')"
      | (tried) raw where "version e \<notin> set (mg_versions d)" "en_text e = Some raw"
          "(case migrate script (\<lambda>i. net (Suc k + i)) (en_name e) (version e) (upSQL raw) d of
             (Some err, d') \<Rightarrow> (Some err, d') | (None, d') \<Rightarrow> apply_entries script net (\<lambda>k d. d) (k + 5) es d') = (r, d')"
      using Cons.prems(3) True by (auto simp: Let_def split: if_splits option.splits)
    then show ?thesis
    proof cases
      case failed
      then show ?thesis by (intro exI [of _ 0]) auto
    next
      case known
      then show ?thesis using Cons.IH [OF dist(1) Cons.prems(2) known(2)] True by (simp add: pending_Cons)
    next
      case tried
      have p: "pending (e # es) d = (version e, Some (upSQL raw)) # pending es d"
        using True tried(1,2) by (simp add: pending_Cons)
      obtain x d1 where m: "migrate script (\<lambda>i. net (Suc k + i)) (en_name e) (version e) (upSQL raw) d = (x, d1)"
        by (rule prod.exhaust)
      from m show ?thesis
      proof (cases rule: migrate_cases)
        case (stays err)
        then show ?thesis using tried(3) m by (intro exI [of _ 0]) auto
      next
        case (done_once s)
        show ?thesis
        proof (cases x)
          case None
          then have run: "apply_entries script net (\<lambda>k d. d) (k + 5) es d1 = (r, d')" using tried(3) m by simp
          obtain n where "advanced script (take n (pending es d1)) d1 d'" "r = None \<longrightarrow> length (pending es d1) \<le> n"
            using Cons.IH [OF dist(1) _ run] done_once(3,4) by auto
          moreover have "pending es d1 = pending es d" using pending_later [OF dist(2)] done_once(4) by simp
          ultimately show ?thesis
            using done_once(1,4) by (intro exI [of _ "Suc n"]) (simp add: p advanced_Cons)
        next
          case (Some err)
          then show ?thesis
            using tried(3) m done_once(1,4) by (intro exI [of _ 1]) (auto simp: p advanced_Cons)
        qed
      qed
    qed
  qed
qed

section \<open>Servers that migrate at the same time\<close>

text \<open>The steps of any number of servers of the same release: \<open>texts\<close> are its scripts by version.\<close>

inductive migration_step :: "(string \<Rightarrow> 's \<Rightarrow> 's option) \<Rightarrow> (string \<Rightarrow> string) \<Rightarrow> 's schema \<Rightarrow> 's schema \<Rightarrow> bool"
  for script :: "string \<Rightarrow> 's \<Rightarrow> 's option" and texts :: "string \<Rightarrow> string" where
  create_table: "migration_step script texts d (d\<lparr>mg_table := True\<rparr>)"
| migration: "migration_step script texts d (snd (migrate script net name v (texts v) d))"

text \<open>Each recorded version was applied once, in the recorded order, and nothing else was.\<close>

definition migrated :: "(string \<Rightarrow> 's \<Rightarrow> 's option) \<Rightarrow> (string \<Rightarrow> string) \<Rightarrow> 's \<Rightarrow> 's schema \<Rightarrow> bool" where
  "migrated script texts base d \<longleftrightarrow> distinct (mg_versions d) \<and> replay script (map texts (mg_versions d)) base = Some (mg_schema d)"

definition extends :: "'s schema \<Rightarrow> 's schema \<Rightarrow> bool" where
  "extends d d' \<longleftrightarrow> (mg_table d \<longrightarrow> mg_table d') \<and> (\<exists>vs. mg_versions d' = mg_versions d @ vs)"

lemma extends_refl [simp]: "extends d d"
  by (simp add: extends_def)

lemma extends_trans: "extends a b \<Longrightarrow> extends b c \<Longrightarrow> extends a c"
  by (auto simp: extends_def)

lemma extends_set: "extends d d' \<Longrightarrow> set (mg_versions d) \<subseteq> set (mg_versions d')"
  by (auto simp: extends_def)

lemma migrate_keeps:
  assumes "migrated script texts base d" and "migrate script net name v (texts v) d = (r, d')"
  shows "migrated script texts base d' \<and> extends d d' \<and> (r = None \<longrightarrow> v \<in> set (mg_versions d'))"
  using assms(2)
proof (cases rule: migrate_cases)
  case (stays e)
  then show ?thesis using assms(1) by simp
next
  case (done_once s)
  then show ?thesis using assms(1) by (simp add: migrated_def extends_def replay_append)
qed

lemma migration_step_keeps:
  assumes "migration_step script texts d d'" and "migrated script texts base d"
  shows "migrated script texts base d' \<and> extends d d'"
  using assms(1)
proof cases
  case create_table
  then show ?thesis using assms(2) by (simp add: migrated_def extends_def)
next
  case (migration net name v)
  obtain r e where "migrate script net name v (texts v) d = (r, e)" by (rule prod.exhaust)
  then show ?thesis using migrate_keeps [OF assms(2)] migration by auto
qed

lemma migration_run_keeps:
  "(migration_step script texts)\<^sup>*\<^sup>* d d' \<Longrightarrow> migrated script texts base d \<Longrightarrow> migrated script texts base d' \<and> extends d d'"
proof (induction rule: rtranclp_induct)
  case (step y z)
  note y = step.IH [OF step.prems]
  note z = migration_step_keeps [OF step.hyps(2) conjunct1 [OF y]]
  show ?case using z extends_trans [OF conjunct2 [OF y] conjunct2 [OF z]] by simp
qed simp

definition same_release :: "(string \<Rightarrow> string) \<Rightarrow> entry list \<Rightarrow> bool" where
  "same_release texts es \<longleftrightarrow> (\<forall>e \<in> set es. is_migration e \<longrightarrow> (case en_text e of None \<Rightarrow> True | Some raw \<Rightarrow> upSQL raw = texts (version e)))"

lemma apply_entries_keeps:
  assumes others: "\<And>k d. (migration_step script texts)\<^sup>*\<^sup>* d (others k d)"
    and "same_release texts es" and "migrated script texts base d" and "apply_entries script net others k es d = (r, d')"
  shows "migrated script texts base d' \<and> extends d d' \<and> (r = None \<longrightarrow> version ` {e \<in> set es. is_migration e} \<subseteq> set (mg_versions d'))"
  using assms(2-4)
proof (induction es arbitrary: k d)
  case Nil
  then show ?case by simp
next
  case (Cons e es)
  have es: "same_release texts es" using Cons.prems(1) by (simp add: same_release_def)
  note IH = Cons.IH [OF es]
  show ?case
  proof (cases "is_migration e")
    case False
    then have "{f \<in> set (e # es). is_migration f} = {f \<in> set es. is_migration f}" by auto
    then show ?thesis using IH [OF Cons.prems(2), of k] Cons.prems(3) False by auto
  next
    case True
    let ?d = "others k d"
    have d: "migrated script texts base ?d" "extends d ?d" using migration_run_keeps [OF others Cons.prems(2)] by auto
    have all: "version ` {f \<in> set (e # es). is_migration f} = insert (version e) (version ` {f \<in> set es. is_migration f})"
      using True by auto
    consider (failed) "d' = ?d" "r \<noteq> None"
      | (known) "version e \<in> set (mg_versions ?d)" "apply_entries script net others (Suc k) es ?d = (r, d')"
      | (tried) raw where "en_text e = Some raw"
          "(case migrate script (\<lambda>i. net (Suc k + i)) (en_name e) (version e) (upSQL raw) (others (Suc k) ?d) of
             (Some err, d') \<Rightarrow> (Some err, d') | (None, d') \<Rightarrow> apply_entries script net others (k + 5) es d') = (r, d')"
      using Cons.prems(3) True by (auto simp: Let_def split: if_splits option.splits)
    then show ?thesis
    proof cases
      case failed
      then show ?thesis using d by auto
    next
      case known
      note rest = IH [OF d(1) known(2)]
      then have "version e \<in> set (mg_versions d')" using known(1) extends_set [of ?d d'] by auto
      then show ?thesis using rest extends_trans [OF d(2)] unfolding all by simp
    next
      case tried
      let ?d1 = "others (Suc k) ?d"
      have d1: "migrated script texts base ?d1" "extends d ?d1"
        using migration_run_keeps [OF others d(1), of "Suc k"] extends_trans [OF d(2)] by auto
      have raw: "upSQL raw = texts (version e)" using Cons.prems(1) True tried(1) by (auto simp: same_release_def)
      obtain x d2 where m: "migrate script (\<lambda>i. net (Suc k + i)) (en_name e) (version e) (texts (version e)) ?d1 = (x, d2)"
        by (rule prod.exhaust)
      note kept = migrate_keeps [OF d1(1) m]
      show ?thesis
      proof (cases x)
        case None
        then have "apply_entries script net others (k + 5) es d2 = (r, d')" using tried(2) m raw by simp
        note rest = IH [OF conjunct1 [OF kept] this]
        then have "version e \<in> set (mg_versions d')" using kept None extends_set [of d2 d'] by auto
        moreover have "extends d d'"
          using extends_trans [OF extends_trans [OF d1(2)], of d2 d'] rest kept by simp
        ultimately show ?thesis using rest unfolding all by simp
      next
        case (Some err)
        then have "d' = d2" "r \<noteq> None" using tried(2) m raw by auto
        then show ?thesis using kept extends_trans [OF d1(2)] by auto
      qed
    qed
  qed
qed

section \<open>Runs after a failure\<close>

lemma served_known:
  "mg_table d \<Longrightarrow> pending es d = [] \<Longrightarrow> apply_entries script (\<lambda>n. Served) (\<lambda>k d. d) k es d = (None, d)"
  by (induction es arbitrary: k) (auto simp: pending_Cons Let_def split: if_split_asm)

lemma served_counter:
  "apply_entries script (\<lambda>n. Served) (\<lambda>k d. d) k es d = apply_entries script (\<lambda>n. Served) (\<lambda>k d. d) k' es d"
proof (induction es arbitrary: k k' d)
  case (Cons e es)
  have "apply_entries script (\<lambda>n. Served) (\<lambda>k d. d) (k + 5) es c = apply_entries script (\<lambda>n. Served) (\<lambda>k d. d) (k' + 5) es c" for c
    by (rule Cons.IH)
  then show ?case using Cons.IH [of k d k'] Cons.IH [of "Suc k" d "Suc k'"] by (simp add: Let_def split: option.split prod.split)
qed simp

lemma served_resumes:
  assumes "distinct (map fst (files es))" and "mg_table d" and "advanced script (take n (pending es d)) d d1"
  shows "apply_entries script (\<lambda>n. Served) (\<lambda>k d. d) k es d1 = apply_entries script (\<lambda>n. Served) (\<lambda>k d. d) k' es d"
  using assms
proof (induction es arbitrary: k k' d n)
  case Nil
  then show ?case by (simp add: pending_def files_def)
next
  case (Cons e es)
  show ?case
  proof (cases "is_migration e")
    case False
    then show ?thesis using Cons.IH [of d n k k'] Cons.prems by (simp add: pending_Cons files_def)
  next
    case True
    have dist: "distinct (map fst (files es))" "version e \<notin> fst ` set (files es)"
      using Cons.prems(1) True by (simp_all add: files_def image_image comp_def)
    have d1: "mg_table d1" "set (mg_versions d) \<subseteq> set (mg_versions d1)" using Cons.prems(2,3) by (auto simp: advanced_def)
    show ?thesis
    proof (cases "version e \<in> set (mg_versions d)")
      case known: True
      then show ?thesis
        using Cons.IH [OF dist(1) Cons.prems(2), of n "Suc k" "Suc k'"] Cons.prems(2,3) d1 True
        by (auto simp: pending_Cons Let_def)
    next
      case new: False
      have p: "pending (e # es) d = (version e, map_option upSQL (en_text e)) # pending es d"
        using True new by (simp add: pending_Cons)
      show ?thesis
      proof (cases n)
        case 0
        then have "d1 = d" using Cons.prems(3) by simp
        then show ?thesis by (simp only:) (rule served_counter)
      next
        case (Suc m)
        obtain raw s where up: "en_text e = Some raw" "script (upSQL raw) (mg_schema d) = Some s"
          and rest: "advanced script (take m (pending es d)) (d\<lparr>mg_schema := s, mg_versions := mg_versions d @ [version e]\<rparr>) d1"
          using Cons.prems(3) unfolding Suc p take_Suc_Cons advanced_Cons by auto
        let ?d = "d\<lparr>mg_schema := s, mg_versions := mg_versions d @ [version e]\<rparr>"
        have "version e \<in> set (mg_versions d1)" using rest by (auto simp: advanced_def)
        moreover have "advanced script (take m (pending es ?d)) ?d d1" using rest unfolding pending_later [OF dist(2)] .
        ultimately show ?thesis
          using Cons.IH [OF dist(1), of ?d m "Suc k" "k' + 5"] Cons.prems(2) d1(1) True new up
          by (simp add: Let_def migrate_def)
      qed
    qed
  qed
qed

section \<open>Properties\<close>

text \<open>
  C25. Every migration is applied exactly once. However many servers of a release start at the same time,
  whatever fails on the way: the schema is always the result of the scripts recorded in
  \<open>schema_migrations\<close>, each applied once and in the recorded order; records are only appended; and
  when \<open>ApplyMigrations\<close> returns without an error, every migration of the directory is recorded.
\<close>

theorem migrations_exactly_once:
  assumes "\<forall>k d. (migration_step script texts)\<^sup>*\<^sup>* d (others k d)" and "fs dir = Some \<lparr>dir_entries = Some es\<rparr>" and "dir \<noteq> []"
    and "same_release texts es" and "migrated script texts base d" and "ApplyMigrations script fs net others dir d = (r, d')"
  shows "migrated script texts base d' \<and> (\<exists>vs. mg_versions d' = mg_versions d @ vs) \<and>
    (r = None \<longrightarrow> (\<forall>e \<in> set es. is_migration e \<longrightarrow> version e \<in> set (mg_versions d')))"
proof -
  let ?d = "others 0 d" and ?es = "order_by (asc en_name ties) es"
  have d: "migrated script texts base ?d" "extends d ?d" using migration_run_keeps [OF assms(1) [rule_format] assms(5), of 0] by simp_all
  then have c: "migrated script texts base (?d\<lparr>mg_table := True\<rparr>)" "extends d (?d\<lparr>mg_table := True\<rparr>)"
    by (simp_all add: migrated_def extends_def)
  have es: "same_release texts ?es" using assms(4) by (simp add: same_release_def)
  show ?thesis
  proof (cases "net 0 = Served")
    case True
    then have "apply_entries script net others 1 ?es (?d\<lparr>mg_table := True\<rparr>) = (r, d')"
      using assms(2,3,6) by (simp add: ApplyMigrations_def Let_def)
    note kept = apply_entries_keeps [OF assms(1) [rule_format] es c(1) this]
    then have "extends d d'" using extends_trans [OF c(2)] by blast
    then show ?thesis using kept by (auto simp: extends_def)
  next
    case False
    then have "r \<noteq> None" "d' = ?d \<or> d' = ?d\<lparr>mg_table := True\<rparr>"
      using assms(2,3,6) by (cases "net 0"; auto simp: ApplyMigrations_def Let_def)+
    then show ?thesis using c d by (auto simp: extends_def)
  qed
qed

text \<open>
  C26. Migrations resume. When \<open>ApplyMigrations\<close> fails, or the server dies, anywhere on the way, then a
  later undisturbed run ends exactly like a run that had not been interrupted: with the same error,
  if a script is refused, and with the same schema; and after a run without an error the next one
  changes nothing.
\<close>

theorem migrations_resume:
  assumes "fs dir = Some \<lparr>dir_entries = Some es\<rparr>" and "dir \<noteq> []" and "distinct (map en_name es)"
    and "ApplyMigrations script fs net (\<lambda>k d. d) dir d = (r, d1)"
  shows "ApplyMigrations script fs (\<lambda>n. Served) (\<lambda>k d. d) dir d1 = ApplyMigrations script fs (\<lambda>n. Served) (\<lambda>k d. d) dir d \<and>
    (r = None \<longrightarrow> ApplyMigrations script fs (\<lambda>n. Served) (\<lambda>k d. d) dir d1 = (None, d1))"
proof -
  let ?es = "order_by (asc en_name ties) es" and ?d = "d\<lparr>mg_table := True\<rparr>"
  have served: "ApplyMigrations script fs (\<lambda>n. Served) (\<lambda>k d. d) dir c = apply_entries script (\<lambda>n. Served) (\<lambda>k d. d) 1 ?es (c\<lparr>mg_table := True\<rparr>)" for c
    using assms(1,2) by (simp add: ApplyMigrations_def Let_def)
  have "distinct (map en_name ?es)" using assms(3) by simp
  then have "inj_on en_name (set ?es)" "distinct ?es" by (simp_all add: distinct_map)
  then have "inj_on version (set (filter is_migration ?es))" by (auto simp: inj_on_def dest: version_inj)
  then have dist: "distinct (map fst (files ?es))" using \<open>distinct ?es\<close> by (simp add: files_def distinct_map comp_def)
  show ?thesis
  proof (cases "net 0 = Served")
    case True
    then have run: "apply_entries script net (\<lambda>k d. d) 1 ?es ?d = (r, d1)"
      using assms(1,2,4) by (simp add: ApplyMigrations_def Let_def)
    obtain n where n: "advanced script (take n (pending ?es ?d)) ?d d1" "r = None \<longrightarrow> length (pending ?es ?d) \<le> n"
      using apply_entries_prefix [OF dist _ run] by auto
    then have table: "mg_table d1" by (auto simp: advanced_def)
    then have same: "d1\<lparr>mg_table := True\<rparr> = d1" by simp
    have "pending ?es d1 = []" if "r = None"
      using n that by (auto simp: advanced_def pending_def filter_empty_conv image_iff)
    then have "r = None \<longrightarrow> apply_entries script (\<lambda>n. Served) (\<lambda>k d. d) 1 ?es d1 = (None, d1)"
      using served_known [OF table] by blast
    then show ?thesis
      unfolding served same using served_resumes [OF dist _ n(1), of 1 1] by simp
  next
    case False
    then have "r \<noteq> None" "d1 = d \<or> d1 = ?d"
      using assms(1,2,4) by (cases "net 0"; auto simp: ApplyMigrations_def Let_def)+
    then show ?thesis by (auto simp: served)
  qed
qed

text \<open>An example: two files and a note, where a script appends itself to the schema.\<close>

definition sample_files :: "entry list" where
  "sample_files = [\<lparr>en_name = ''0002_b.sql'', en_dir = False, en_text = Some ''B''\<rparr>,
     \<lparr>en_name = ''readme.md'', en_dir = False, en_text = None\<rparr>,
     \<lparr>en_name = ''0001_a.sql'', en_dir = False, en_text = Some ''A-- +goose Down C''\<rparr>]"

definition sample_fs :: "string \<Rightarrow> directory option" where
  "sample_fs dir = (if dir = ''migrations'' then Some \<lparr>dir_entries = Some sample_files\<rparr> else None)"

definition sample_script :: "string \<Rightarrow> string list \<Rightarrow> string list option" where
  "sample_script up s = Some (s @ [up])"

definition sample_texts :: "string \<Rightarrow> string" where
  "sample_texts v = (if v = ''0001_a'' then ''A'' else ''B'')"

definition fresh_schema :: "string list schema" where
  "fresh_schema = \<lparr>mg_table = False, mg_versions = [], mg_schema = []\<rparr>"

theorem migrations_exactly_once_witness:
  "mg_schema (snd (ApplyMigrations sample_script sample_fs all_served (\<lambda>k d. d) ''migrations'' fresh_schema)) = [''A'', ''B'']"
proof -
  obtain r d' where run: "ApplyMigrations sample_script sample_fs all_served (\<lambda>k d. d) ''migrations'' fresh_schema = (r, d')"
    by (rule prod.exhaust)
  have "mg_versions (snd (ApplyMigrations sample_script sample_fs all_served (\<lambda>k d. d) ''migrations'' fresh_schema)) = [''0001_a'', ''0002_b'']"
    by code_simp
  moreover have "same_release sample_texts sample_files" by code_simp
  moreover have "migrated sample_script sample_texts [] fresh_schema" by (simp add: migrated_def fresh_schema_def)
  ultimately have "migrated sample_script sample_texts [] d'"
    using migrations_exactly_once [OF _ _ _ _ _ run, of sample_texts sample_files "[]"] by (simp add: sample_fs_def)
  then show ?thesis
    using run \<open>mg_versions _ = _\<close> by (simp add: migrated_def sample_script_def sample_texts_def)
qed

theorem migrations_resume_witness:
  "ApplyMigrations sample_script sample_fs all_served (\<lambda>k d. d) ''migrations''
      (snd (ApplyMigrations sample_script sample_fs (\<lambda>n. if n = 9 then AckLost else Served) (\<lambda>k d. d) ''migrations'' fresh_schema)) =
    ApplyMigrations sample_script sample_fs all_served (\<lambda>k d. d) ''migrations'' fresh_schema"
proof -
  obtain r d1 where run: "ApplyMigrations sample_script sample_fs (\<lambda>n. if n = 9 then AckLost else Served) (\<lambda>k d. d) ''migrations'' fresh_schema = (r, d1)"
    by (rule prod.exhaust)
  have "distinct (map en_name sample_files)" by code_simp
  then show ?thesis
    using migrations_resume [OF _ _ _ run, of sample_files] run by (simp add: sample_fs_def)
qed

end
