(* ===== verification/Startup.thy ===== *)
theory Startup
  imports Config
begin

text \<open>
  How the processes of \<open>cmd/pulsequeue/main.go\<close> start and stop. The first part is the order in which the
  server, the scheduler and the worker acquire what they need and give it back: \<open>defer\<close> runs on every
  return, last in first out. What each step of a library answers is a \<open>boot\<close>. The second part is the
  end of the server: its goroutines, the channel \<open>errCh\<close> and the \<open>select\<close> of the main goroutine as a step
  relation, with \<open>Serve\<close> of \<open>internal/grpcserver\<close>.
\<close>

section \<open>Acquiring and releasing\<close>

datatype tracing = NoTracing | Exporting string string

datatype resource = SignalContext | TraceProvider tracing | StorePool string | NatsConnection string

datatype action =
    Acquire resource | Release resource
  | Migrate | RegisterCollector | ServeMetricsAt string
  | ServeAPI string string | RunScheduler scheduler | RunWorker runner

text \<open>The errors that the libraries answer with, None where a call succeeds.\<close>

record boot =
  b_exporter :: "string option"
  b_resource :: "string option"
  b_listen :: "string option"
  b_open :: "string option"
  b_migrate :: "string option"
  b_nats :: "string option"
  b_run :: "string option"

type_synonym process = "action list \<times> string option"

definition finish :: "string option \<Rightarrow> process" where
  "finish r = ([], r)"

definition perform_first :: "action \<Rightarrow> process \<Rightarrow> process" where
  "perform_first a p = (a # fst p, snd p)"

text \<open>\<open>x, err := ...; if err != nil { return err }; defer x.Close()\<close> and what follows.\<close>

definition with_resource :: "string option \<Rightarrow> resource \<Rightarrow> process \<Rightarrow> process" where
  "with_resource e r p = (case e of Some m \<Rightarrow> ([], Some m) | None \<Rightarrow> (Acquire r # fst p @ [Release r], snd p))"

definition guarded :: "string option \<Rightarrow> process \<Rightarrow> process" where
  "guarded e p = (case e of Some m \<Rightarrow> finish (Some m) | None \<Rightarrow> p)"

definition InitTracing :: "boot \<Rightarrow> string \<Rightarrow> string \<Rightarrow> string + tracing" where
  "InitTracing b serviceName endpoint =
     (let serviceName = (if serviceName = [] then ''pulsequeue'' else serviceName)
      in if TrimSpace endpoint = [] then Inr NoTracing
         else (case b_exporter b of
             Some e \<Rightarrow> Inl e
           | None \<Rightarrow> (case b_resource b of
               Some e \<Rightarrow> Inl e
             | None \<Rightarrow> Inr (Exporting serviceName (normalizeOTLPEndpoint endpoint)))))"

definition with_tracing :: "boot \<Rightarrow> config \<Rightarrow> string \<Rightarrow> process \<Rightarrow> process" where
  "with_tracing b c service p =
       (case InitTracing b (serviceNameOrDefault c service) (OTLPEndpoint c) of
        Inl e \<Rightarrow> finish (Some e)
      | Inr tr \<Rightarrow> with_resource None (TraceProvider tr) p)"

text \<open>An empty address serves no metrics.\<close>

definition ServeMetrics :: "boot \<Rightarrow> string \<Rightarrow> process \<Rightarrow> process" where
  "ServeMetrics b addr p =
     (if addr = [] then p else guarded (b_listen b) (perform_first (ServeMetricsAt addr) p))"

definition server_process :: "boot \<Rightarrow> config \<Rightarrow> process" where
  "server_process b c = guarded (ValidateServer c)
     (with_resource None SignalContext
       (with_tracing b c ''pulsequeue-api''
         (with_resource (b_open b) (StorePool (DatabaseURL c))
           (guarded (b_migrate b) (perform_first Migrate (perform_first RegisterCollector
             (with_resource (b_nats b) (NatsConnection (NATSURL c))
               (perform_first (ServeAPI (HTTPAddr c) (GRPCAddr c)) (finish (b_run b))))))))))"

definition scheduler_process :: "boot \<Rightarrow> config \<Rightarrow> process" where
  "scheduler_process b c =
     (case scheduler_command c of
        Inl e \<Rightarrow> finish (Some e)
      | Inr r \<Rightarrow> with_resource None SignalContext
          (with_tracing b c ''pulsequeue-scheduler''
            (ServeMetrics b (MetricsAddr c)
              (with_resource (b_open b) (StorePool (DatabaseURL c))
                (with_resource (b_nats b) (NatsConnection (NATSURL c))
                  (perform_first (RunScheduler r) (finish (b_run b))))))))"

definition worker_process :: "boot \<Rightarrow> config \<Rightarrow> string option \<Rightarrow> int option \<Rightarrow> process" where
  "worker_process b c queue concurrency =
     (case worker_command c queue concurrency of
        Inl e \<Rightarrow> finish (Some e)
      | Inr r \<Rightarrow> with_resource None SignalContext
          (with_tracing b c ''pulsequeue-worker''
            (ServeMetrics b (MetricsAddr c)
              (with_resource (b_open b) (StorePool (DatabaseURL c))
                (with_resource (b_nats b) (NatsConnection (NATSURL c))
                  (perform_first (RunWorker r) (finish (b_run b))))))))"

section \<open>Stopping the server\<close>

text \<open>
  The goroutines of the HTTP and the gRPC server: each serves, may hold a value that it is sending into
  \<open>errCh\<close>, and is gone afterwards. A send waits while the channel is full. \<open>ListenAndServe\<close> always returns an
  error; it is sent unless it is \<open>ErrServerClosed\<close>, which it is only after \<open>Shutdown\<close> has been called. \<open>Serve\<close>
  of the gRPC server answers nil only after \<open>GracefulStop\<close>, which waits for the context. \<open>sv_signal\<close>: the
  context is done, which before the return of the command only a signal brings about.

  Of \<open>net/http\<close>: \<open>sv_listening\<close> while the accept loop runs, \<open>sv_idle\<close> and \<open>sv_active\<close> count the connections
  without and with a request that is being handled. \<open>Shutdown\<close> first marks the server, ends the
  accept loop and waits for it; then it closes idle connections and returns (nil, or the error of closing the
  listener) once no connection is active, and the error of its context when the ten seconds are over before.
\<close>

definition errCh_capacity :: nat where
  "errCh_capacity = 2"

datatype goroutine = Serves | Sends "string option" | Ended

datatype main_state = Selecting | ShuttingDown | Returned "string option" bool

record serving =
  sv_signal :: bool
  sv_http :: goroutine
  sv_grpc :: goroutine
  sv_errCh :: "string option list"
  sv_main :: main_state
  sv_inShutdown :: bool
  sv_listening :: bool
  sv_idle :: nat
  sv_active :: nat

definition serving_init :: serving where
  "serving_init = \<lparr>sv_signal = False, sv_http = Serves, sv_grpc = Serves, sv_errCh = [], sv_main = Selecting,
     sv_inShutdown = False, sv_listening = False, sv_idle = 0, sv_active = 0\<rparr>"

inductive serving_step :: "serving \<Rightarrow> serving \<Rightarrow> bool" where
  signal: "serving_step s (s\<lparr>sv_signal := True\<rparr>)"
| http_listens: "sv_http s = Serves \<Longrightarrow> \<not> sv_inShutdown s \<Longrightarrow> serving_step s (s\<lparr>sv_listening := True\<rparr>)"
| http_accepts: "sv_listening s \<Longrightarrow> serving_step s (s\<lparr>sv_idle := Suc (sv_idle s)\<rparr>)"
| request_starts: "sv_idle s = Suc n \<Longrightarrow> serving_step s (s\<lparr>sv_idle := n, sv_active := Suc (sv_active s)\<rparr>)"
| request_ends: "sv_active s = Suc n \<Longrightarrow> serving_step s (s\<lparr>sv_active := n, sv_idle := Suc (sv_idle s)\<rparr>)"
| idle_closes: "sv_idle s = Suc n \<Longrightarrow> serving_step s (s\<lparr>sv_idle := n\<rparr>)"
| http_fails: "sv_http s = Serves \<Longrightarrow> serving_step s (s\<lparr>sv_http := Sends (Some e), sv_listening := False\<rparr>)"
| http_closed: "sv_http s = Serves \<Longrightarrow> sv_inShutdown s \<Longrightarrow> serving_step s (s\<lparr>sv_http := Ended, sv_listening := False\<rparr>)"
| http_sends: "sv_http s = Sends r \<Longrightarrow> length (sv_errCh s) < errCh_capacity \<Longrightarrow>
    serving_step s (s\<lparr>sv_http := Ended, sv_errCh := sv_errCh s @ [r]\<rparr>)"
| grpc_returns: "sv_grpc s = Serves \<Longrightarrow> r = None \<longrightarrow> sv_signal s \<Longrightarrow> serving_step s (s\<lparr>sv_grpc := Sends r\<rparr>)"
| grpc_sends: "sv_grpc s = Sends r \<Longrightarrow> length (sv_errCh s) < errCh_capacity \<Longrightarrow>
    serving_step s (s\<lparr>sv_grpc := Ended, sv_errCh := sv_errCh s @ [r]\<rparr>)"
| select_error: "sv_main s = Selecting \<Longrightarrow> sv_errCh s = r # rest \<Longrightarrow>
    serving_step s (s\<lparr>sv_errCh := rest, sv_main := Returned r False\<rparr>)"
| select_done: "sv_main s = Selecting \<Longrightarrow> sv_signal s \<Longrightarrow>
    serving_step s (s\<lparr>sv_main := ShuttingDown, sv_inShutdown := True\<rparr>)"
| shutdown_drained: "sv_main s = ShuttingDown \<Longrightarrow> \<not> sv_listening s \<Longrightarrow> sv_active s = 0 \<Longrightarrow>
    serving_step s (s\<lparr>sv_idle := 0, sv_main := Returned r True\<rparr>)"
| shutdown_expires: "sv_main s = ShuttingDown \<Longrightarrow> serving_step s (s\<lparr>sv_main := Returned (Some e) True\<rparr>)"

inductive_cases serving_stepE: "serving_step s s'"

abbreviation reachable_serving :: "serving \<Rightarrow> bool" where
  "reachable_serving \<equiv> serving_step\<^sup>*\<^sup>* serving_init"

section \<open>Facts\<close>

text \<open>The resources held after some actions, the last one first; None where a release is out of order.\<close>

fun held :: "action list \<Rightarrow> resource list \<Rightarrow> resource list option" where
  "held [] rs = Some rs"
| "held (Acquire r # acts) rs = held acts (r # rs)"
| "held (Release r # acts) rs = (case rs of [] \<Rightarrow> None | x # xs \<Rightarrow> if x = r then held acts xs else None)"
| "held (_ # acts) rs = held acts rs"

lemma held_append: "held acts rs = Some rs' \<Longrightarrow> held (acts @ bs) rs = held bs rs'"
  by (induction acts rs rule: held.induct) (auto split: list.splits if_splits)

definition tidy :: "process \<Rightarrow> bool" where
  "tidy p \<longleftrightarrow> (\<forall>rs. held (fst p) rs = Some rs)"

named_theorems tidy_rules \<open>processes that release what they acquire\<close>

lemma tidy_finish [tidy_rules]: "tidy (finish r)"
  by (simp add: tidy_def finish_def)

lemma tidy_with [tidy_rules]: "tidy p \<Longrightarrow> tidy (with_resource e r p)"
  by (auto simp: tidy_def with_resource_def held_append split: option.split)

lemma tidy_first [tidy_rules]:
  "tidy p \<Longrightarrow> tidy (perform_first Migrate p)" "tidy p \<Longrightarrow> tidy (perform_first RegisterCollector p)"
  "tidy p \<Longrightarrow> tidy (perform_first (ServeMetricsAt a) p)" "tidy p \<Longrightarrow> tidy (perform_first (ServeAPI a g) p)"
  "tidy p \<Longrightarrow> tidy (perform_first (RunScheduler sc) p)" "tidy p \<Longrightarrow> tidy (perform_first (RunWorker r) p)"
  by (simp_all add: tidy_def perform_first_def)

lemma tidy_guarded [tidy_rules]: "tidy p \<Longrightarrow> tidy (guarded e p)"
  by (cases e) (simp_all add: guarded_def tidy_finish)

lemma tidy_tracing [tidy_rules]: "tidy p \<Longrightarrow> tidy (with_tracing b c service p)"
  by (auto simp: with_tracing_def intro: tidy_rules split: sum.split)

lemma tidy_metrics [tidy_rules]: "tidy p \<Longrightarrow> tidy (ServeMetrics b addr p)"
  by (simp add: ServeMetrics_def tidy_rules)

lemma tidy_processes: "tidy (server_process b c)" "tidy (scheduler_process b c)" "tidy (worker_process b c queue n)"
  by (auto simp: server_process_def scheduler_process_def worker_process_def intro!: tidy_rules split: sum.split)

definition serves :: "process \<Rightarrow> bool" where
  "serves p \<longleftrightarrow> list_ex (\<lambda>a. case a of ServeAPI h g \<Rightarrow> True | _ \<Rightarrow> False) (fst p)"

lemmas process_defs = guarded_def with_resource_def with_tracing_def perform_first_def finish_def serves_def

abbreviation (input) server_tracing :: "boot \<Rightarrow> config \<Rightarrow> string + tracing" where
  "server_tracing b c \<equiv> InitTracing b (serviceNameOrDefault c ''pulsequeue-api'') (OTLPEndpoint c)"

lemma server_ready:
  assumes "ValidateServer c = None" and "server_tracing b c = Inr tr"
    and "b_open b = None" and "b_migrate b = None" and "b_nats b = None"
  shows "server_process b c =
    ([Acquire SignalContext, Acquire (TraceProvider tr), Acquire (StorePool (DatabaseURL c)), Migrate, RegisterCollector,
      Acquire (NatsConnection (NATSURL c)), ServeAPI (HTTPAddr c) (GRPCAddr c), Release (NatsConnection (NATSURL c)),
      Release (StorePool (DatabaseURL c)), Release (TraceProvider tr), Release SignalContext], b_run b)"
  by (simp add: server_process_def process_defs assms)

lemma server_not_ready:
  assumes "ValidateServer c \<noteq> None \<or> isl (server_tracing b c) \<or> b_open b \<noteq> None \<or> b_migrate b \<noteq> None \<or> b_nats b \<noteq> None"
  shows "\<not> serves (server_process b c) \<and> snd (server_process b c) \<noteq> None"
  using assms
  by (cases "ValidateServer c"; cases "server_tracing b c"; cases "b_open b"; cases "b_migrate b"; cases "b_nats b";
      simp add: server_process_def process_defs)

lemma server_outcome:
  "(case InitTracing b (serviceNameOrDefault c ''pulsequeue-api'') (OTLPEndpoint c) of
      Inl e \<Rightarrow> \<not> serves (server_process b c) \<and> snd (server_process b c) \<noteq> None
    | Inr tr \<Rightarrow>
        if ValidateServer c = None \<and> b_open b = None \<and> b_migrate b = None \<and> b_nats b = None
        then server_process b c =
          ([Acquire SignalContext, Acquire (TraceProvider tr), Acquire (StorePool (DatabaseURL c)), Migrate, RegisterCollector,
            Acquire (NatsConnection (NATSURL c)), ServeAPI (HTTPAddr c) (GRPCAddr c), Release (NatsConnection (NATSURL c)),
            Release (StorePool (DatabaseURL c)), Release (TraceProvider tr), Release SignalContext], b_run b)
        else \<not> serves (server_process b c) \<and> snd (server_process b c) \<noteq> None)"
proof (cases "server_tracing b c")
  case (Inl e)
  then show ?thesis using server_not_ready [of c b] by simp
next
  case (Inr tr)
  show ?thesis
  proof (cases "ValidateServer c = None \<and> b_open b = None \<and> b_migrate b = None \<and> b_nats b = None")
    case True
    then show ?thesis using server_ready [OF _ Inr] Inr by simp
  next
    case False
    then show ?thesis using server_not_ready [of c b] Inr by auto
  qed
qed

section \<open>Properties\<close>

text \<open>
  Processes release what they acquire, and the server serves only when it is ready. On every path
  through the start of a process, whatever fails, the resources are released in the reverse order of their
  acquisition and none is left. The server opens its ports exactly when the configuration is complete and
  tracing, database, migrations and NATS have answered; then the migrations have run and all resources are
  held while it serves, and otherwise it returns an error.
\<close>

lemma processes_start_and_stop:
  "held (fst (server_process b c)) [] = Some [] \<and>
   held (fst (scheduler_process b c)) [] = Some [] \<and>
   held (fst (worker_process b c queue n)) [] = Some [] \<and>
   (case InitTracing b (serviceNameOrDefault c ''pulsequeue-api'') (OTLPEndpoint c) of
      Inl e \<Rightarrow> \<not> serves (server_process b c) \<and> snd (server_process b c) \<noteq> None
    | Inr tr \<Rightarrow>
        if ValidateServer c = None \<and> b_open b = None \<and> b_migrate b = None \<and> b_nats b = None
        then server_process b c =
          ([Acquire SignalContext, Acquire (TraceProvider tr), Acquire (StorePool (DatabaseURL c)), Migrate, RegisterCollector,
            Acquire (NatsConnection (NATSURL c)), ServeAPI (HTTPAddr c) (GRPCAddr c), Release (NatsConnection (NATSURL c)),
            Release (StorePool (DatabaseURL c)), Release (TraceProvider tr), Release SignalContext], b_run b)
        else \<not> serves (server_process b c) \<and> snd (server_process b c) \<noteq> None)"
proof (intro conjI)
  show "held (fst (server_process b c)) [] = Some []" "held (fst (scheduler_process b c)) [] = Some []"
    "held (fst (worker_process b c queue n)) [] = Some []"
    using tidy_processes by (simp_all add: tidy_def)
qed (rule server_outcome)

text \<open>What the states of the server keep: the channel holds or has handed out a value for each sender that ended.\<close>

definition unsent :: "goroutine \<Rightarrow> nat" where
  "unsent g = (if g = Ended then 0 else 1)"

lemma unsent_simps [simp]: "unsent Serves = 1" "unsent (Sends r) = 1" "unsent Ended = 0"
  by (simp_all add: unsent_def)

lemma unsent_le: "unsent g \<le> 1"
  by (cases g) simp_all

definition serving_ok :: "serving \<Rightarrow> bool" where
  "serving_ok s \<longleftrightarrow>
     length (sv_errCh s) + unsent (sv_http s) + unsent (sv_grpc s) \<le> errCh_capacity \<and>
     (None \<in> set (sv_errCh s) \<or> sv_grpc s = Sends None \<longrightarrow> sv_signal s) \<and> sv_http s \<noteq> Sends None \<and>
     (sv_inShutdown s \<longrightarrow> sv_main s \<noteq> Selecting) \<and>
     (case sv_main s of
        Selecting \<Rightarrow> length (sv_errCh s) + unsent (sv_http s) + unsent (sv_grpc s) = 2
      | ShuttingDown \<Rightarrow> sv_signal s \<and> sv_inShutdown s
      | Returned r graceful \<Rightarrow> (r = None \<or> graceful \<longrightarrow> sv_signal s) \<and>
          (graceful \<longrightarrow> sv_inShutdown s) \<and>
          (graceful \<and> r = None \<longrightarrow> \<not> sv_listening s \<and> sv_idle s = 0 \<and> sv_active s = 0))"

lemma serving_ok_step: "serving_step s s' \<Longrightarrow> serving_ok s \<Longrightarrow> serving_ok s'"
  by (induction rule: serving_step.induct) (auto simp: serving_ok_def split: main_state.splits)

interpretation server: inductive_invariant serving_step serving_init serving_ok
proof
  show "serving_ok serving_init" by (simp add: serving_ok_def serving_init_def errCh_capacity_def)
qed (rule serving_ok_step)

lemma serving_ok: "reachable_serving s \<Longrightarrow> serving_ok s"
  using server.good_run server.good_init by blast

text \<open>
  C40. The server stops soundly. In every state that its goroutines can reach: a goroutine that has a
  value for the error channel can send it at once, so that none is ever left blocked, also after the command
  has returned; while the command waits, the end of a server is in the channel or about to be, so that it
  is noticed; the command returns success, or shuts its HTTP server down, only after a signal; and when a
  shutdown succeeds, no listener, no connection and no request is left. (A shutdown that fails may leave
  requests behind: \<open>shutdown_may_expire\<close>.)
\<close>

theorem server_stops_soundly:
  assumes "reachable_serving s"
  shows "(\<forall>r. sv_http s = Sends r \<longrightarrow> serving_step s (s\<lparr>sv_http := Ended, sv_errCh := sv_errCh s @ [r]\<rparr>)) \<and>
    (\<forall>r. sv_grpc s = Sends r \<longrightarrow> serving_step s (s\<lparr>sv_grpc := Ended, sv_errCh := sv_errCh s @ [r]\<rparr>)) \<and>
    (sv_main s = Selecting \<and> (sv_http s = Ended \<or> sv_grpc s = Ended) \<longrightarrow> sv_errCh s \<noteq> []) \<and>
    (sv_main s = ShuttingDown \<longrightarrow> sv_signal s) \<and>
    (\<forall>r graceful. sv_main s = Returned r graceful \<longrightarrow>
       (r = None \<or> graceful \<longrightarrow> sv_signal s) \<and>
       (graceful \<and> r = None \<longrightarrow> \<not> sv_listening s \<and> sv_idle s = 0 \<and> sv_active s = 0))"
proof -
  have ok: "serving_ok s" by (rule serving_ok [OF assms])
  have "length (sv_errCh s) < errCh_capacity" if "sv_http s = Sends r \<or> sv_grpc s = Sends r" for r
    using ok that by (auto simp: serving_ok_def)
  moreover have "sv_errCh s \<noteq> []" if "sv_main s = Selecting" "sv_http s = Ended \<or> sv_grpc s = Ended"
    using ok that unsent_le [of "sv_http s"] unsent_le [of "sv_grpc s"] by (auto simp: serving_ok_def)
  ultimately show ?thesis
    using ok by (auto simp: serving_ok_def intro: serving_step.http_sends serving_step.grpc_sends split: main_state.splits)
qed

text \<open>A signal while a request is handled: the steps to the state where main is shutting down.\<close>

lemma busy_server:
  defines "s \<equiv> serving_init\<lparr>sv_listening := True, sv_active := 1, sv_signal := True\<rparr>"
  shows "reachable_serving s"
proof -
  let ?s1 = "serving_init\<lparr>sv_listening := True\<rparr>"
  let ?s2 = "?s1\<lparr>sv_idle := Suc (sv_idle ?s1)\<rparr>"
  let ?s3 = "?s2\<lparr>sv_idle := 0, sv_active := Suc (sv_active ?s2)\<rparr>"
  have "serving_step serving_init ?s1" by (rule serving_step.http_listens) (simp_all add: serving_init_def)
  moreover have "serving_step ?s1 ?s2" by (rule serving_step.http_accepts) simp
  moreover have "serving_step ?s2 ?s3" by (rule serving_step.request_starts) (simp add: serving_init_def)
  moreover have "serving_step ?s3 (?s3\<lparr>sv_signal := True\<rparr>)" by (rule serving_step.signal)
  moreover have "?s3\<lparr>sv_signal := True\<rparr> = s" by (simp add: s_def serving_init_def)
  ultimately show ?thesis by (metis (no_types, lifting) rtranclp.simps)
qed

text \<open>
  After a signal the gRPC server returns nil into the channel, and \<open>select\<close> may take that value: then the
  server returns without \<open>Shutdown\<close>, while HTTP requests are still being served.
\<close>

lemma shutdown_can_be_skipped:
  "\<exists>s. reachable_serving s \<and> sv_main s = Returned None False \<and> sv_active s = 1"
proof -
  let ?s0 = "serving_init\<lparr>sv_listening := True, sv_active := 1, sv_signal := True\<rparr>"
  let ?s1 = "?s0\<lparr>sv_grpc := Sends None\<rparr>"
  let ?s2 = "?s1\<lparr>sv_grpc := Ended, sv_errCh := sv_errCh ?s1 @ [None]\<rparr>"
  let ?s3 = "?s2\<lparr>sv_errCh := [], sv_main := Returned None False\<rparr>"
  have "serving_step ?s0 ?s1" by (rule serving_step.grpc_returns) (simp_all add: serving_init_def)
  moreover have "serving_step ?s1 ?s2" by (rule serving_step.grpc_sends) (simp_all add: serving_init_def errCh_capacity_def)
  moreover have "serving_step ?s2 ?s3" by (rule serving_step.select_error) (simp_all add: serving_init_def)
  ultimately have "reachable_serving ?s3" using busy_server by (meson rtranclp.rtrancl_into_rtrancl)
  then show ?thesis by (intro exI [of _ ?s3]) simp
qed

text \<open>A shutdown whose ten seconds are over returns an error and leaves the requests that are still being handled.\<close>

lemma shutdown_may_expire:
  "\<exists>s. reachable_serving s \<and> sv_main s = Returned (Some e) True \<and> sv_active s = 1"
proof -
  let ?s0 = "serving_init\<lparr>sv_listening := True, sv_active := 1, sv_signal := True\<rparr>"
  let ?s1 = "?s0\<lparr>sv_main := ShuttingDown, sv_inShutdown := True\<rparr>"
  let ?s2 = "?s1\<lparr>sv_main := Returned (Some e) True\<rparr>"
  have "serving_step ?s0 ?s1" by (rule serving_step.select_done) (simp_all add: serving_init_def)
  moreover have "serving_step ?s1 ?s2" by (rule serving_step.shutdown_expires) simp
  ultimately have "reachable_serving ?s2" using busy_server by (meson rtranclp.rtrancl_into_rtrancl)
  then show ?thesis by (intro exI [of _ ?s2]) simp
qed

text \<open>Both goroutines fail at once: the command has returned the first error and the second is still sent.\<close>

lemma both_fail: "\<exists>s. reachable_serving s \<and> sv_http s = Sends (Some ''http'') \<and> sv_errCh s = [Some ''grpc'']"
proof -
  let ?s1 = "serving_init\<lparr>sv_grpc := Sends (Some ''grpc'')\<rparr>"
  let ?s2 = "?s1\<lparr>sv_grpc := Ended, sv_errCh := sv_errCh ?s1 @ [Some ''grpc'']\<rparr>"
  let ?s3 = "?s2\<lparr>sv_http := Sends (Some ''http''), sv_listening := False\<rparr>"
  have "serving_step serving_init ?s1" by (rule serving_step.grpc_returns) (simp_all add: serving_init_def)
  moreover have "serving_step ?s1 ?s2" by (rule serving_step.grpc_sends) (simp_all add: serving_init_def errCh_capacity_def)
  moreover have "serving_step ?s2 ?s3" by (rule serving_step.http_fails) (simp add: serving_init_def)
  ultimately have "reachable_serving ?s3" by (meson converse_rtranclp_into_rtranclp rtranclp.rtrancl_refl)
  then show ?thesis by (intro exI [of _ ?s3]) (simp add: serving_init_def)
qed

theorem server_stops_soundly_witness:
  "\<exists>s s'. reachable_serving s \<and> serving_step s s' \<and> sv_http s' = Ended \<and> sv_errCh s' = [Some ''grpc'', Some ''http'']"
proof -
  obtain s where s: "reachable_serving s" "sv_http s = Sends (Some ''http'')" "sv_errCh s = [Some ''grpc'']"
    using both_fail by blast
  from server_stops_soundly [OF s(1)] s(2)
  have "serving_step s (s\<lparr>sv_http := Ended, sv_errCh := sv_errCh s @ [Some ''http'']\<rparr>)" by blast
  with s show ?thesis by (intro exI conjI) (auto simp: s(3))
qed

end
