(* ===== verification/Connections.thy ===== *)
theory Connections
  imports Api Startup
begin

text \<open>
  The connections of a process: the pool of PostgreSQL (\<open>Open\<close>, \<open>Close\<close> of \<open>internal/storage\<close>), the client
  of NATS (\<open>internal/signals/nats.go\<close>), the health service over gRPC (\<open>internal/grpcserver/server.go\<close>), and
  the trace context that travels with a job (\<open>internal/observability/tracing.go\<close>). The libraries' answers
  are arguments: None for success, Some error otherwise. \<open>Ping\<close> of NATS and \<open>Serve\<close> of gRPC run a goroutine
  beside a blocking call and are step relations.
\<close>

section \<open>The connection pool\<close>

datatype pool_action = PoolNew string | PoolPing | PoolClose

record store =
  st_pool :: "string option"

definition Open :: "string option \<Rightarrow> string option \<Rightarrow> string \<Rightarrow> pool_action list \<times> (string + store)" where
  "Open created ping databaseURL =
     (case created of
        Some e \<Rightarrow> ([PoolNew databaseURL], Inl e)
      | None \<Rightarrow> (case ping of
          Some e \<Rightarrow> ([PoolNew databaseURL, PoolPing, PoolClose], Inl e)
        | None \<Rightarrow> ([PoolNew databaseURL, PoolPing], Inr \<lparr>st_pool = Some databaseURL\<rparr>)))"

definition Store_Close :: "store option \<Rightarrow> pool_action list" where
  "Store_Close s = (case s of None \<Rightarrow> [] | Some s \<Rightarrow> if st_pool s \<noteq> None then [PoolClose] else [])"

section \<open>The client of NATS\<close>

datatype nats_action = NatsConnect string duration string | NatsDrain | NatsClose

record nats_client =
  cl_conn :: "string option"

definition Connect :: "string option \<Rightarrow> string \<Rightarrow> nats_action list \<times> (string + nats_client)" where
  "Connect answer url =
     ([NatsConnect url (5 * second) ''pulsequeue''],
      case answer of Some e \<Rightarrow> Inl e | None \<Rightarrow> Inr \<lparr>cl_conn = Some url\<rparr>)"

definition Client_Close :: "nats_client option \<Rightarrow> nats_action list" where
  "Client_Close c =
     (case c of None \<Rightarrow> [] | Some c \<Rightarrow> if cl_conn c \<noteq> None then [NatsDrain, NatsClose] else [])"

text \<open>
  \<open>Ping\<close>: a goroutine flushes and sends the answer into the channel \<open>done\<close>, which holds one value, while
  \<open>select\<close> waits for the channel and for the context. \<open>pg_answer\<close> remembers what \<open>Flush\<close> answered.
\<close>

datatype flusher = Flushing | Sending "string option" | Finished

record pinging =
  pg_flusher :: flusher
  pg_answer :: "string option option"
  pg_done :: "string option list"
  pg_ctx :: "string option"
  pg_result :: "string option option"

definition ping_init :: pinging where
  "ping_init = \<lparr>pg_flusher = Flushing, pg_answer = None, pg_done = [], pg_ctx = None, pg_result = None\<rparr>"

inductive ping_step :: "pinging \<Rightarrow> pinging \<Rightarrow> bool" where
  flushed: "pg_flusher s = Flushing \<Longrightarrow> ping_step s (s\<lparr>pg_flusher := Sending r, pg_answer := Some r\<rparr>)"
| sent: "pg_flusher s = Sending r \<Longrightarrow> length (pg_done s) < 1 \<Longrightarrow>
    ping_step s (s\<lparr>pg_flusher := Finished, pg_done := pg_done s @ [r]\<rparr>)"
| ctx_ends: "pg_ctx s = None \<Longrightarrow> ping_step s (s\<lparr>pg_ctx := Some e\<rparr>)"
| select_done: "pg_result s = None \<Longrightarrow> pg_done s = r # rest \<Longrightarrow>
    ping_step s (s\<lparr>pg_done := rest, pg_result := Some r\<rparr>)"
| select_ctx: "pg_result s = None \<Longrightarrow> pg_ctx s = Some e \<Longrightarrow> ping_step s (s\<lparr>pg_result := Some (Some e)\<rparr>)"

inductive_cases ping_stepE: "ping_step s s'"

definition Ping :: "nats_client option \<Rightarrow> bool \<Rightarrow> string + pinging" where
  "Ping c connected =
     (case c of
        None \<Rightarrow> Inl ''nats disconnected''
      | Some c \<Rightarrow> if cl_conn c = None \<or> \<not> connected then Inl ''nats disconnected'' else Inr ping_init)"

section \<open>The health service\<close>

datatype health_status = SERVING

text \<open>\<open>New\<close>: what the health service answers for the whole server and for the job service.\<close>

definition grpc_New :: "(string \<times> health_status) list" where
  "grpc_New = [([], SERVING), (''pulsequeue.v1.JobService'', SERVING)]"

text \<open>
  \<open>Serve\<close>: a goroutine calls \<open>GracefulStop\<close> when the context is done; \<open>Serve\<close> of the library answers nil
  only after it has been stopped.
\<close>

record grpc_serving =
  gr_signal :: bool
  gr_stopping :: bool
  gr_result :: "string option option"

definition grpc_init :: grpc_serving where
  "grpc_init = \<lparr>gr_signal = False, gr_stopping = False, gr_result = None\<rparr>"

inductive grpc_step :: "grpc_serving \<Rightarrow> grpc_serving \<Rightarrow> bool" where
  signal: "grpc_step s (s\<lparr>gr_signal := True\<rparr>)"
| graceful_stop: "gr_signal s \<Longrightarrow> grpc_step s (s\<lparr>gr_stopping := True\<rparr>)"
| serve_returns: "gr_result s = None \<Longrightarrow> r = None \<longrightarrow> gr_stopping s \<Longrightarrow> grpc_step s (s\<lparr>gr_result := Some r\<rparr>)"

inductive_cases grpc_stepE: "grpc_step s s'"

definition grpc_Serve :: "string option \<Rightarrow> string + grpc_serving" where
  "grpc_Serve listen = (case listen of Some e \<Rightarrow> Inl e | None \<Rightarrow> Inr grpc_init)"

section \<open>The trace of a job\<close>

text \<open>
  A carrier is what the propagator of OpenTelemetry writes and reads. \<open>carrier\<close> is what it injected,
  \<open>extract\<close> what it makes of a carrier.
\<close>

definition Tracer :: "string \<Rightarrow> string" where
  "Tracer name = (if name = [] then ''github.com/fullstack-nick/PulseQueue'' else name)"

definition carrier_get :: "(string \<rightharpoonup> string) \<Rightarrow> string \<Rightarrow> string" where
  "carrier_get carrier key = (case carrier key of None \<Rightarrow> [] | Some v \<Rightarrow> v)"

definition InjectTraceContext :: "(string \<rightharpoonup> string) \<Rightarrow> trace_context" where
  "InjectTraceContext carrier =
     \<lparr>tc_parent = carrier_get carrier ''traceparent'', tc_state = carrier_get carrier ''tracestate''\<rparr>"

definition carrier_of :: "trace_context \<Rightarrow> (string \<rightharpoonup> string)" where
  "carrier_of tc =
     (let c = Map.empty;
          c = (if tc_parent tc \<noteq> [] then c(''traceparent'' \<mapsto> tc_parent tc) else c)
      in if tc_state tc \<noteq> [] then c(''tracestate'' \<mapsto> tc_state tc) else c)"

definition ExtractTraceContext :: "('c \<Rightarrow> (string \<rightharpoonup> string) \<Rightarrow> 'c) \<Rightarrow> 'c \<Rightarrow> trace_context \<Rightarrow> 'c" where
  "ExtractTraceContext extract ctx tc = extract ctx (carrier_of tc)"

section \<open>Pools are closed\<close>

text \<open>How many pools some actions leave open, when \<open>pgxpool.New\<close> answers \<open>created\<close>.\<close>

definition pools_open :: "string option \<Rightarrow> pool_action list \<Rightarrow> int" where
  "pools_open created acts =
     (if created = None then int (length (filter (\<lambda>a. case a of PoolNew u \<Rightarrow> True | _ \<Rightarrow> False) acts)) else 0) -
     int (count_list acts PoolClose)"

text \<open>
  No pool is left behind: an \<open>Open\<close> that fails leaves none open, one that succeeds has an answer to its ping
  and leaves one open, which \<open>Close\<close> closes. Closing a nil store does nothing.
\<close>

lemma Open_leaves_no_pool:
  "case Open created ping url of
     (acts, Inl e) \<Rightarrow> pools_open created acts = 0
   | (acts, Inr st) \<Rightarrow> created = None \<and> ping = None \<and> PoolPing \<in> set acts \<and> pools_open created acts = 1 \<and>
       pools_open created (acts @ Store_Close (Some st)) = 0"
  by (simp add: Open_def Store_Close_def pools_open_def split: option.split)

definition error_of :: "string + 'a \<Rightarrow> string option" where
  "error_of r = (case r of Inl e \<Rightarrow> Some e | Inr a \<Rightarrow> None)"

lemma serves_when_connected:
  assumes "b_open b = error_of (snd (Open created ping (DatabaseURL c)))"
    and "b_nats b = error_of (snd (Connect answer (NATSURL c)))" and "serves (server_process b c)"
  shows "created = None \<and> ping = None \<and> answer = None"
proof -
  have "b_open b = None" "b_nats b = None" using server_not_ready [of c b] assms(3) by blast+
  then show ?thesis using assms(1,2) by (auto simp: Open_def Connect_def error_of_def split: option.splits)
qed

section \<open>A ping tells the truth\<close>

definition ping_ok :: "pinging \<Rightarrow> bool" where
  "ping_ok s \<longleftrightarrow>
     (case pg_flusher s of
        Flushing \<Rightarrow> pg_answer s = None \<and> pg_done s = [] \<and> (pg_result s \<noteq> None \<longrightarrow> pg_result s = Some (pg_ctx s) \<and> pg_ctx s \<noteq> None)
      | Sending r \<Rightarrow> pg_answer s = Some r \<and> pg_done s = [] \<and> (pg_result s \<noteq> None \<longrightarrow> pg_result s = Some (pg_ctx s) \<and> pg_ctx s \<noteq> None)
      | Finished \<Rightarrow> (\<exists>r. pg_answer s = Some r \<and>
          (pg_done s = [r] \<and> (pg_result s \<noteq> None \<longrightarrow> pg_result s = Some (pg_ctx s) \<and> pg_ctx s \<noteq> None) \<or>
           pg_done s = [] \<and> pg_result s = Some r)))"

interpretation pinging: inductive_invariant ping_step ping_init ping_ok
proof
  show "ping_ok ping_init" by (simp add: ping_ok_def ping_init_def)
  fix s s'
  assume "ping_ok s" and "ping_step s s'"
  from this(2,1) show "ping_ok s'"
    by (induction rule: ping_step.induct) (auto simp: ping_ok_def split: flusher.splits)
qed

text \<open>
  A ping tells the truth and leaves nothing behind. It answers nil only when NATS has answered the flush,
  and an error only when the flush failed or the context ended; once the flush has been answered or the
  context has ended, it can return; and its goroutine always finds room for its answer, also when nobody
  waits for it any more.
\<close>

lemma ping_tells_the_truth:
  assumes "ping_step\<^sup>*\<^sup>* ping_init s"
  shows "pg_result s = Some None \<longrightarrow> pg_answer s = Some None"
    and "pg_result s = Some (Some e) \<longrightarrow> pg_answer s = Some (Some e) \<or> pg_ctx s = Some e"
    and "pg_flusher s = Sending r \<longrightarrow> pg_done s = []"
proof -
  have "ping_ok s" using pinging.good_run [OF assms] pinging.good_init by simp
  then show "pg_result s = Some None \<longrightarrow> pg_answer s = Some None"
    "pg_result s = Some (Some e) \<longrightarrow> pg_answer s = Some (Some e) \<or> pg_ctx s = Some e"
    "pg_flusher s = Sending r \<longrightarrow> pg_done s = []"
    by (auto simp: ping_ok_def split: flusher.splits)
qed

lemma ping_can_return:
  assumes "ping_step\<^sup>*\<^sup>* ping_init s" and "pg_result s = None" and "pg_ctx s \<noteq> None \<or> pg_flusher s = Finished"
  shows "\<exists>s'. ping_step s s' \<and> pg_result s' \<noteq> None"
  using assms(3)
proof
  assume "pg_ctx s \<noteq> None"
  then obtain x where "pg_ctx s = Some x" by blast
  from ping_step.select_ctx [OF assms(2) this] show ?thesis by (intro exI conjI) (assumption, simp)
next
  have ok: "ping_ok s" using pinging.good_run [OF assms(1)] pinging.good_init by simp
  assume "pg_flusher s = Finished"
  then obtain x where "pg_done s = [x]" using ok assms(2) by (auto simp: ping_ok_def)
  from ping_step.select_done [OF assms(2) this] show ?thesis by (intro exI conjI) (assumption, simp)
qed

text \<open>The ready check answers 200 only when PostgreSQL and NATS have answered.\<close>

lemma ready_when_both_answer:
  assumes "ping_step\<^sup>*\<^sup>* ping_init s"
    and "rs_status (handleReady (postgres = None, pg_result s = Some None)) = StatusOK"
  shows "postgres = None \<and> pg_answer s = Some None"
  using assms(2) ping_tells_the_truth(1) [OF assms(1)]
  by (auto simp: handleReady_def writeError_def split: if_splits)

section \<open>The health service returns nil only after a signal\<close>

definition grpc_ok :: "grpc_serving \<Rightarrow> bool" where
  "grpc_ok s \<longleftrightarrow> (gr_stopping s \<longrightarrow> gr_signal s) \<and> (gr_result s = Some None \<longrightarrow> gr_stopping s)"

interpretation grpc: inductive_invariant grpc_step grpc_init grpc_ok
proof
  show "grpc_ok grpc_init" by (simp add: grpc_ok_def grpc_init_def)
  fix s s'
  assume "grpc_ok s" and "grpc_step s s'"
  from this(2,1) show "grpc_ok s'" by (induction rule: grpc_step.induct) (auto simp: grpc_ok_def)
qed

text \<open>
  This is what \<open>serving_step\<close> relies on: a value that the goroutine of the gRPC server sends is nil only when
  the signal has come. So every result of \<open>Serve\<close> is a step of the server's goroutines.
\<close>

lemma grpc_result_is_a_serving_step:
  assumes "grpc_step\<^sup>*\<^sup>* grpc_init g" and "gr_result g = Some r"
    and "sv_grpc s = Serves" and "gr_signal g \<longrightarrow> sv_signal s"
  shows "serving_step s (s\<lparr>sv_grpc := Sends r\<rparr>)"
proof (rule serving_step.grpc_returns)
  have "grpc_ok g" using grpc.good_run [OF assms(1)] grpc.good_init by simp
  then show "r = None \<longrightarrow> sv_signal s" using assms(2,4) by (auto simp: grpc_ok_def)
qed fact

section \<open>Traces survive the tables\<close>

text \<open>
  Whatever the propagator injected for a new job, by the API or by the scheduler, is what the worker reads
  from the job's row: an absent entry becomes the empty string, NULL in the table, and no entry again. Of
  the other entries (the baggage that \<open>defaultPropagator\<close> also writes) nothing is stored.
\<close>

lemma trace_survives_job:
  "TraceContextFromJob (new_job jsonb now gid (p\<lparr>cp_traceparent := tc_parent tc, cp_tracestate := tc_state tc\<rparr>)) = tc"
  "TraceContextFromJob (cron_fired_job jsonb now gid tc key c) = tc"
  by (simp_all add: TraceContextFromJob_def new_job_def cron_fired_job_def nullif_def)

lemma trace_survives_carrier:
  assumes "\<forall>k. carrier k \<noteq> Some []"
  shows "carrier_of (InjectTraceContext carrier) = carrier |` {''traceparent'', ''tracestate''}"
proof
  fix k
  have "carrier ''traceparent'' \<noteq> Some []" "carrier ''tracestate'' \<noteq> Some []" using assms by simp_all
  then show "carrier_of (InjectTraceContext carrier) k = (carrier |` {''traceparent'', ''tracestate''}) k"
    by (auto simp: carrier_of_def InjectTraceContext_def carrier_get_def restrict_map_def split: option.splits)
qed

lemma restrict_map_all: "dom m \<subseteq> A \<Longrightarrow> m |` A = m"
proof
  fix x
  assume "dom m \<subseteq> A"
  then show "(m |` A) x = m x" by (cases "m x") (auto simp: restrict_map_def)
qed

text \<open>A worker joins the trace of the request that submitted the job.\<close>

lemma worker_joins_trace:
  assumes "\<forall>k. carrier k \<noteq> Some []" and "dom carrier \<subseteq> {''traceparent'', ''tracestate''}"
    and "job = new_job jsonb now gid (create_params_of (InjectTraceContext carrier) req)"
  shows "ExtractTraceContext extract ctx (TraceContextFromJob job) = extract ctx carrier"
proof -
  have "carrier |` {''traceparent'', ''tracestate''} = carrier" by (rule restrict_map_all [OF assms(2)])
  moreover have "TraceContextFromJob job = InjectTraceContext carrier"
    by (simp add: assms(3) TraceContextFromJob_def new_job_def create_params_of_def nullif_def)
  ultimately show ?thesis by (simp add: ExtractTraceContext_def trace_survives_carrier [OF assms(1)])
qed

end
