(* ===== verification/ReadCommitted.thy ===== *)
theory ReadCommitted
  imports LeaseSystem
begin

text \<open>
  Transactions statement by statement, as PostgreSQL runs them at its default level READ COMMITTED. The
  rest of the development takes a transaction to be one atomic step (\<open>run_tx\<close>); here the statements of
  open transactions interleave. What is modelled of PostgreSQL: a statement sees the committed rows and the
  rows that its own transaction has written; it locks the rows that it updates or selects FOR UPDATE, and
  the key that it inserts into a unique index, until the end of its transaction; it waits while another
  transaction holds such a lock, and then looks at the rows again; a commit makes all that was written
  visible at once, a rollback drops it. So a statement reads and locks at one moment, when it has its locks.

  \<open>transactions\<close> states what a set of transaction programs must observe for its interleavings to be as good
  as atomic steps, and proves that they are.
\<close>

section \<open>Row versions and locks\<close>

datatype row_write = SetJob job | SetAttempt attempt | AddAttempt attempt | AddLog job_log

fun put_row :: "row_write \<Rightarrow> db \<Rightarrow> db" where
  "put_row (SetJob k) d = d\<lparr>jobs := update_rows (\<lambda>j. job_id j = job_id k) (\<lambda>_. k) (jobs d)\<rparr>"
| "put_row (SetAttempt b) d =
     d\<lparr>attempts := update_rows (\<lambda>a. att_id a = att_id b \<and> att_job_id a = att_job_id b) (\<lambda>_. b) (attempts d)\<rparr>"
| "put_row (AddAttempt a) d = d\<lparr>attempts := attempts d @ [a]\<rparr>"
| "put_row (AddLog l) d = d\<lparr>logs := logs d @ [l]\<rparr>"

definition put_rows :: "row_write list \<Rightarrow> db \<Rightarrow> db" where
  "put_rows ws d = fold put_row ws d"

datatype lock = JobRow uuid | AttemptKey uuid | LogKey uuid

text \<open>What a client is told at the commit.\<close>

datatype answer =
    Claimed "(job \<times> attempt) option" | Completed | FailedAs job | Recovered "job list"
  | Requeued job | WasCancelled job

text \<open>
  A transaction program: a statement yields, for the rows that it sees, the locks that it needs and its
  error, or the rows that it writes and how the program goes on.
\<close>

datatype program =
    Return answer
  | Fail error
  | Statement "db \<Rightarrow> lock set \<times> (error + row_write list \<times> program)"

section \<open>Steps\<close>

record txn =
  tx_locks :: "lock set"
  tx_writes :: "row_write list"
  tx_rest :: program

record rc_server =
  rc_db :: db
  rc_txns :: "nat \<rightharpoonup> txn"

definition held_by_others :: "rc_server \<Rightarrow> nat \<Rightarrow> lock set" where
  "held_by_others s n = (\<Union>m \<in> - {n}. case rc_txns s m of None \<Rightarrow> {} | Some t \<Rightarrow> tx_locks t)"

definition locked_jobs :: "lock set \<Rightarrow> uuid set" where
  "locked_jobs L = {i. JobRow i \<in> L}"

definition att_keys :: "db \<Rightarrow> uuid set" where
  "att_keys d = att_id ` set (attempts d)"

definition log_keys :: "db \<Rightarrow> uuid set" where
  "log_keys d = log_id ` set (logs d)"

definition jobs_in :: "uuid set \<Rightarrow> db \<Rightarrow> job list" where
  "jobs_in I d = filter (\<lambda>j. job_id j \<in> I) (jobs d)"

definition attempts_in :: "uuid set \<Rightarrow> db \<Rightarrow> attempt list" where
  "attempts_in I d = filter (\<lambda>a. att_job_id a \<in> I) (attempts d)"

text \<open>Two databases have the same rows under some locks.\<close>

definition agree :: "lock set \<Rightarrow> db \<Rightarrow> db \<Rightarrow> bool" where
  "agree L d e \<longleftrightarrow>
     jobs_in (locked_jobs L) d = jobs_in (locked_jobs L) e \<and> attempts_in (locked_jobs L) d = attempts_in (locked_jobs L) e \<and>
     (\<forall>g. AttemptKey g \<in> L \<longrightarrow> (g \<in> att_keys d \<longleftrightarrow> g \<in> att_keys e)) \<and>
     (\<forall>g. LogKey g \<in> L \<longrightarrow> (g \<in> log_keys d \<longleftrightarrow> g \<in> log_keys e))"

text \<open>
  \<open>begin\<close>, a statement, \<open>COMMIT\<close>, and \<open>ROLLBACK\<close>, which may come at any time; and any operation of the store
  that leaves all locked rows alone, as one step.
\<close>

inductive server_step :: "(program \<Rightarrow> bool) \<Rightarrow> rc_server \<Rightarrow> rc_server \<Rightarrow> bool" for allowed where
  begin_tx: "rc_txns s n = None \<Longrightarrow> allowed p \<Longrightarrow>
    server_step allowed s (s\<lparr>rc_txns := (rc_txns s)(n \<mapsto> \<lparr>tx_locks = {}, tx_writes = [], tx_rest = p\<rparr>)\<rparr>)"
| statement: "rc_txns s n = Some t \<Longrightarrow> tx_rest t = Statement f \<Longrightarrow>
    f (put_rows (tx_writes t) (rc_db s)) = (new, Inr (ws, p)) \<Longrightarrow> new \<inter> held_by_others s n = {} \<Longrightarrow>
    server_step allowed s (s\<lparr>rc_txns := (rc_txns s)
      (n \<mapsto> \<lparr>tx_locks = tx_locks t \<union> new, tx_writes = tx_writes t @ ws, tx_rest = p\<rparr>)\<rparr>)"
| commit: "rc_txns s n = Some t \<Longrightarrow> tx_rest t = Return r \<Longrightarrow>
    server_step allowed s (s\<lparr>rc_db := put_rows (tx_writes t) (rc_db s), rc_txns := (rc_txns s)(n := None)\<rparr>)"
| rollback: "server_step allowed s (s\<lparr>rc_txns := (rc_txns s)(n := None)\<rparr>)"
| atomic: "store_step (rc_db s) d \<Longrightarrow> (\<forall>n t. rc_txns s n = Some t \<longrightarrow> agree (tx_locks t) (rc_db s) d) \<Longrightarrow>
    server_step allowed s (s\<lparr>rc_db := d\<rparr>)"

inductive_cases server_stepE: "server_step allowed s s'"

definition idle_server :: "db \<Rightarrow> rc_server" where
  "idle_server d = \<lparr>rc_db = d, rc_txns = Map.empty\<rparr>"

text \<open>A program that runs alone from \<open>d\<close> to its commit.\<close>

inductive finishes :: "program \<Rightarrow> db \<Rightarrow> answer \<Rightarrow> db \<Rightarrow> bool" where
  finish: "finishes (Return r) d r d"
| go_on: "f d = (new, Inr (ws, p)) \<Longrightarrow> finishes p (put_rows ws d) r d' \<Longrightarrow> finishes (Statement f) d r d'"

inductive_simps finishes_simps [simp]:
  "finishes (Return r) d r' d'" "finishes (Fail e) d r d'" "finishes (Statement f) d r d'"

section \<open>Rows under locks\<close>

definition covers :: "lock set \<Rightarrow> row_write \<Rightarrow> bool" where
  "covers L w = (case w of
       SetJob k \<Rightarrow> JobRow (job_id k) \<in> L
     | SetAttempt b \<Rightarrow> JobRow (att_job_id b) \<in> L
     | AddAttempt a \<Rightarrow> JobRow (att_job_id a) \<in> L \<and> AttemptKey (att_id a) \<in> L
     | AddLog l \<Rightarrow> LogKey (log_id l) \<in> L)"

lemma covers_mono: "covers L w \<Longrightarrow> L \<subseteq> L' \<Longrightarrow> covers L' w"
  by (auto simp: covers_def split: row_write.splits)

lemma writes_Nil [simp]: "put_rows [] d = d"
  by (simp add: put_rows_def)

lemma writes_append [simp]: "put_rows (ws @ vs) d = put_rows vs (put_rows ws d)"
  by (simp add: put_rows_def)

lemma writes_Cons [simp]: "put_rows (w # ws) d = put_rows ws (put_row w d)"
  by (simp add: put_rows_def)

lemma agree_refl [simp]: "agree L d d"
  by (simp add: agree_def)

lemma agree_trans: "agree L d e \<Longrightarrow> agree L e g \<Longrightarrow> agree L d g"
  by (simp add: agree_def)

lemma agree_sym: "agree L d e \<Longrightarrow> agree L e d"
  by (simp add: agree_def)

lemma jobs_in_sub: "I \<subseteq> J \<Longrightarrow> jobs_in I d = filter (\<lambda>j. job_id j \<in> I) (jobs_in J d)"
  unfolding jobs_in_def filter_filter by (rule filter_cong) auto

lemma attempts_in_sub: "I \<subseteq> J \<Longrightarrow> attempts_in I d = filter (\<lambda>a. att_job_id a \<in> I) (attempts_in J d)"
  unfolding attempts_in_def filter_filter by (rule filter_cong) auto

lemma locked_jobs_mono: "L' \<subseteq> L \<Longrightarrow> locked_jobs L' \<subseteq> locked_jobs L"
  by (auto simp: locked_jobs_def)

lemma agree_sub: "agree L d e \<Longrightarrow> L' \<subseteq> L \<Longrightarrow> agree L' d e"
  using jobs_in_sub [OF locked_jobs_mono] attempts_in_sub [OF locked_jobs_mono] by (simp add: agree_def subset_iff)

text \<open>What a row version does to the rows under locks and to the keys.\<close>

lemma filter_update_other:
  "(\<And>r. p r \<Longrightarrow> \<not> q r) \<Longrightarrow> \<not> q k \<Longrightarrow> filter q (update_rows p (\<lambda>_. k) rs) = filter q rs"
  by (induction rs) auto

lemma image_const_update:
  "(\<And>r. p r \<Longrightarrow> key r = key k) \<Longrightarrow> key ` set (update_rows p (\<lambda>_. k) rs) = key ` set rs"
  by (induction rs) auto

lemma jobs_in_put:
  "jobs_in I (put_row w d) =
    (case w of SetJob k \<Rightarrow> if job_id k \<in> I then update_rows (\<lambda>j. job_id j = job_id k) (\<lambda>_. k) (jobs_in I d) else jobs_in I d
     | _ \<Rightarrow> jobs_in I d)"
  by (cases w) (auto simp: jobs_in_def intro!: filter_update_rows filter_update_other)

lemma attempts_in_put:
  "attempts_in I (put_row w d) =
    (case w of
       SetAttempt b \<Rightarrow> if att_job_id b \<in> I
         then update_rows (\<lambda>a. att_id a = att_id b \<and> att_job_id a = att_job_id b) (\<lambda>_. b) (attempts_in I d) else attempts_in I d
     | AddAttempt a \<Rightarrow> attempts_in I d @ (if att_job_id a \<in> I then [a] else [])
     | _ \<Rightarrow> attempts_in I d)"
  by (cases w) (auto simp: attempts_in_def intro!: filter_update_rows filter_update_other)

lemma att_keys_put: "att_keys (put_row w d) = (case w of AddAttempt a \<Rightarrow> insert (att_id a) (att_keys d) | _ \<Rightarrow> att_keys d)"
proof (cases w)
  case (SetAttempt b)
  then show ?thesis by (simp add: att_keys_def) (rule image_const_update, simp)
qed (simp_all add: att_keys_def)

lemma log_keys_put: "log_keys (put_row w d) = (case w of AddLog l \<Rightarrow> insert (log_id l) (log_keys d) | _ \<Rightarrow> log_keys d)"
  by (cases w) (simp_all add: log_keys_def)

lemmas put_simps = jobs_in_put attempts_in_put att_keys_put log_keys_put

declare put_row.simps [simp del]

text \<open>Writing under a lock keeps agreement, and does not touch what others have locked.\<close>

lemma put_agree: "agree L d e \<Longrightarrow> covers L w \<Longrightarrow> agree L (put_row w d) (put_row w e)"
  by (cases w) (simp_all add: agree_def put_simps)

lemma put_elsewhere: "covers L w \<Longrightarrow> L \<inter> M = {} \<Longrightarrow> agree M d (put_row w d)"
  by (cases w) (auto simp: agree_def covers_def put_simps locked_jobs_def)

lemma puts_agree:
  "agree L d e \<Longrightarrow> list_all (covers L) ws \<Longrightarrow> agree L (put_rows ws d) (put_rows ws e)"
  by (induction ws arbitrary: d e) (auto intro: put_agree)

lemma puts_elsewhere:
  "list_all (covers L) ws \<Longrightarrow> L \<inter> M = {} \<Longrightarrow> agree M d (put_rows ws d)"
proof (induction ws arbitrary: d)
  case (Cons w ws)
  have "agree M d (put_row w d)" using Cons.prems by (intro put_elsewhere) auto
  moreover have "agree M (put_row w d) (put_rows ws (put_row w d))" using Cons by simp
  ultimately show ?case by (auto intro: agree_trans)
qed simp

section \<open>Programs that keep to their locks\<close>

text \<open>
  A program is safe under the locks that it holds: it asks for no further job row, it writes only rows that it
  has locked, and what its next statement sees and does depends on those rows alone.
\<close>

definition depends_on :: "lock set \<Rightarrow> (db \<Rightarrow> 'a) \<Rightarrow> db \<Rightarrow> bool" where
  "depends_on L f v \<longleftrightarrow> (\<forall>w. agree L v w \<longrightarrow> f w = f v)"

inductive safe :: "lock set \<Rightarrow> program \<Rightarrow> bool" where
  safe_return: "safe L (Return r)"
| safe_fail: "safe L (Fail e)"
| safe_statement: "(\<forall>v. locked_jobs (fst (f v)) \<subseteq> locked_jobs L) \<Longrightarrow> (\<forall>v new ws p. f v = (new, Inr (ws, p)) \<longrightarrow>
      list_all (covers (L \<union> new)) ws \<and> depends_on (L \<union> new) f v \<and> safe (L \<union> new) p) \<Longrightarrow>
    safe L (Statement f)"

inductive_cases safe_statementE: "safe L (Statement f)"

lemma safe_statementI:
  assumes "\<And>v. locked_jobs (fst (f v)) \<subseteq> locked_jobs L"
    and "\<And>v new ws p. f v = (new, Inr (ws, p)) \<Longrightarrow>
      list_all (covers (L \<union> new)) ws \<and> depends_on (L \<union> new) f v \<and> safe (L \<union> new) p"
  shows "safe L (Statement f)"
  using assms by (intro safe.safe_statement) blast+

text \<open>
  What a transaction has done: if it ran alone on the present committed rows, it would be where it is.
\<close>

inductive reaches :: "db \<Rightarrow> program \<Rightarrow> lock set \<Rightarrow> row_write list \<Rightarrow> program \<Rightarrow> bool" for d p0 where
  first: "p0 = Statement f \<Longrightarrow> f d = (new, Inr (ws, p)) \<Longrightarrow> depends_on new f d \<Longrightarrow> list_all (covers new) ws \<Longrightarrow>
    safe new p \<Longrightarrow> reaches d p0 new ws p"
| further: "reaches d p0 L ws (Statement f) \<Longrightarrow> f (put_rows ws d) = (new, Inr (vs, p)) \<Longrightarrow>
    reaches d p0 (L \<union> new) (ws @ vs) p"

lemma reaches_safe: "reaches d p0 L ws p \<Longrightarrow> list_all (covers L) ws \<and> safe L p"
proof (induction rule: reaches.induct)
  case (further L ws f new vs p)
  then have "list_all (covers (L \<union> new)) vs \<and> safe (L \<union> new) p" by (blast elim: safe_statementE)
  moreover have "list_all (covers (L \<union> new)) ws"
    using further.IH by (auto simp: list_all_iff intro: covers_mono)
  ultimately show ?case by simp
qed simp

lemma reaches_finishes:
  "reaches d p0 L ws p \<Longrightarrow> finishes p (put_rows ws d) r d' \<Longrightarrow> finishes p0 d r d'"
  by (induction rule: reaches.induct) (auto intro: finishes.go_on)

lemma reaches_stable: "reaches d p0 L ws p \<Longrightarrow> agree L d e \<Longrightarrow> reaches e p0 L ws p"
proof (induction rule: reaches.induct)
  case (first f new ws p)
  have same: "f e = (new, Inr (ws, p))" using first by (simp add: depends_on_def)
  moreover have "depends_on new f e"
    using first.hyps(3) first.prems same first.hyps(2) unfolding depends_on_def by (metis agree_trans)
  ultimately show ?case using first.hyps by (intro reaches.first)
next
  case (further L ws f new vs p)
  have now: "reaches e p0 L ws (Statement f)" using further.IH further.prems by (blast intro: agree_sub)
  have "list_all (covers (L \<union> new)) ws" using reaches_safe [OF further.hyps(1)] by (auto simp: list_all_iff intro: covers_mono)
  then have same: "agree (L \<union> new) (put_rows ws d) (put_rows ws e)" by (rule puts_agree [OF further.prems])
  have "depends_on (L \<union> new) f (put_rows ws d)"
    using reaches_safe [OF further.hyps(1)] further.hyps(2) by (blast elim: safe_statementE)
  then have "f (put_rows ws e) = (new, Inr (vs, p))" using same further.hyps(2) by (simp add: depends_on_def)
  then show ?case by (rule reaches.further [OF now])
qed

section \<open>Interleavings are as good as atomic steps\<close>

text \<open>
  What the programs must observe. The first statement of a program may look at any rows; but the same program
  with other parameters (rows that others hold locked) must depend on the rows that it locks alone and do the
  same. From then on it must be safe. And a program that runs alone must be an operation of the store.
\<close>

locale transactions =
  fixes allowed :: "program \<Rightarrow> bool" and atomically :: "answer \<Rightarrow> db \<Rightarrow> db \<Rightarrow> bool"
  assumes starts: "allowed p \<Longrightarrow> \<exists>f. p = Statement f"
    and anchored: "allowed (Statement f) \<Longrightarrow> db_ok v \<Longrightarrow> f v = (new, Inr (ws, p)) \<Longrightarrow>
      (\<exists>e. p = Fail e) \<or> (\<exists>g. allowed (Statement g) \<and> g v = (new, Inr (ws, p)) \<and> depends_on new g v \<and>
         list_all (covers new) ws \<and> safe new p)"
    and alone: "allowed p \<Longrightarrow> db_ok d \<Longrightarrow> finishes p d r d' \<Longrightarrow> atomically r d d'"
    and operation: "atomically r d d' \<Longrightarrow> store_step d d'"
begin

definition txn_ok :: "db \<Rightarrow> txn \<Rightarrow> bool" where
  "txn_ok d t \<longleftrightarrow> (tx_locks t = {} \<and> tx_writes t = [] \<and> allowed (tx_rest t)) \<or> (\<exists>e. tx_rest t = Fail e) \<or>
     (\<exists>p. allowed p \<and> reaches d p (tx_locks t) (tx_writes t) (tx_rest t))"

definition in_order :: "rc_server \<Rightarrow> bool" where
  "in_order s \<longleftrightarrow> db_ok (rc_db s) \<and> (\<forall>n t. rc_txns s n = Some t \<longrightarrow> txn_ok (rc_db s) t) \<and>
     (\<forall>n m t u. rc_txns s n = Some t \<and> rc_txns s m = Some u \<and> n \<noteq> m \<longrightarrow> tx_locks t \<inter> tx_locks u = {})"

lemma disjoint_locks:
  "in_order s \<Longrightarrow> rc_txns s n = Some t \<Longrightarrow> rc_txns s m = Some u \<Longrightarrow> n \<noteq> m \<Longrightarrow> tx_locks t \<inter> tx_locks u = {}"
  unfolding in_order_def by blast

lemma txn_ok_stable: "txn_ok d t \<Longrightarrow> agree (tx_locks t) d e \<Longrightarrow> txn_ok e t"
  unfolding txn_ok_def using reaches_stable by blast

text \<open>A transaction that holds locks never waits for a job row, so that no two wait for each other's.\<close>

lemma holder_does_not_wait:
  assumes "in_order s" and "rc_txns s n = Some t" and "tx_rest t = Statement f" and "tx_locks t \<noteq> {}"
  shows "locked_jobs (fst (f v)) \<inter> locked_jobs (held_by_others s n) = {}"
proof -
  have "txn_ok (rc_db s) t" using assms(1,2) by (simp add: in_order_def)
  then obtain p where "reaches (rc_db s) p (tx_locks t) (tx_writes t) (Statement f)"
    using assms(3,4) by (auto simp: txn_ok_def)
  then have "locked_jobs (fst (f v)) \<subseteq> locked_jobs (tx_locks t)"
    using reaches_safe by (blast elim: safe_statementE)
  moreover have "tx_locks t \<inter> held_by_others s n = {}"
    using disjoint_locks [OF assms(1,2)] by (fastforce simp: held_by_others_def split: option.splits)
  ultimately show ?thesis by (auto simp: locked_jobs_def)
qed

lemma commit_atomic:
  assumes "txn_ok d t" and "tx_rest t = Return r" and "db_ok d"
  shows "atomically r d (put_rows (tx_writes t) d) \<and> list_all (covers (tx_locks t)) (tx_writes t)"
proof -
  obtain p where p: "allowed p" "reaches d p (tx_locks t) (tx_writes t) (Return r)"
    using assms(1,2) starts by (fastforce simp: txn_ok_def)
  have "finishes p d r (put_rows (tx_writes t) d)" by (rule reaches_finishes [OF p(2)]) simp
  then show ?thesis using alone [OF p(1) assms(3)] reaches_safe [OF p(2)] by blast
qed

lemma statement_ok:
  assumes "txn_ok d t" and "db_ok d" and "tx_rest t = Statement f"
    and "f (put_rows (tx_writes t) d) = (new, Inr (ws, p))"
  shows "txn_ok d \<lparr>tx_locks = tx_locks t \<union> new, tx_writes = tx_writes t @ ws, tx_rest = p\<rparr>"
  using assms(1) [unfolded txn_ok_def]
proof (elim disjE exE conjE)
  assume start: "tx_locks t = {}" "tx_writes t = []" "allowed (tx_rest t)"
  then have "(\<exists>e. p = Fail e) \<or> (\<exists>g. allowed (Statement g) \<and> g d = (new, Inr (ws, p)) \<and> depends_on new g d \<and>
      list_all (covers new) ws \<and> safe new p)"
    using anchored [OF _ assms(2), of f new ws p] assms(3,4) by simp
  then show ?thesis
  proof
    assume "\<exists>e. p = Fail e"
    then show ?thesis by (simp add: txn_ok_def)
  next
    assume "\<exists>g. allowed (Statement g) \<and> g d = (new, Inr (ws, p)) \<and> depends_on new g d \<and> list_all (covers new) ws \<and> safe new p"
    then obtain g where g: "allowed (Statement g)" "g d = (new, Inr (ws, p))" "depends_on new g d"
        "list_all (covers new) ws" "safe new p" by blast
    then have "reaches d (Statement g) new ws p" by (intro reaches.first [OF refl])
    then show ?thesis unfolding txn_ok_def using g(1) start(1,2) by auto
  qed
next
  fix q
  assume q: "allowed q" "reaches d q (tx_locks t) (tx_writes t) (tx_rest t)"
  then have "reaches d q (tx_locks t \<union> new) (tx_writes t @ ws) p" using reaches.further assms(3,4) by simp
  then show ?thesis unfolding txn_ok_def using q(1) by auto
qed (use assms(3) in simp)

lemma step_in_order:
  assumes "server_step allowed s s'" and "in_order s"
  shows "in_order s' \<and> (rc_db s' = rc_db s \<or> store_step (rc_db s) (rc_db s'))"
  using assms(1)
proof (cases rule: server_stepE [consumes 1])
  case (1 n p)
  then show ?thesis using assms(2) by (auto simp: in_order_def txn_ok_def)
next
  case (2 n t f new ws p)
  have "txn_ok (rc_db s) \<lparr>tx_locks = tx_locks t \<union> new, tx_writes = tx_writes t @ ws, tx_rest = p\<rparr>"
    by (rule statement_ok [OF _ _ 2(3,4)]) (use 2(2) assms(2) in \<open>auto simp: in_order_def\<close>)
  moreover have "tx_locks u \<inter> (tx_locks t \<union> new) = {}" if "rc_txns s m = Some u" "m \<noteq> n" for m u
  proof -
    have "tx_locks u \<subseteq> held_by_others s n" using that by (force simp: held_by_others_def)
    then show ?thesis using that 2(2,5) assms(2) by (fastforce simp: in_order_def)
  qed
  ultimately show ?thesis using assms(2) 2(1) by (auto simp: in_order_def Int_commute split: if_splits)
next
  case (3 n t r)
  let ?d = "put_rows (tx_writes t) (rc_db s)"
  have c: "atomically r (rc_db s) ?d" "list_all (covers (tx_locks t)) (tx_writes t)"
    using commit_atomic [of "rc_db s" t r] 3 assms(2) by (auto simp: in_order_def)
  have step: "store_step (rc_db s) ?d" by (rule operation [OF c(1)])
  have "txn_ok ?d u" if "rc_txns s m = Some u" "m \<noteq> n" for m u
  proof (rule txn_ok_stable)
    show "txn_ok (rc_db s) u" using that assms(2) by (auto simp: in_order_def)
    have "tx_locks t \<inter> tx_locks u = {}" using disjoint_locks [OF assms(2) 3(2) that(1)] that(2) by simp
    then show "agree (tx_locks u) (rc_db s) ?d" by (rule puts_elsewhere [OF c(2)])
  qed
  then show ?thesis
    using assms(2) 3(1) step store_step_db_ok [OF _ step] by (auto simp: in_order_def split: if_splits)
next
  case (4 n)
  then show ?thesis using assms(2) by (auto simp: in_order_def split: if_splits)
next
  case (5 d)
  have "txn_ok d t" if "rc_txns s n = Some t" for n t
    by (rule txn_ok_stable [of "rc_db s"]) (use that 5(3) assms(2) in \<open>auto simp: in_order_def\<close>)
  then show ?thesis using assms(2) 5(1,2) store_step_db_ok [OF _ 5(2)] by (auto simp: in_order_def)
qed

lemma idle_in_order: "db_ok d \<Longrightarrow> in_order (idle_server d)"
  by (simp add: in_order_def idle_server_def)

lemma run_in_order:
  assumes "(server_step allowed)\<^sup>*\<^sup>* (idle_server d) s" and "db_ok d"
  shows "in_order s \<and> store_step\<^sup>*\<^sup>* d (rc_db s)"
  using assms(1)
proof (induction rule: rtranclp_induct)
  case base
  then show ?case using idle_in_order [OF assms(2)] by (simp add: idle_server_def)
next
  case (step s s')
  then show ?case using step_in_order [OF step.hyps(2)] by (metis rtranclp.rtrancl_into_rtrancl)
qed

end

end
