(* ===== verification/LeaseTransactions.thy ===== *)
theory LeaseTransactions
  imports ReadCommitted
begin

text \<open>
  The transactions of \<open>storage.go\<close> that carry a job from one status to the next (\<open>ClaimJob\<close>, \<open>CompleteJob\<close>,
  \<open>FailJob\<close>, \<open>RecoverExpiredJobs\<close>, \<open>RetryJob\<close>, \<open>CancelJob\<close>), statement by statement. Each statement is the
  one of \<open>JobStore\<close> and \<open>LeaseStore\<close>, with the rows that it locks. The transactions keep to their locks, so
  that any interleaving of their statements, and of those of any number of clients, is a run of \<open>store_step\<close>.
\<close>

section \<open>Statements\<close>

definition lock_rows :: "job list \<Rightarrow> lock set" where
  "lock_rows js = JobRow ` job_id ` set js"

definition select_rows :: "(db \<Rightarrow> job list) \<Rightarrow> (job list \<Rightarrow> program) \<Rightarrow> program" where
  "select_rows sel k = Statement (\<lambda>v. (lock_rows (sel v), Inr ([], k (sel v))))"

definition update_jobs_rows ::
  "(job \<Rightarrow> bool) \<Rightarrow> (db \<Rightarrow> job \<Rightarrow> bool) \<Rightarrow> (job \<Rightarrow> job) \<Rightarrow> (job list \<Rightarrow> program) \<Rightarrow> program" where
  "update_jobs_rows fits p f k = Statement (\<lambda>v. (lock_rows (filter (p v) (jobs v)),
     case update_jobs fits (p v) f v of Inl e \<Rightarrow> Inl e | Inr (rows, _) \<Rightarrow> Inr (map SetJob rows, k rows)))"

definition exec_jobs_rows :: "(job \<Rightarrow> bool) \<Rightarrow> (job \<Rightarrow> job) \<Rightarrow> (nat \<Rightarrow> program) \<Rightarrow> program" where
  "exec_jobs_rows p f k = Statement (\<lambda>v. (lock_rows (filter p (jobs v)),
     case exec_jobs p f v of Inl e \<Rightarrow> Inl e | Inr (n, _) \<Rightarrow> Inr (map SetJob (map f (filter p (jobs v))), k n)))"

definition update_attempts_rows :: "(attempt \<Rightarrow> bool) \<Rightarrow> (attempt \<Rightarrow> attempt) \<Rightarrow> (nat \<Rightarrow> program) \<Rightarrow> program" where
  "update_attempts_rows p g k = Statement (\<lambda>v. (AttemptKey ` att_id ` set (filter p (attempts v)),
     case update_attempts p g v of Inl e \<Rightarrow> Inl e
     | Inr (n, _) \<Rightarrow> Inr (map SetAttempt (map g (filter p (attempts v))), k n)))"

definition insert_attempt_row :: "attempt \<Rightarrow> (attempt list \<Rightarrow> program) \<Rightarrow> program" where
  "insert_attempt_row a k = Statement (\<lambda>v. ({AttemptKey (att_id a)},
     case insert_attempt a v of Inl e \<Rightarrow> Inl e | Inr (rows, _) \<Rightarrow> Inr (map AddAttempt rows, k rows)))"

definition append_log_row ::
  "(string \<Rightarrow> string) \<Rightarrow> instant \<Rightarrow> uuid \<Rightarrow> log_params \<Rightarrow> (job_log \<Rightarrow> program) \<Rightarrow> program" where
  "append_log_row jsonb now gid p k =
     (case check_log p of
        Inl e \<Rightarrow> Fail e
      | Inr q \<Rightarrow> Statement (\<lambda>v. ({LogKey gid},
          case insert_log jsonb now gid q v of Inl e \<Rightarrow> Inl e | Inr (l, _) \<Rightarrow> Inr ([AddLog l], k l))))"

definition scan_then :: "job list \<Rightarrow> (job \<Rightarrow> program) \<Rightarrow> program" where
  "scan_then rows k = (case scan_row rows of Inl e \<Rightarrow> Fail e | Inr job \<Rightarrow> k job)"

section \<open>The transactions\<close>

definition claim_program :: "uuid set \<Rightarrow> instant \<Rightarrow> uuid \<Rightarrow> uuid \<Rightarrow> string \<Rightarrow> string \<Rightarrow> duration \<Rightarrow> program" where
  "claim_program locked now gid leaseToken queue workerID lease =
     (let queue = (if queue = [] then ''default'' else queue);
          workerID = (if workerID = [] then ''worker-unknown'' else workerID)
      in update_jobs_rows (\<lambda>j. int32 (job_attempt_count j + 1))
           (\<lambda>v j. job_id j \<in> set (picked locked now queue v)) (claim_set now workerID lease leaseToken) (\<lambda>rows.
         case scan_row rows of
           Inl _ \<Rightarrow> Return (Claimed None)
         | Inr job \<Rightarrow>
             insert_attempt_row (new_attempt now gid (job_id job) workerID leaseToken (job_attempt_count job)) (\<lambda>rows.
             case scan_row rows of
               Inl e \<Rightarrow> Fail e
             | Inr attempt \<Rightarrow> Return (Claimed (Some (job, attempt))))))"

definition complete_program :: "instant \<Rightarrow> uuid \<Rightarrow> uuid \<Rightarrow> program" where
  "complete_program now i leaseToken =
     exec_jobs_rows (job_fenced i leaseToken) (complete_set now) (\<lambda>tag.
     if tag \<noteq> 1 then Fail (ErrNew ''job completion rejected by lease fencing'')
     else update_attempts_rows (attempt_fenced i leaseToken) (attempt_succeed now) (\<lambda>tag.
     if tag \<noteq> 1 then Fail (ErrNew ''job attempt completion rejected by lease fencing'')
     else Return Completed))"

definition fail_program :: "instant \<Rightarrow> uuid \<Rightarrow> uuid \<Rightarrow> string \<Rightarrow> retry_policy \<Rightarrow> program" where
  "fail_program now i leaseToken message policy =
     (let policy = Normalize policy
      in select_rows (\<lambda>d. filter (job_fenced i leaseToken) (jobs d)) (\<lambda>rows.
         case scan_row rows of
           Inl _ \<Rightarrow> Fail (ErrNew ''job failure rejected by lease fencing'')
         | Inr job \<Rightarrow>
             update_jobs_rows (\<lambda>j. True) (\<lambda>_. by_id i)
               (fail_set now (DelayForAttempt policy (job_attempt_count job)) message job) (\<lambda>rows.
             scan_then rows (\<lambda>updated.
             update_attempts_rows (attempt_fenced i leaseToken) (attempt_fail now message) (\<lambda>tag.
             if tag \<noteq> 1 then Fail (ErrNew ''job attempt failure rejected by lease fencing'')
             else Return (FailedAs updated))))))"

fun recover_each :: "instant \<Rightarrow> string \<Rightarrow> job list \<Rightarrow> job list \<Rightarrow> program" where
  "recover_each now reason [] updated = Return (Recovered updated)"
| "recover_each now reason (job # js) updated =
     (let go = update_jobs_rows (\<lambda>j. True) (\<lambda>_. by_id (job_id job)) (recover_set now reason job) (\<lambda>rows.
               scan_then rows (\<lambda>recovered. recover_each now reason js (updated @ [recovered])))
      in case job_lease_token job of
           None \<Rightarrow> go
         | Some t \<Rightarrow> update_attempts_rows (attempt_fenced (job_id job) t) (attempt_fail now reason) (\<lambda>_. go))"

definition recover_program :: "uuid set \<Rightarrow> instant \<Rightarrow> int \<Rightarrow> string \<Rightarrow> program" where
  "recover_program locked now batch reason =
     (let reason = (if reason = [] then ''job lease expired'' else reason)
      in select_rows (expired_jobs locked now batch) (\<lambda>expired. recover_each now reason expired []))"

definition retry_program :: "(string \<Rightarrow> string) \<Rightarrow> instant \<Rightarrow> uuid \<Rightarrow> uuid \<Rightarrow> program" where
  "retry_program jsonb now gid i =
     select_rows (select_job i) (\<lambda>rows.
     scan_then rows (\<lambda>current.
     if job_status current \<noteq> Failed \<and> job_status current \<noteq> DeadLetter \<and> job_status current \<noteq> Cancelled
     then Fail (ErrInvalidState ''only failed, dead_letter, or cancelled jobs can be retried'')
     else update_jobs_rows (\<lambda>j. int32 (job_attempt_count j + 1)) (\<lambda>_. by_id i) (retry_set now) (\<lambda>rows.
     scan_then rows (\<lambda>job.
     append_log_row jsonb now gid
       (status_log (job_id job) ''info'' ''job manually retried'' (job_status current)) (\<lambda>_.
     Return (Requeued job))))))"

definition cancel_program :: "(string \<Rightarrow> string) \<Rightarrow> instant \<Rightarrow> uuid \<Rightarrow> uuid \<Rightarrow> program" where
  "cancel_program jsonb now gid i =
     select_rows (select_job i) (\<lambda>rows.
     scan_then rows (\<lambda>current.
     if job_status current \<noteq> Queued \<and> job_status current \<noteq> RetryScheduled
     then Fail (ErrInvalidState ''only queued or retry_scheduled jobs can be cancelled'')
     else update_jobs_rows (\<lambda>j. True) (\<lambda>_. by_id i) (cancel_set now) (\<lambda>rows.
     scan_then rows (\<lambda>job.
     append_log_row jsonb now gid
       (status_log (job_id job) ''warn'' ''job cancelled'' (job_status current)) (\<lambda>_.
     Return (WasCancelled job))))))"

text \<open>The programs that clients start, and what they are when they run at once.\<close>

inductive lease_program :: "program \<Rightarrow> bool" where
  claim: "lease_program (claim_program locked now gid t queue w lease)"
| complete: "lease_program (complete_program now i t)"
| failure: "lease_program (fail_program now i t message policy)"
| recover: "lease_program (recover_program locked now batch reason)"
| retry: "lease_program (retry_program jsonb now gid i)"
| cancel: "lease_program (cancel_program jsonb now gid i)"

inductive atomically :: "answer \<Rightarrow> db \<Rightarrow> db \<Rightarrow> bool" where
  claim: "ClaimJob locked now gid t queue w lease all_served d = (Inr c, d') \<Longrightarrow> atomically (Claimed c) d d'"
| complete: "CompleteJob now i t all_served d = (Inr (), d') \<Longrightarrow> atomically Completed d d'"
| failure: "FailJob now i t message policy all_served d = (Inr j, d') \<Longrightarrow> atomically (FailedAs j) d d'"
| recover: "RecoverExpiredJobs locked now batch reason all_served d = (Inr js, d') \<Longrightarrow> atomically (Recovered js) d d'"
| retry: "RetryJob jsonb now gid i all_served d = (Inr j, d') \<Longrightarrow> atomically (Requeued j) d d'"
| cancel: "CancelJob jsonb now gid i all_served d = (Inr j, d') \<Longrightarrow> atomically (WasCancelled j) d d'"

section \<open>A program that runs alone is an operation\<close>

lemma fold_update_away:
  "key x \<notin> key ` set ks \<Longrightarrow>
    fold (\<lambda>k. update_rows (\<lambda>r. key r = key k) (\<lambda>_. k)) ks (x # xs) =
    x # fold (\<lambda>k. update_rows (\<lambda>r. key r = key k) (\<lambda>_. k)) ks xs"
  by (induction ks arbitrary: xs) auto

lemma fold_update_rows:
  assumes "distinct (map key xs)" and "\<And>x. key (f x) = key x"
  shows "fold (\<lambda>k. update_rows (\<lambda>r. key r = key k) (\<lambda>_. k)) (map f (filter p xs)) xs = update_rows p f xs"
  using assms(1)
proof (induction xs)
  case (Cons x xs)
  have "update_rows (\<lambda>r. key r = key x) (\<lambda>_. f x) xs = xs"
    using Cons.prems by (intro update_rows_none) (auto simp: image_iff)
  moreover have "key x \<notin> key ` set (map f (filter p xs))" using Cons.prems assms(2) by auto
  ultimately show ?case using Cons fold_update_away [of key "f x"] fold_update_away [of key x] by (simp add: assms(2))
qed simp

definition keys_ok :: "db \<Rightarrow> bool" where
  "keys_ok d \<longleftrightarrow> distinct (map job_id (jobs d)) \<and> distinct (map att_id (attempts d))"

lemma db_ok_keys: "db_ok d \<Longrightarrow> keys_ok d"
  by (simp add: db_ok_def jobs_ok_def keys_ok_def)

lemma put_jobs:
  "put_rows (map SetJob ks) d = d\<lparr>jobs := fold (\<lambda>k. update_rows (\<lambda>r. job_id r = job_id k) (\<lambda>_. k)) ks (jobs d)\<rparr>"
  by (induction ks arbitrary: d) (simp_all add: put_row.simps)

lemma put_attempts:
  "put_rows (map SetAttempt ks) d = d\<lparr>attempts :=
     fold (\<lambda>k. update_rows (\<lambda>r. (att_id r, att_job_id r) = (att_id k, att_job_id k)) (\<lambda>_. k)) ks (attempts d)\<rparr>"
  by (induction ks arbitrary: d) (simp_all add: put_row.simps)

lemma put_updated_jobs:
  assumes "keys_ok d" and "job_touch f"
  shows "put_rows (map SetJob (map f (filter p (jobs d)))) d = d\<lparr>jobs := update_rows p f (jobs d)\<rparr>"
  using assms fold_update_rows [of job_id "jobs d" f p] by (simp add: put_jobs keys_ok_def job_touch_def del: map_map)

definition attempt_touch :: "(attempt \<Rightarrow> attempt) \<Rightarrow> bool" where
  "attempt_touch g \<longleftrightarrow> (\<forall>a. att_id (g a) = att_id a \<and> att_job_id (g a) = att_job_id a)"

lemma attempt_touchI [intro]: "attempt_touch (attempt_succeed now)" "attempt_touch (attempt_fail now m)"
  by (simp_all add: attempt_touch_def attempt_succeed_def attempt_fail_def)

lemma put_updated_attempts:
  assumes "keys_ok d" and "attempt_touch g"
  shows "put_rows (map SetAttempt (map g (filter p (attempts d)))) d = d\<lparr>attempts := update_rows p g (attempts d)\<rparr>"
proof -
  have "distinct (map (\<lambda>a. (att_id a, att_job_id a)) (attempts d))"
    using assms(1) by (auto simp: keys_ok_def distinct_map inj_on_def)
  then show ?thesis
    using fold_update_rows [of "\<lambda>a. (att_id a, att_job_id a)" "attempts d" g p] assms(2)
    by (simp add: put_attempts attempt_touch_def del: map_map)
qed

lemma keys_ok_updated:
  "keys_ok d \<Longrightarrow> job_touch f \<Longrightarrow> keys_ok (d\<lparr>jobs := update_rows p f (jobs d)\<rparr>)"
  "keys_ok d \<Longrightarrow> attempt_touch g \<Longrightarrow> keys_ok (d\<lparr>attempts := update_rows q g (attempts d)\<rparr>)"
  by (simp_all add: keys_ok_def map_update_rows job_touch_def attempt_touch_def)

named_theorems alone \<open>statements of a program that runs alone\<close>

lemma finishes_select [alone]: "finishes (select_rows sel k) d r d' \<longleftrightarrow> finishes (k (sel d)) d r d'"
  by (simp add: select_rows_def)

lemma finishes_update_jobs [alone]:
  assumes "keys_ok d" and "job_touch f"
  shows "finishes (update_jobs_rows fits p f k) d r d' \<longleftrightarrow>
    (\<exists>rs e. update_jobs fits (p d) f d = Inr (rs, e) \<and> keys_ok e \<and> finishes (k rs) e r d')"
  using put_updated_jobs [OF assms, of "p d"] keys_ok_updated(1) [OF assms]
  by (auto simp: update_jobs_rows_def update_jobs_def simp del: map_map)

lemma finishes_exec_jobs [alone]:
  assumes "keys_ok d" and "job_touch f"
  shows "finishes (exec_jobs_rows p f k) d r d' \<longleftrightarrow>
    (\<exists>n e. exec_jobs p f d = Inr (n, e) \<and> keys_ok e \<and> finishes (k n) e r d')"
  using put_updated_jobs [OF assms, of p] keys_ok_updated(1) [OF assms]
  by (auto simp: exec_jobs_rows_def exec_jobs_def simp del: map_map)

lemma finishes_update_attempts [alone]:
  assumes "keys_ok d" and "attempt_touch g"
  shows "finishes (update_attempts_rows p g k) d r d' \<longleftrightarrow>
    (\<exists>n e. update_attempts p g d = Inr (n, e) \<and> keys_ok e \<and> finishes (k n) e r d')"
  using put_updated_attempts [OF assms, of p] keys_ok_updated(2) [OF assms]
  by (auto simp: update_attempts_rows_def update_attempts_def simp del: map_map)

lemma finishes_insert_attempt [alone]:
  "finishes (insert_attempt_row a k) d r d' \<longleftrightarrow> (\<exists>rs e. insert_attempt a d = Inr (rs, e) \<and> finishes (k rs) e r d')"
  by (auto simp: insert_attempt_row_def insert_attempt_def Let_def put_row.simps)

lemma finishes_append_log [alone]:
  "finishes (append_log_row jsonb now gid p k) d r d' \<longleftrightarrow>
    (\<exists>q l e. check_log p = Inr q \<and> insert_log jsonb now gid q d = Inr (l, e) \<and> finishes (k l) e r d')"
  by (cases "check_log p") (auto simp: append_log_row_def insert_log_def Let_def put_row.simps)

lemma finishes_scan [alone]:
  "finishes (scan_then rows k) d r d' \<longleftrightarrow> rows \<noteq> [] \<and> finishes (k (hd rows)) d r d'"
  by (cases rows) (simp_all add: scan_then_def scan_row_def)

lemma finishes_if [alone]:
  "finishes (if b then p else q) d r d' \<longleftrightarrow> (if b then finishes p d r d' else finishes q d r d')"
  by simp

lemma appendJobLog_served:
  "appendJobLog jsonb now gid p all_served n d = Inr (l, n', d') \<longleftrightarrow>
    (\<exists>q. check_log p = Inr q \<and> insert_log jsonb now gid q d = Inr (l, d') \<and> n' = Suc n)"
  by (auto simp: appendJobLog_def tx_simps split: sum.splits)

lemma touches [intro]: "job_touch (retry_set now)" "job_touch (cancel_set now)"
  by (simp_all add: job_touch_def retry_set_def cancel_set_def)

lemmas served_simps = run_tx_Inr tx_simps appendJobLog_served

lemma complete_alone:
  assumes "keys_ok d" and "finishes (complete_program now i t) d r d'"
  shows "r = Completed \<and> CompleteJob now i t all_served d = (Inr (), d')"
  using assms(2)
  by (auto simp: complete_program_def CompleteJob_def alone assms(1) job_touchI attempt_touchI served_simps split: if_splits)

lemma fail_alone:
  assumes "keys_ok d" and "finishes (fail_program now i t message policy) d r d'"
  shows "\<exists>j. r = FailedAs j \<and> FailJob now i t message policy all_served d = (Inr j, d')"
  using assms(2)
  by (auto simp: fail_program_def FailJob_def Let_def scan_row_def alone assms(1) job_touchI attempt_touchI served_simps
      split: if_splits list.splits)

lemma claim_alone:
  assumes "keys_ok d" and "finishes (claim_program locked now gid t queue w lease) d r d'"
  shows "\<exists>c. r = Claimed c \<and> ClaimJob locked now gid t queue w lease all_served d = (Inr c, d')"
  using assms(2)
  by (auto simp: claim_program_def ClaimJob_def Let_def scan_row_def alone assms(1) job_touchI served_simps
      split: if_splits list.splits)

lemma retry_alone:
  assumes "keys_ok d" and "finishes (retry_program jsonb now gid i) d r d'"
  shows "\<exists>j. r = Requeued j \<and> RetryJob jsonb now gid i all_served d = (Inr j, d')"
  using assms(2)
  by (auto simp: retry_program_def RetryJob_def alone assms(1) touches served_simps split: if_splits)

lemma cancel_alone:
  assumes "keys_ok d" and "finishes (cancel_program jsonb now gid i) d r d'"
  shows "\<exists>j. r = WasCancelled j \<and> CancelJob jsonb now gid i all_served d = (Inr j, d')"
  using assms(2)
  by (auto simp: cancel_program_def CancelJob_def alone assms(1) touches served_simps split: if_splits)

lemma recover_each_alone:
  "keys_ok d \<Longrightarrow> finishes (recover_each now reason js acc) d r d' \<Longrightarrow>
    \<exists>rs n'. r = Recovered (acc @ rs) \<and> tx_each (recover_job now reason) js all_served n d = Inr (rs, n', d')"
proof (induction js arbitrary: acc d n)
  case Nil
  then show ?case by (simp add: tx_simps)
next
  case (Cons job js)
  let ?g = "attempt_fail now reason" and ?f = "recover_set now reason job"
  let ?close = "case job_lease_token job of None \<Rightarrow> tx_return 0
    | Some t \<Rightarrow> sql (update_attempts (attempt_fenced (job_id job) t) ?g)"
  obtain d1 a m where 1: "?close all_served n d = Inr (a, m, d1)" "keys_ok d1"
      "finishes (update_jobs_rows (\<lambda>j. True) (\<lambda>_. by_id (job_id job)) ?f (\<lambda>rows.
         scan_then rows (\<lambda>recovered. recover_each now reason js (acc @ [recovered])))) d1 r d'"
    using Cons.prems by (cases "job_lease_token job") (auto simp: Let_def alone attempt_touchI tx_simps)
  obtain rs d2 where 2: "update_jobs (\<lambda>j. True) (by_id (job_id job)) ?f d1 = Inr (rs, d2)" "keys_ok d2" "rs \<noteq> []"
      "finishes (recover_each now reason js (acc @ [hd rs])) d2 r d'"
    using 1(2,3) by (auto simp: alone job_touchI)
  obtain rs' n' where 3: "r = Recovered (acc @ hd rs # rs')"
      "tx_each (recover_job now reason) js all_served (Suc m) d2 = Inr (rs', n', d')"
    using Cons.IH [OF 2(2,4), of "Suc m"] by auto
  have "recover_job now reason job all_served n d = Inr (hd rs, Suc m, d2)"
    unfolding recover_job_def tx_bind_Inr using 1(1) 2(1,3) by (auto simp: tx_simps simp del: update_jobs_Inr)
  then have "tx_each (recover_job now reason) (job # js) all_served n d = Inr (hd rs # rs', n', d')"
    using 3(2) by (simp add: tx_bind_Inr tx_return_Inr)
  then show ?case using 3(1) by blast
qed

lemma recover_alone:
  assumes "keys_ok d" and "finishes (recover_program locked now batch reason) d r d'"
  shows "\<exists>js. r = Recovered js \<and> RecoverExpiredJobs locked now batch reason all_served d = (Inr js, d')"
proof -
  let ?reason = "if reason = [] then ''job lease expired'' else reason"
  have "finishes (recover_each now ?reason (expired_jobs locked now batch d) []) d r d'"
    using assms(2) by (simp add: recover_program_def Let_def alone)
  then obtain rs n' where "r = Recovered rs"
      "tx_each (recover_job now ?reason) (expired_jobs locked now batch d) all_served 2 d = Inr (rs, n', d')"
    using recover_each_alone [OF assms(1), of now ?reason "expired_jobs locked now batch d" "[]" r d' 2] by auto
  then show ?thesis
    unfolding RecoverExpiredJobs_def Let_def run_tx_Inr tx_bind_Inr sql_Inr query_Inr by (auto simp: numeral_2_eq_2)
qed

lemma lease_program_alone:
  assumes "lease_program p" and "db_ok d" and "finishes p d r d'"
  shows "atomically r d d'"
  using assms(1)
proof cases
  case (claim locked now gid t queue w lease)
  then show ?thesis using claim_alone [OF db_ok_keys [OF assms(2)]] assms(3) atomically.claim by blast
next
  case (complete now i t)
  then show ?thesis using complete_alone [OF db_ok_keys [OF assms(2)]] assms(3) atomically.complete by blast
next
  case (failure now i t message policy)
  then show ?thesis using fail_alone [OF db_ok_keys [OF assms(2)]] assms(3) atomically.failure by blast
next
  case (recover locked now batch reason)
  then show ?thesis using recover_alone [OF db_ok_keys [OF assms(2)]] assms(3) atomically.recover by blast
next
  case (retry jsonb now gid i)
  then show ?thesis using retry_alone [OF db_ok_keys [OF assms(2)]] assms(3) atomically.retry by blast
next
  case (cancel jsonb now gid i)
  then show ?thesis using cancel_alone [OF db_ok_keys [OF assms(2)]] assms(3) atomically.cancel by blast
qed

lemma atomically_operation: "atomically r d d' \<Longrightarrow> store_step d d'"
  by (induction rule: atomically.induct) (metis store_step.intros snd_conv)+

section \<open>The programs keep to their locks\<close>

lemma safe_mono: "safe L p \<Longrightarrow> L \<subseteq> L' \<Longrightarrow> safe L' p"
proof (induction arbitrary: L' rule: safe.induct)
  case (safe_statement f L)
  have jobs: "\<forall>v. locked_jobs (fst (f v)) \<subseteq> locked_jobs L'"
    using safe_statement.hyps(1) locked_jobs_mono [OF safe_statement.prems] by blast
  show ?case
  proof (rule safe_statementI)
    show "locked_jobs (fst (f v)) \<subseteq> locked_jobs L'" for v using jobs by blast
  next
    fix v :: db and new ws p
    assume "f v = (new, Inr (ws, p))"
    then have "list_all (covers (L \<union> new)) ws" "depends_on (L \<union> new) f v" "safe (L' \<union> new) p"
      using safe_statement by blast+
    moreover have sub: "L \<union> new \<subseteq> L' \<union> new" using safe_statement.prems by blast
    ultimately show "list_all (covers (L' \<union> new)) ws \<and> depends_on (L' \<union> new) f v \<and> safe (L' \<union> new) p"
      unfolding depends_on_def list_all_iff using covers_mono [OF _ sub] agree_sub [OF _ sub] by blast
  qed
qed (rule safe.intros)+

lemma locked_rows [simp]: "locked_jobs (lock_rows js) = job_id ` set js"
  by (auto simp: locked_jobs_def lock_rows_def)

lemma locked_keys:
  "locked_jobs (AttemptKey ` I) = {}" "locked_jobs {AttemptKey g} = {}" "locked_jobs {LogKey g} = {}"
  by (auto simp: locked_jobs_def)

named_theorems keeps_locks \<open>statements of a program that keeps to its locks\<close>

lemma agree_job:
  assumes "agree L v w" and "JobRow i \<in> L"
  shows "filter (by_id i) (jobs v) = filter (by_id i) (jobs w)"
proof -
  have sub: "{i} \<subseteq> locked_jobs L" using assms(2) by (simp add: locked_jobs_def)
  have "jobs_in {i} v = jobs_in {i} w" using assms(1) unfolding jobs_in_sub [OF sub] by (simp add: agree_def)
  then show ?thesis by (simp add: jobs_in_def)
qed

lemma agree_attempts:
  assumes "agree L v w" and "JobRow i \<in> L"
  shows "attempts_of i (attempts v) = attempts_of i (attempts w)"
proof -
  have sub: "{i} \<subseteq> locked_jobs L" using assms(2) by (simp add: locked_jobs_def)
  have "attempts_in {i} v = attempts_in {i} w" using assms(1) unfolding attempts_in_sub [OF sub] by (simp add: agree_def)
  then show ?thesis by (simp add: attempts_in_def attempts_of_def)
qed

lemma agree_job_exists: "agree L v w \<Longrightarrow> JobRow i \<in> L \<Longrightarrow> i \<in> job_id ` set (jobs v) \<longleftrightarrow> i \<in> job_id ` set (jobs w)"
  using arg_cong [OF agree_job [of L v w i], of set] by (auto simp: image_iff)

lemma depends_update_jobs:
  assumes "\<And>w. agree L v w \<Longrightarrow> filter (p w) (jobs w) = filter (p v) (jobs v)"
  shows "depends_on L (\<lambda>v. (lock_rows (filter (p v) (jobs v)),
    case update_jobs fits (p v) f v of Inl e \<Rightarrow> Inl e | Inr (rows, _) \<Rightarrow> Inr (map SetJob rows, k rows))) v"
  unfolding depends_on_def
proof (intro allI impI)
  fix w
  assume agree: "agree L v w"
  have fits: "list_all (\<lambda>j. q j \<longrightarrow> fits j) js = list_all fits (filter q js)" for q js by (auto simp: list_all_iff)
  show "(lock_rows (filter (p w) (jobs w)),
      case update_jobs fits (p w) f w of Inl e \<Rightarrow> Inl e | Inr (rows, _) \<Rightarrow> Inr (map SetJob rows, k rows)) =
    (lock_rows (filter (p v) (jobs v)),
      case update_jobs fits (p v) f v of Inl e \<Rightarrow> Inl e | Inr (rows, _) \<Rightarrow> Inr (map SetJob rows, k rows))"
    unfolding update_jobs_def fits assms [OF agree] by (simp split: if_split)
qed

lemma depends_exec_jobs:
  assumes "\<And>w. agree L v w \<Longrightarrow> filter p (jobs w) = filter p (jobs v)"
  shows "depends_on L (\<lambda>v. (lock_rows (filter p (jobs v)),
     case exec_jobs p f v of Inl e \<Rightarrow> Inl e | Inr (n, _) \<Rightarrow> Inr (map SetJob (map f (filter p (jobs v))), k n))) v"
  unfolding depends_on_def
proof (intro allI impI)
  fix w
  assume "agree L v w"
  from assms [OF this] show "(lock_rows (filter p (jobs w)),
      case exec_jobs p f w of Inl e \<Rightarrow> Inl e | Inr (n, _) \<Rightarrow> Inr (map SetJob (map f (filter p (jobs w))), k n)) =
    (lock_rows (filter p (jobs v)),
      case exec_jobs p f v of Inl e \<Rightarrow> Inl e | Inr (n, _) \<Rightarrow> Inr (map SetJob (map f (filter p (jobs v))), k n))"
    by (simp add: exec_jobs_def affected_def)
qed

lemma covers_jobs: "list_all (covers (L \<union> lock_rows js)) (map SetJob js)"
  by (auto simp: list_all_iff covers_def lock_rows_def)

lemma lock_rows_map: "job_touch f \<Longrightarrow> lock_rows (map f js) = lock_rows js"
  by (auto simp: lock_rows_def image_image job_touch_def)

lemma safe_update_jobs [keeps_locks]:
  assumes "JobRow i \<in> L" and "job_touch f" and "\<And>rows. \<forall>j \<in> set rows. job_id j = i \<Longrightarrow> safe L (k rows)"
  shows "safe L (update_jobs_rows fits (\<lambda>_. by_id i) f k)"
  unfolding update_jobs_rows_def
proof (rule safe_statementI)
  show "locked_jobs (fst (lock_rows (filter (by_id i) (jobs v)), case update_jobs fits (by_id i) f v of Inl e \<Rightarrow> Inl e
    | Inr (rows, _) \<Rightarrow> Inr (map SetJob rows, k rows))) \<subseteq> locked_jobs L" for v
    using assms(1) by (auto simp: locked_jobs_def lock_rows_def)
next
  fix v :: db and new ws p
  let ?rows = "filter (by_id i) (jobs v)"
  assume "(lock_rows ?rows, case update_jobs fits (by_id i) f v of Inl e \<Rightarrow> Inl e
    | Inr (rows, _) \<Rightarrow> Inr (map SetJob rows, k rows)) = (new, Inr (ws, p))"
  then have eq: "new = lock_rows ?rows" "ws = map SetJob (map f ?rows)" "p = k (map f ?rows)"
    by (auto simp: update_jobs_def split: if_splits)
  have new: "L \<union> new = L" using assms(1) by (auto simp: eq(1) lock_rows_def)
  have "list_all (covers (L \<union> new)) ws"
    using covers_jobs [of L "map f ?rows"] by (simp add: eq lock_rows_map [OF assms(2)] del: map_map)
  moreover have "safe L p" using assms(2) by (auto simp: eq(3) job_touch_def intro!: assms(3))
  ultimately show "list_all (covers (L \<union> new)) ws \<and> depends_on (L \<union> new)
      (\<lambda>v. (lock_rows (filter (by_id i) (jobs v)), case update_jobs fits (by_id i) f v of Inl e \<Rightarrow> Inl e
        | Inr (rows, _) \<Rightarrow> Inr (map SetJob rows, k rows))) v \<and> safe (L \<union> new) p"
    unfolding new using depends_update_jobs [of L v "\<lambda>_. by_id i"] agree_job [OF _ assms(1)] by simp
qed

lemma safe_update_attempts [keeps_locks]:
  assumes "JobRow i \<in> L" and "attempt_touch g" and "\<And>n. safe L (k n)"
  shows "safe L (update_attempts_rows (attempt_fenced i t) g k)"
  unfolding update_attempts_rows_def
proof (rule safe_statementI)
  let ?p = "attempt_fenced i t"
  let ?f = "\<lambda>v. (AttemptKey ` att_id ` set (filter ?p (attempts v)),
     case update_attempts ?p g v of Inl e \<Rightarrow> Inl e | Inr (n, _) \<Rightarrow> Inr (map SetAttempt (map g (filter ?p (attempts v))), k n))"
  show "locked_jobs (fst (?f v)) \<subseteq> locked_jobs L" for v by (simp add: locked_keys)
  fix v :: db and new ws p
  assume "?f v = (new, Inr (ws, p))"
  then have eq: "ws = map SetAttempt (map g (filter ?p (attempts v)))" "p = k (affected ?p (attempts v))"
    by (simp_all add: update_attempts_def)
  have "list_all (covers (L \<union> new)) ws"
    using assms(1,2) by (auto simp: eq list_all_iff covers_def attempt_touch_def attempt_fenced_def)
  moreover have "depends_on (L \<union> new) ?f v"
  proof -
    have "filter ?p (attempts w) = filter ?p (attempts_of i (attempts w))" for w
      unfolding attempts_of_def filter_filter by (rule filter_cong) (auto simp: attempt_fenced_def)
    then have same: "filter ?p (attempts w) = filter ?p (attempts v)" if "agree (L \<union> new) v w" for w
      using agree_attempts [OF that, of i] assms(1) by (metis UnI1)
    show ?thesis
      unfolding depends_on_def update_attempts_def affected_def by (intro allI impI) (simp only: same, simp)
  qed
  moreover have "safe (L \<union> new) p" unfolding eq(2) by (rule safe_mono [OF assms(3)]) simp
  ultimately show "list_all (covers (L \<union> new)) ws \<and> depends_on (L \<union> new) ?f v \<and> safe (L \<union> new) p" by blast
qed

lemma safe_insert_attempt [keeps_locks]:
  assumes "JobRow (att_job_id a) \<in> L" and "\<And>rows. safe L (k rows)"
  shows "safe L (insert_attempt_row a k)"
  unfolding insert_attempt_row_def
proof (rule safe_statementI)
  let ?f = "\<lambda>v. ({AttemptKey (att_id a)},
     case insert_attempt a v of Inl e \<Rightarrow> Inl e | Inr (rows, _) \<Rightarrow> Inr (map AddAttempt rows, k rows))"
  show "locked_jobs (fst (?f v)) \<subseteq> locked_jobs L" for v by (simp add: locked_keys)
  fix v :: db and new ws p
  assume "?f v = (new, Inr (ws, p))"
  then have eq: "new = {AttemptKey (att_id a)}" "ws = [AddAttempt a]" "p = k [a]"
    by (auto simp: insert_attempt_def Let_def split: if_splits)
  have "list_all (covers (L \<union> new)) ws" using assms(1) by (simp add: eq covers_def)
  moreover have "?f w = ?f v" if "agree (L \<union> new) v w" for w
  proof -
    have "att_id a \<in> att_keys v \<longleftrightarrow> att_id a \<in> att_keys w" using that by (simp add: agree_def eq(1))
    moreover have "att_job_id a \<in> job_id ` set (jobs v) \<longleftrightarrow> att_job_id a \<in> job_id ` set (jobs w)"
      using agree_job_exists [OF that] assms(1) by simp
    moreover have "attempts_of (att_job_id a) (attempts v) = attempts_of (att_job_id a) (attempts w)"
      using agree_attempts [OF that] assms(1) by simp
    ultimately show ?thesis by (simp add: insert_attempt_def att_keys_def Let_def)
  qed
  moreover have "safe (L \<union> new) p" unfolding eq(3) by (rule safe_mono [OF assms(2)]) simp
  ultimately show "list_all (covers (L \<union> new)) ws \<and> depends_on (L \<union> new) ?f v \<and> safe (L \<union> new) p"
    unfolding depends_on_def by blast
qed

lemma check_log_keeps: "check_log p = Inr q \<Longrightarrow> lp_job_id q = lp_job_id p \<and> lp_attempt_id q = lp_attempt_id p"
  by (auto simp: check_log_def Let_def split: if_splits)

lemma safe_append_log [keeps_locks]:
  assumes "JobRow (lp_job_id p) \<in> L" and "lp_attempt_id p = None" and "\<And>l. safe L (k l)"
  shows "safe L (append_log_row jsonb now gid p k)"
proof (cases "check_log p")
  case (Inl e)
  then show ?thesis by (simp add: append_log_row_def safe.safe_fail)
next
  case (Inr q)
  let ?f = "\<lambda>v. ({LogKey gid}, case insert_log jsonb now gid q v of Inl e \<Rightarrow> Inl e | Inr (l, _) \<Rightarrow> Inr ([AddLog l], k l))"
  have q: "JobRow (lp_job_id q) \<in> L" "lp_attempt_id q = None" using check_log_keeps [OF Inr] assms(1,2) by simp_all
  have "safe L (Statement ?f)"
  proof (rule safe_statementI)
    show "locked_jobs (fst (?f v)) \<subseteq> locked_jobs L" for v by (simp add: locked_keys)
  next
    fix v :: db and new ws p'
    assume "?f v = (new, Inr (ws, p'))"
    then obtain l where eq: "new = {LogKey gid}" "ws = [AddLog l]" "p' = k l" "log_id l = gid"
      by (auto simp: insert_log_def Let_def split: if_splits option.splits)
    have "list_all (covers (L \<union> new)) ws" by (simp add: eq covers_def)
    moreover have "?f w = ?f v" if "agree (L \<union> new) v w" for w
    proof -
      have "gid \<in> log_keys v \<longleftrightarrow> gid \<in> log_keys w" using that by (simp add: agree_def eq(1))
      moreover have "lp_job_id q \<in> job_id ` set (jobs v) \<longleftrightarrow> lp_job_id q \<in> job_id ` set (jobs w)"
        using agree_job_exists [OF that] q(1) by simp
      ultimately show ?thesis by (simp add: insert_log_def log_keys_def Let_def q(2))
    qed
    moreover have "safe (L \<union> new) p'" unfolding eq(3) by (rule safe_mono [OF assms(3)]) simp
    ultimately show "list_all (covers (L \<union> new)) ws \<and> depends_on (L \<union> new) ?f v \<and> safe (L \<union> new) p'"
      unfolding depends_on_def by blast
  qed
  then show ?thesis by (simp add: append_log_row_def Inr)
qed

lemma safe_scan [keeps_locks]: "(\<And>j. j \<in> set rows \<Longrightarrow> safe L (k j)) \<Longrightarrow> safe L (scan_then rows k)"
  by (cases rows) (simp_all add: scan_then_def scan_row_def safe.intros)

lemma safe_if [keeps_locks]: "safe L p \<Longrightarrow> safe L q \<Longrightarrow> safe L (if b then p else q)"
  by simp

lemmas safe_ends [keeps_locks] = safe.safe_return safe.safe_fail

section \<open>The first statements\<close>

text \<open>
  \<open>ORDER BY ... LIMIT n\<close> over the rows that it chose before chooses them again, whatever the other rows have
  become: this is what SKIP LOCKED needs.
\<close>

lemma filter_chosen:
  assumes "distinct (map key zs)"
  shows "filter (\<lambda>z. key z \<in> key ` set (take n zs)) zs = take n zs"
proof -
  have "set (map key (take n zs)) \<inter> set (map key (drop n zs)) = {}"
    using assms by (metis append_take_drop_id distinct_append map_append)
  then have "filter (\<lambda>z. key z \<in> key ` set (take n zs)) (drop n zs) = []" by (auto simp: filter_empty_conv)
  moreover have "filter (\<lambda>z. key z \<in> key ` set (take n zs)) (take n zs) = take n zs" by (rule filter_True) simp
  ultimately show ?thesis by (metis append_take_drop_id append_Nil2 filter_append)
qed

context row_order begin

lemma insert_filter:
  "sorted_wrt le ys \<Longrightarrow> filter q (insert_by le x ys) = (if q x then insert_by le x (filter q ys) else filter q ys)"
proof (induction ys)
  case (Cons y ys)
  have "insert_by le x (filter q (y # ys)) = x # filter q (y # ys)" if "le x y"
  proof (cases "filter q (y # ys)")
    case (Cons z zs)
    then have "z \<in> set (filter q (y # ys))" by simp
    then have "z \<in> set (y # ys)" by (auto split: if_splits)
    then have "le y z" using Cons.prems le_refl by auto
    then have "le x z" by (rule le_trans [OF that])
    then show ?thesis using Cons by simp
  qed simp
  then show ?case using Cons by auto
qed simp

lemma order_filter: "order_by le (filter q xs) = filter q (order_by le xs)"
  by (induction xs) (simp_all add: insert_filter sorted_order_by)

lemma limit_again:
  assumes "distinct (map key xs)" and ys: "ys = take n (order_by le (filter p xs))" and "\<And>x. p x \<Longrightarrow> q x"
  shows "take n (order_by le (filter (\<lambda>x. q x \<and> key x \<in> key ` set ys) xs)) = ys"
proof -
  have "p x" if x: "x \<in> set xs" "key x \<in> key ` set ys" for x
  proof -
    obtain y where y: "y \<in> set ys" "key x = key y" using x(2) by blast
    then have "y \<in> set xs" "p y" using set_take_order_by [of y n le "filter p xs"] by (simp_all add: ys)
    then show ?thesis using key_unique [OF assms(1) x(1) _ y(2)] by simp
  qed
  then have "filter (\<lambda>x. q x \<and> key x \<in> key ` set ys) xs = filter (\<lambda>x. key x \<in> key ` set ys) (filter p xs)"
    unfolding filter_filter using assms(3) by (intro filter_cong) auto
  then have "order_by le (filter (\<lambda>x. q x \<and> key x \<in> key ` set ys) xs) =
      filter (\<lambda>x. key x \<in> key ` set ys) (order_by le (filter p xs))" by (simp only: order_filter)
  also have "\<dots> = ys"
    unfolding ys by (rule filter_chosen) (simp add: assms(1) distinct_map_filter)
  finally show ?thesis by (simp add: ys)
qed

end

definition others_of :: "lock set \<Rightarrow> uuid set" where
  "others_of L = - locked_jobs L"

lemma expired_again:
  assumes "keys_ok v"
  shows "expired_jobs (others_of (lock_rows (expired_jobs locked now batch v))) now batch v = expired_jobs locked now batch v"
  using recoveries.limit_again [of job_id "jobs v" "expired_jobs locked now batch v" "nat (batch_size batch)"
      "\<lambda>j. lease_expired now j \<and> job_id j \<notin> locked" "lease_expired now"] assms
  by (simp add: keys_ok_def expired_jobs_def others_of_def)

lemma agree_filter:
  assumes "agree L v w"
  shows "filter (\<lambda>j. q j \<and> job_id j \<in> locked_jobs L) (jobs w) = filter (\<lambda>j. q j \<and> job_id j \<in> locked_jobs L) (jobs v)"
proof -
  have "filter (\<lambda>j. q j \<and> job_id j \<in> locked_jobs L) (jobs u) = filter q (jobs_in (locked_jobs L) u)" for u
    by (simp add: jobs_in_def conj_commute)
  then show ?thesis using assms by (simp add: agree_def)
qed

lemma expired_depends: "agree L v w \<Longrightarrow> expired_jobs (others_of L) now batch w = expired_jobs (others_of L) now batch v"
  by (simp add: expired_jobs_def others_of_def agree_filter)

lemma picked_again:
  assumes "keys_ok v" and rows: "rows = filter (\<lambda>j. job_id j \<in> set (picked locked now queue v)) (jobs v)"
  shows "picked (others_of (lock_rows rows)) now queue v = picked locked now queue v"
proof -
  let ?ys = "take 1 (order_by claim_order (filter (\<lambda>j. claim_due now queue j \<and> job_id j \<notin> locked) (jobs v)))"
  have "set ?ys \<subseteq> set (jobs v)" by (auto dest: set_take_order_by)
  then have "job_id ` set rows = job_id ` set ?ys" unfolding rows picked_def by auto
  then show ?thesis
    using claims.limit_again [of job_id "jobs v" ?ys 1 "\<lambda>j. claim_due now queue j \<and> job_id j \<notin> locked" "claim_due now queue"]
      assms(1) by (simp add: keys_ok_def picked_def others_of_def)
qed

lemma picked_depends: "agree L v w \<Longrightarrow> picked (others_of L) now queue w = picked (others_of L) now queue v"
  by (simp add: picked_def others_of_def agree_filter)

definition anchor :: "db \<Rightarrow> lock set \<Rightarrow> row_write list \<Rightarrow> program \<Rightarrow> bool" where
  "anchor v new ws p \<longleftrightarrow> (\<exists>e. p = Fail e) \<or> (\<exists>g. lease_program (Statement g) \<and> g v = (new, Inr (ws, p)) \<and>
     depends_on new g v \<and> list_all (covers new) ws \<and> safe new p)"

lemma select_anchor:
  assumes f: "Statement f = select_rows sel k" "f v = (new, Inr (ws, p))"
    and "lease_program (select_rows sel' k)" and "sel' v = sel v"
    and "\<And>w. agree (lock_rows (sel v)) v w \<Longrightarrow> sel' w = sel' v" and "safe (lock_rows (sel v)) (k (sel v))"
  shows "anchor v new ws p"
proof -
  let ?g = "\<lambda>v. (lock_rows (sel' v), Inr ([], k (sel' v)) :: error + row_write list \<times> program)"
  have eq: "new = lock_rows (sel v)" "ws = []" "p = k (sel v)" using f by (auto simp: select_rows_def)
  have "depends_on new ?g v" unfolding depends_on_def eq(1) by (intro allI impI, drule assms(5)) simp
  then show ?thesis using assms(3,4,6) by (auto simp: anchor_def select_rows_def eq)
qed

lemma rows_of_job: "sel v = filter (\<lambda>j. job_id j = i \<and> q j) (jobs v) \<Longrightarrow> sel v \<noteq> [] \<Longrightarrow> lock_rows (sel v) = {JobRow i}"
  by (auto simp: lock_rows_def filter_empty_conv)

lemma agree_row: "agree {JobRow i} v w \<Longrightarrow> filter (\<lambda>j. job_id j = i \<and> q j) (jobs w) = filter (\<lambda>j. job_id j = i \<and> q j) (jobs v)"
  using agree_filter [of "{JobRow i}" v w q] by (simp add: locked_jobs_def conj_commute)

lemma complete_anchor:
  assumes "Statement f = complete_program now i t" and "f v = (new, Inr (ws, p))"
  shows "anchor v new ws p"
proof -
  let ?rows = "filter (job_fenced i t) (jobs v)"
  let ?k = "\<lambda>tag. if tag \<noteq> 1 then Fail (ErrNew ''job completion rejected by lease fencing'')
     else update_attempts_rows (attempt_fenced i t) (attempt_succeed now) (\<lambda>tag.
     if tag \<noteq> 1 then Fail (ErrNew ''job attempt completion rejected by lease fencing'')
     else Return Completed)"
  have eq: "new = lock_rows ?rows" "ws = map SetJob (map (complete_set now) ?rows)" "p = ?k (length ?rows)"
    using assms by (auto simp: complete_program_def exec_jobs_rows_def exec_jobs_def affected_def)
  show ?thesis
  proof (cases "length ?rows = 1")
    case False
    then show ?thesis by (simp add: anchor_def eq(3))
  next
    case True
    then have "?rows \<noteq> []" by auto
    then have new: "new = {JobRow i}" unfolding eq(1) using rows_of_job [of "\<lambda>v. ?rows" v i] by (simp add: job_fenced_def [abs_def])
    have "depends_on new f v"
    proof -
      have f: "f = (\<lambda>v. (lock_rows (filter (job_fenced i t) (jobs v)),
          case exec_jobs (job_fenced i t) (complete_set now) v of Inl e \<Rightarrow> Inl e
          | Inr (n, _) \<Rightarrow> Inr (map SetJob (map (complete_set now) (filter (job_fenced i t) (jobs v))), ?k n)))"
        using assms(1) unfolding complete_program_def exec_jobs_rows_def by (simp only: program.inject)
      show ?thesis
        unfolding f new by (rule depends_exec_jobs) (simp add: job_fenced_def [abs_def] agree_row)
    qed
    moreover have "list_all (covers new) ws"
      using covers_jobs [of "{}" "map (complete_set now) ?rows"] lock_rows_map [OF job_touchI(2), of now ?rows]
      by (simp add: eq(1,2) del: map_map)
    moreover have "safe new p" unfolding eq(3) new by (intro keeps_locks attempt_touchI) simp
    ultimately show ?thesis using assms lease_program.complete [of now i t] unfolding anchor_def by (metis prod.inject)
  qed
qed

lemma fail_anchor:
  assumes "Statement f = fail_program now i t message policy" and "f v = (new, Inr (ws, p))"
  shows "anchor v new ws p"
proof (cases "filter (job_fenced i t) (jobs v) = []")
  case True
  then have "p = Fail (ErrNew ''job failure rejected by lease fencing'')"
    using assms by (auto simp: fail_program_def Let_def select_rows_def scan_row_def)
  then show ?thesis by (simp add: anchor_def)
next
  case False
  have locks: "lock_rows (filter (job_fenced i t) (jobs v)) = {JobRow i}"
    using rows_of_job [of "\<lambda>v. filter (job_fenced i t) (jobs v)" v i] False by (simp add: job_fenced_def [abs_def])
  show ?thesis
  proof (rule select_anchor [OF assms(1) [unfolded fail_program_def Let_def] assms(2)])
    show "lease_program (select_rows (\<lambda>d. filter (job_fenced i t) (jobs d))
        (\<lambda>rows. case scan_row rows of
           Inl _ \<Rightarrow> Fail (ErrNew ''job failure rejected by lease fencing'')
         | Inr job \<Rightarrow> update_jobs_rows (\<lambda>j. True) (\<lambda>_. by_id i)
               (fail_set now (DelayForAttempt (Normalize policy) (job_attempt_count job)) message job) (\<lambda>rows.
             scan_then rows (\<lambda>updated.
             update_attempts_rows (attempt_fenced i t) (attempt_fail now message) (\<lambda>tag.
             if tag \<noteq> 1 then Fail (ErrNew ''job attempt failure rejected by lease fencing'')
             else Return (FailedAs updated))))))"
      using lease_program.failure [of now i t message policy] by (simp add: fail_program_def)
    show "filter (job_fenced i t) (jobs w) = filter (job_fenced i t) (jobs v)"
      if "agree (lock_rows (filter (job_fenced i t) (jobs v))) v w" for w
      using that unfolding locks by (simp add: job_fenced_def [abs_def] agree_row)
  qed (use False in \<open>auto simp: locks scan_row_def neq_Nil_conv intro!: keeps_locks job_touchI attempt_touchI\<close>)
qed

text \<open>A program that starts with \<open>SELECT ... WHERE id = $1 FOR UPDATE\<close> and fails where there is no row.\<close>

lemma select_job_anchor:
  assumes "Statement f = select_rows (select_job i) (\<lambda>rows. scan_then rows k)" and "f v = (new, Inr (ws, p))"
    and "lease_program (select_rows (select_job i) (\<lambda>rows. scan_then rows k))"
    and "\<And>j. job_id j = i \<Longrightarrow> safe {JobRow i} (k j)"
  shows "anchor v new ws p"
proof (cases "select_job i v = []")
  case True
  then have "p = Fail ErrNoRows" using assms(1,2) by (auto simp: select_rows_def scan_then_def scan_row_def)
  then show ?thesis by (simp add: anchor_def)
next
  case False
  have locks: "lock_rows (select_job i v) = {JobRow i}"
    using rows_of_job [of "select_job i" v i "\<lambda>j. True"] False by (simp add: select_job_def)
  show ?thesis
  proof (rule select_anchor [OF assms(1-3) refl])
    show "select_job i w = select_job i v" if "agree (lock_rows (select_job i v)) v w" for w
      using that agree_row [of i v w "\<lambda>j. True"] unfolding locks by (simp add: select_job_def)
    show "safe (lock_rows (select_job i v)) (scan_then (select_job i v) k)"
      unfolding locks by (rule safe_scan) (simp add: assms(4) select_job_def)
  qed
qed

lemma retry_anchor:
  assumes "Statement f = retry_program jsonb now gid i" and "f v = (new, Inr (ws, p))"
  shows "anchor v new ws p"
  using assms(1) unfolding retry_program_def
  by (rule select_job_anchor [where f = f and v = v, OF _ assms(2)])
    (use lease_program.retry [of jsonb now gid i] in \<open>simp add: retry_program_def\<close>,
     auto simp: status_log_def intro!: keeps_locks)

lemma cancel_anchor:
  assumes "Statement f = cancel_program jsonb now gid i" and "f v = (new, Inr (ws, p))"
  shows "anchor v new ws p"
  using assms(1) unfolding cancel_program_def
  by (rule select_job_anchor [where f = f and v = v, OF _ assms(2)])
    (use lease_program.cancel [of jsonb now gid i] in \<open>simp add: cancel_program_def\<close>,
     auto simp: status_log_def intro!: keeps_locks)

lemma safe_recover_each: "lock_rows js \<subseteq> L \<Longrightarrow> safe L (recover_each now reason js acc)"
proof (induction js arbitrary: acc)
  case (Cons job js)
  have row: "JobRow (job_id job) \<in> L" and rest: "lock_rows js \<subseteq> L" using Cons.prems by (auto simp: lock_rows_def)
  have "safe L (update_jobs_rows (\<lambda>j. True) (\<lambda>_. by_id (job_id job)) (recover_set now reason job) (\<lambda>rows.
      scan_then rows (\<lambda>recovered. recover_each now reason js (acc @ [recovered]))))"
    by (intro keeps_locks row job_touchI Cons.IH rest)
  then show ?case
    by (cases "job_lease_token job") (auto simp: Let_def intro!: safe_update_attempts row attempt_touchI)
qed (simp add: safe.safe_return)

lemma recover_anchor:
  assumes "Statement f = recover_program locked now batch reason" and "f v = (new, Inr (ws, p))" and "keys_ok v"
  shows "anchor v new ws p"
proof -
  let ?locks = "lock_rows (expired_jobs locked now batch v)"
  show ?thesis
  proof (rule select_anchor [OF assms(1) [unfolded recover_program_def Let_def] assms(2)])
    show "lease_program (select_rows (expired_jobs (others_of ?locks) now batch)
        (\<lambda>expired. recover_each now (if reason = [] then ''job lease expired'' else reason) expired []))"
      using lease_program.recover [of "others_of ?locks" now batch reason] by (simp add: recover_program_def)
    show "expired_jobs (others_of ?locks) now batch v = expired_jobs locked now batch v"
      by (rule expired_again [OF assms(3)])
  qed (simp_all add: expired_depends safe_recover_each)
qed

lemma claim_anchor:
  assumes f: "Statement f = claim_program locked now gid t queue w lease" and run: "f v = (new, Inr (ws, p))" and keys: "keys_ok v"
  shows "anchor v new ws p"
proof -
  let ?queue = "if queue = [] then ''default'' else queue" and ?w = "if w = [] then ''worker-unknown'' else w"
  let ?fits = "\<lambda>j. int32 (job_attempt_count j + 1)" and ?set = "claim_set now ?w lease t"
  let ?p = "\<lambda>locked v j. job_id j \<in> set (picked locked now ?queue v)"
  let ?k = "\<lambda>rows. case scan_row rows of Inl _ \<Rightarrow> Return (Claimed None)
         | Inr job \<Rightarrow> insert_attempt_row (new_attempt now gid (job_id job) ?w t (job_attempt_count job)) (\<lambda>rows.
             case scan_row rows of Inl e \<Rightarrow> Fail e | Inr attempt \<Rightarrow> Return (Claimed (Some (job, attempt))))"
  let ?f = "\<lambda>locked v. (lock_rows (filter (?p locked v) (jobs v)),
     case update_jobs ?fits (?p locked v) ?set v of Inl e \<Rightarrow> Inl e | Inr (rows, _) \<Rightarrow> Inr (map SetJob rows, ?k rows))"
  have program: "claim_program l now gid t queue w lease = Statement (?f l)" for l
    unfolding claim_program_def update_jobs_rows_def Let_def ..
  let ?rows = "filter (?p locked v) (jobs v)"
  have eq: "new = lock_rows ?rows" "ws = map SetJob (map ?set ?rows)" "p = ?k (map ?set ?rows)"
    using f run by (auto simp: program update_jobs_def split: if_splits)
  let ?l = "others_of new"
  have again: "picked ?l now ?queue v = picked locked now ?queue v"
    unfolding eq(1) by (rule picked_again [OF keys refl])
  have fl: "f = ?f locked" using f unfolding program by (simp only: program.inject)
  have "depends_on new (?f ?l) v"
  proof (rule depends_update_jobs)
    fix u
    assume agree: "agree new v u"
    have pick: "?p ?l u = ?p ?l v" by (simp add: picked_depends [OF agree])
    have "set (picked ?l now ?queue v) \<subseteq> locked_jobs new"
      by (auto simp: picked_def others_of_def dest: set_take_order_by)
    then have both: "filter (?p ?l v) js = filter (\<lambda>j. ?p ?l v j \<and> job_id j \<in> locked_jobs new) js" for js
      by (intro filter_cong) auto
    show "filter (?p ?l u) (jobs u) = filter (?p ?l v) (jobs v)"
      unfolding pick by (rule trans [OF both trans [OF agree_filter [OF agree] both [symmetric]]])
  qed
  moreover have "?f ?l v = (new, Inr (ws, p))" using run unfolding fl again .
  moreover have "list_all (covers new) ws"
    using covers_jobs [of "{}" "map ?set ?rows"] lock_rows_map [OF job_touchI(1), of now ?w lease t ?rows]
    by (simp add: eq(1,2) del: map_map)
  moreover have "safe (lock_rows rs) (?k (map ?set rs))" for rs
    by (cases rs) (auto simp: scan_row_def new_attempt_simps lock_rows_def split: list.split intro!: keeps_locks)
  then have "safe new p" unfolding eq(1,3) .
  ultimately show ?thesis using lease_program.claim [of ?l now gid t queue w lease] unfolding program anchor_def by blast
qed

lemma lease_program_starts: "lease_program p \<Longrightarrow> \<exists>f. p = Statement f"
  by (induction rule: lease_program.induct)
    (simp_all add: claim_program_def complete_program_def fail_program_def recover_program_def retry_program_def
      cancel_program_def update_jobs_rows_def exec_jobs_rows_def select_rows_def Let_def)

lemma lease_program_anchor:
  assumes "lease_program (Statement f)" and "db_ok v" and "f v = (new, Inr (ws, p))"
  shows "anchor v new ws p"
  using assms(1)
proof cases
  case claim
  then show ?thesis using claim_anchor [where f = f and v = v, OF _ assms(3) db_ok_keys [OF assms(2)]] by simp
next
  case complete
  then show ?thesis using complete_anchor [where f = f and v = v, OF _ assms(3)] by simp
next
  case failure
  then show ?thesis using fail_anchor [where f = f and v = v, OF _ assms(3)] by simp
next
  case recover
  then show ?thesis using recover_anchor [where f = f and v = v, OF _ assms(3) db_ok_keys [OF assms(2)]] by simp
next
  case retry
  then show ?thesis using retry_anchor [where f = f and v = v, OF _ assms(3)] by simp
next
  case cancel
  then show ?thesis using cancel_anchor [where f = f and v = v, OF _ assms(3)] by simp
qed

interpretation leases: transactions lease_program atomically
proof
  show "lease_program p \<Longrightarrow> \<exists>f. p = Statement f" for p by (rule lease_program_starts)
  show "lease_program (Statement f) \<Longrightarrow> db_ok v \<Longrightarrow> f v = (new, Inr (ws, p)) \<Longrightarrow>
      (\<exists>e. p = Fail e) \<or> (\<exists>g. lease_program (Statement g) \<and> g v = (new, Inr (ws, p)) \<and> depends_on new g v \<and>
        list_all (covers new) ws \<and> safe new p)" for f v new ws p
    using lease_program_anchor by (simp add: anchor_def)
  show "lease_program p \<Longrightarrow> db_ok d \<Longrightarrow> finishes p d r d' \<Longrightarrow> atomically r d d'" for p d r d'
    by (rule lease_program_alone)
  show "atomically r d d' \<Longrightarrow> store_step d d'" for r d d' by (rule atomically_operation)
qed

section \<open>Property\<close>

text \<open>
  C4. READ COMMITTED is enough. However the statements of claims, completions, failures, recoveries, manual
  retries and cancellations interleave, with rollbacks anywhere and other operations in between: what is
  committed is what a sequence of atomic operations makes, so that the invariant and every property of such
  runs hold of it; the answer that a transaction commits with is the answer of its operation, carried out at
  once on the rows that are then committed; no two transactions hold the same lock; and a transaction that
  holds locks never waits for a job row, so that they do not block each other for ever.
\<close>

theorem read_committed_is_enough:
  assumes "(server_step lease_program)\<^sup>*\<^sup>* (idle_server d) s" and "db_ok d"
  shows "store_step\<^sup>*\<^sup>* d (rc_db s) \<and> db_ok (rc_db s) \<and>
    (\<forall>n t r. rc_txns s n = Some t \<and> tx_rest t = Return r \<longrightarrow> atomically r (rc_db s) (put_rows (tx_writes t) (rc_db s))) \<and>
    (\<forall>n m t u. rc_txns s n = Some t \<and> rc_txns s m = Some u \<and> n \<noteq> m \<longrightarrow> tx_locks t \<inter> tx_locks u = {}) \<and>
    (\<forall>n t f v. rc_txns s n = Some t \<and> tx_rest t = Statement f \<and> tx_locks t \<noteq> {} \<longrightarrow>
       locked_jobs (fst (f v)) \<inter> locked_jobs (held_by_others s n) = {})"
proof -
  have s: "leases.in_order s" "store_step\<^sup>*\<^sup>* d (rc_db s)" using leases.run_in_order [OF assms] by simp_all
  then have ok: "db_ok (rc_db s)" by (simp add: leases.in_order_def)
  have "atomically r (rc_db s) (put_rows (tx_writes t) (rc_db s))" if "rc_txns s n = Some t" "tx_rest t = Return r" for n t r
    using leases.commit_atomic [OF _ that(2) ok] s(1) that(1) by (simp add: leases.in_order_def)
  then show ?thesis
    using s(2) ok leases.disjoint_locks [OF s(1)] leases.holder_does_not_wait [OF s(1)] by blast
qed

text \<open>Two workers claim at the same time from a queue of two jobs; the first commits.\<close>

definition two_due :: db where
  "two_due = sample_db\<lparr>jobs := [sample_job, sample_job\<lparr>job_id := 8, job_idempotency_key := None\<rparr>]\<rparr>"

definition claim_of :: "uuid set \<Rightarrow> uuid \<Rightarrow> program" where
  "claim_of locked g = claim_program locked 300 g g ''default'' ''w'' 1"

definition fresh_txn :: "program \<Rightarrow> txn" where
  "fresh_txn p = \<lparr>tx_locks = {}, tx_writes = [], tx_rest = p\<rparr>"

definition advance :: "db \<Rightarrow> txn \<Rightarrow> txn option" where
  "advance d t = (case tx_rest t of
     Statement f \<Rightarrow> (case f (put_rows (tx_writes t) d) of
         (new, Inr (ws, p)) \<Rightarrow> Some \<lparr>tx_locks = tx_locks t \<union> new, tx_writes = tx_writes t @ ws, tx_rest = p\<rparr>
       | _ \<Rightarrow> None)
   | _ \<Rightarrow> None)"

lemma advance_step:
  assumes "rc_txns s n = Some t" and "advance (rc_db s) t = Some u" and "tx_locks u \<inter> held_by_others s n = {}"
  shows "server_step lease_program s (s\<lparr>rc_txns := (rc_txns s)(n \<mapsto> u)\<rparr>)"
proof -
  obtain f new ws p where f: "tx_rest t = Statement f" "f (put_rows (tx_writes t) (rc_db s)) = (new, Inr (ws, p))"
      and u: "u = \<lparr>tx_locks = tx_locks t \<union> new, tx_writes = tx_writes t @ ws, tx_rest = p\<rparr>"
    using assms(2) by (auto simp: advance_def split: program.splits prod.splits sum.splits)
  have "new \<inter> held_by_others s n = {}" using assms(3) by (auto simp: u)
  then show ?thesis unfolding u by (rule server_step.statement [OF assms(1) f])
qed

lemma two_due_ok: "db_ok two_due"
  using sample_db_ok
  by (simp add: db_ok_def two_due_def sample_db_def empty_db_def jobs_ok_def idempotency_keys_def map_filter_simps
      attempts_of_def sample_job_def job_ok_def count_ok_def lease_ok_def status_ok_def terminal_def claimable_def
      normalizedMaxAttempts_def logs_ok_def workers_ok_def cron_ok_def)

lemma first_claim:
  "case advance two_due (fresh_txn (claim_of {} 1)) of
     None \<Rightarrow> False
   | Some t \<Rightarrow> tx_locks t = {JobRow 7} \<and> (case advance two_due t of
       None \<Rightarrow> False
     | Some u \<Rightarrow> tx_locks u = {JobRow 7, AttemptKey 1} \<and> (case tx_rest u of Return r \<Rightarrow> True | _ \<Rightarrow> False) \<and>
         map job_status (jobs (put_rows (tx_writes u) two_due)) = [Running, Queued])"
  by code_simp

lemma second_claim:
  "case advance two_due (fresh_txn (claim_of {7} 2)) of None \<Rightarrow> False | Some t \<Rightarrow> tx_locks t = {JobRow 8}"
  by code_simp

theorem read_committed_is_enough_witness:
  "\<exists>s t. (server_step lease_program)\<^sup>*\<^sup>* (idle_server two_due) s \<and> store_step\<^sup>*\<^sup>* two_due (rc_db s) \<and> db_ok (rc_db s) \<and>
     map job_status (jobs (rc_db s)) = [Running, Queued] \<and> rc_txns s 1 = Some t \<and> tx_locks t = {JobRow 8}"
proof -
  let ?step = "server_step lease_program" and ?c1 = "fresh_txn (claim_of {} 1)" and ?c2 = "fresh_txn (claim_of {7} 2)"
  obtain t u where t: "advance two_due ?c1 = Some t" "tx_locks t = {JobRow 7}"
      and u: "advance two_due t = Some u" "tx_locks u = {JobRow 7, AttemptKey 1}"
        "map job_status (jobs (put_rows (tx_writes u) two_due)) = [Running, Queued]"
      and "case tx_rest u of Return r \<Rightarrow> True | _ \<Rightarrow> False"
    using first_claim by (auto split: option.splits)
  then obtain r where r: "tx_rest u = Return r" by (cases "tx_rest u") simp_all
  obtain v where v: "advance two_due ?c2 = Some v" "tx_locks v = {JobRow 8}" using second_claim by (auto split: option.splits)
  let ?s = "\<lambda>m. \<lparr>rc_db = two_due, rc_txns = m\<rparr>"
  have "?step (idle_server two_due) (?s [0 \<mapsto> ?c1])"
    using server_step.begin_tx [of "idle_server two_due" 0 lease_program "claim_of {} 1"] lease_program.claim
    by (simp add: idle_server_def fresh_txn_def claim_of_def)
  moreover have "?step (?s [0 \<mapsto> ?c1]) (?s [0 \<mapsto> ?c1, 1 \<mapsto> ?c2])"
    using server_step.begin_tx [of "?s [0 \<mapsto> ?c1]" 1 lease_program "claim_of {7} 2"] lease_program.claim
    by (simp add: fresh_txn_def claim_of_def)
  moreover have "?step (?s [0 \<mapsto> ?c1, 1 \<mapsto> ?c2]) (?s [0 \<mapsto> t, 1 \<mapsto> ?c2])"
    using advance_step [of "?s [0 \<mapsto> ?c1, 1 \<mapsto> ?c2]" 0 ?c1 t] t
    by (simp add: held_by_others_def fresh_txn_def fun_upd_twist)
  moreover have "?step (?s [0 \<mapsto> t, 1 \<mapsto> ?c2]) (?s [0 \<mapsto> t, 1 \<mapsto> v])"
    using advance_step [of "?s [0 \<mapsto> t, 1 \<mapsto> ?c2]" 1 ?c2 v] v t(2) by (simp add: held_by_others_def)
  moreover have "?step (?s [0 \<mapsto> t, 1 \<mapsto> v]) (?s [0 \<mapsto> u, 1 \<mapsto> v])"
    using advance_step [of "?s [0 \<mapsto> t, 1 \<mapsto> v]" 0 t u] u(1,2) v(2) by (simp add: held_by_others_def fun_upd_twist)
  moreover have "?step (?s [0 \<mapsto> u, 1 \<mapsto> v]) \<lparr>rc_db = put_rows (tx_writes u) two_due, rc_txns = [1 \<mapsto> v]\<rparr>"
    using server_step.commit [of "?s [0 \<mapsto> u, 1 \<mapsto> v]" 0 u r lease_program] r by (simp add: fun_upd_twist)
  ultimately have "?step\<^sup>*\<^sup>* (idle_server two_due) \<lparr>rc_db = put_rows (tx_writes u) two_due, rc_txns = [1 \<mapsto> v]\<rparr>"
    by (meson converse_rtranclp_into_rtranclp rtranclp.rtrancl_refl)
  from this read_committed_is_enough [OF this two_due_ok] show ?thesis using u(3) v(2) by (intro exI conjI) (auto)
qed

end
