(* ===== verification/Registry.thy ===== *)
theory Registry
  imports Telemetry
begin

text \<open>
  The registry behind \<open>/metrics\<close>: what \<open>NewMetrics\<close> and \<open>RegisterStoreCollector\<close> of
  \<open>internal/observability/metrics.go\<close> register, under which names and with which buckets. \<open>MustRegister\<close> of
  Prometheus panics when a name is taken, and a histogram when its buckets do not increase; here a panic is
  None. The names of the Go and process collectors belong to the library and are a parameter.
\<close>

section \<open>Definitions\<close>

definition namespace :: string where
  "namespace = ''pulsequeue''"

fun family_name :: "family \<Rightarrow> string" where
  "family_name HttpRequests = ''http_requests_total''"
| "family_name HttpDuration = ''http_request_duration_seconds''"
| "family_name JobsSubmitted = ''jobs_submitted_total''"
| "family_name JobsStarted = ''jobs_started_total''"
| "family_name JobsSucceeded = ''jobs_succeeded_total''"
| "family_name JobsFailed = ''jobs_failed_total''"
| "family_name JobsRetried = ''jobs_retried_total''"
| "family_name JobsDeadLettered = ''jobs_dead_lettered_total''"
| "family_name JobDuration = ''job_duration_seconds''"
| "family_name JobLatency = ''job_latency_seconds''"
| "family_name WorkerHeartbeats = ''worker_heartbeat_total''"
| "family_name SchedulerTicks = ''scheduler_ticks_total''"
| "family_name SchedulerRecovered = ''scheduler_recovered_jobs_total''"
| "family_name CronJobsFired = ''cron_jobs_fired_total''"
| "family_name NatsPublishFailed = ''nats_publish_failures_total''"

fun gauge_name :: "gauge_family \<Rightarrow> string" where
  "gauge_name ScrapeError = ''store_scrape_error''"
| "gauge_name JobsByStatus = ''jobs_by_status''"
| "gauge_name QueueDepth = ''queue_depth''"
| "gauge_name ActiveJobs = ''active_jobs''"
| "gauge_name ActiveWorkers = ''active_workers''"

text \<open>\<open>BuildFQName\<close>: the namespace and the name.\<close>

definition full_name :: "string \<Rightarrow> string" where
  "full_name name = namespace @ ''_'' @ name"

text \<open>Buckets, in milliseconds.\<close>

definition durationBuckets :: "int list" where
  "durationBuckets = [5, 10, 25, 50, 100, 250, 500, 1000, 2500, 5000, 10000, 30000, 60000, 120000]"

definition latencyBuckets :: "int list" where
  "latencyBuckets = [10, 50, 100, 250, 500, 1000, 2500, 5000, 10000, 30000, 60000, 120000, 300000]"

fun family_buckets :: "family \<Rightarrow> int list option" where
  "family_buckets HttpDuration = Some durationBuckets"
| "family_buckets JobDuration = Some durationBuckets"
| "family_buckets JobLatency = Some latencyBuckets"
| "family_buckets _ = None"

definition MustRegister :: "string list \<Rightarrow> string list \<Rightarrow> string list option" where
  "MustRegister names taken =
     (if distinct names \<and> set names \<inter> set taken = {} then Some (taken @ names) else None)"

definition registered_families :: "family list" where
  "registered_families = [HttpRequests, HttpDuration, JobsSubmitted, JobsStarted, JobsSucceeded, JobsFailed, JobsRetried,
     JobsDeadLettered, JobDuration, JobLatency, WorkerHeartbeats, SchedulerTicks, SchedulerRecovered, CronJobsFired,
     NatsPublishFailed]"

definition NewMetrics_registry :: "string list \<Rightarrow> string list option" where
  "NewMetrics_registry collectors =
     (if list_all (\<lambda>f. case family_buckets f of None \<Rightarrow> True | Some bs \<Rightarrow> sorted_wrt (<) bs) registered_families
      then MustRegister (collectors @ map full_name (map family_name registered_families)) []
      else None)"

text \<open>A nil \<open>*Metrics\<close> or \<open>*Store\<close> registers nothing.\<close>

definition RegisterStoreCollector :: "bool \<Rightarrow> bool \<Rightarrow> string list \<Rightarrow> string list option" where
  "RegisterStoreCollector m_nil store_nil taken =
     (if m_nil \<or> store_nil then Some taken else MustRegister (map full_name (map gauge_name Describe)) taken)"

definition Metrics_Handler :: "metrics option \<Rightarrow> metrics" where
  "Metrics_Handler m = (case m of None \<Rightarrow> NewMetrics ''pulsequeue'' | Some m \<Rightarrow> m)"

section \<open>Facts\<close>

lemma full_name_inj: "full_name a = full_name b \<longleftrightarrow> a = b"
  by (simp add: full_name_def)

lemma families_complete: "set registered_families = UNIV"
proof -
  have "f \<in> set registered_families" for f by (cases f) (simp_all add: registered_families_def)
  then show ?thesis by blast
qed

lemma buckets_increase: "family_buckets f = Some bs \<Longrightarrow> sorted_wrt (<) bs"
  by (cases f) (auto simp: durationBuckets_def latencyBuckets_def)

lemma names_distinct:
  "distinct (map family_name registered_families @ map gauge_name Describe)"
  by (simp add: registered_families_def Describe_def)

text \<open>
  The metrics of a process register. Where the names of the library's collectors are distinct and do not
  begin with the namespace, creating the metrics and registering the store collector once does not panic;
  every vector that a \<open>Record...\<close> function uses is registered. A second store collector would panic.
\<close>

lemma metrics_register:
  assumes "distinct collectors" and "\<forall>c \<in> set collectors. \<forall>n. c \<noteq> full_name n"
  shows "\<exists>names. NewMetrics_registry collectors = Some names \<and> (\<forall>f. full_name (family_name f) \<in> set names) \<and>
    (\<exists>all. RegisterStoreCollector False False names = Some all \<and> RegisterStoreCollector False False all = None)"
proof -
  let ?families = "map full_name (map family_name registered_families)" and ?gauges = "map full_name (map gauge_name Describe)"
  have "distinct (map full_name (map family_name registered_families @ map gauge_name Describe))"
    unfolding distinct_map [of full_name] using names_distinct by (simp add: inj_on_def full_name_inj)
  then have own: "distinct ?families" "distinct ?gauges" "set ?families \<inter> set ?gauges = {}"
    unfolding map_append distinct_append by blast+
  have away: "set collectors \<inter> set (map full_name ns) = {}" for ns using assms(2) by auto
  have buckets: "list_all (\<lambda>f. case family_buckets f of None \<Rightarrow> True | Some bs \<Rightarrow> sorted_wrt (<) bs) registered_families"
    using buckets_increase by (auto simp: list_all_iff split: option.split)
  have "distinct (collectors @ ?families)" unfolding distinct_append using assms(1) own(1) away by blast
  then have "NewMetrics_registry collectors = Some (collectors @ ?families)"
    unfolding NewMetrics_registry_def MustRegister_def using buckets by simp
  moreover have "set ?gauges \<inter> set (collectors @ ?families) = {}" using own(3) away [of "map gauge_name Describe"] by auto
  then have "RegisterStoreCollector False False (collectors @ ?families) = Some ((collectors @ ?families) @ ?gauges)"
    unfolding RegisterStoreCollector_def MustRegister_def using own(2) by simp
  moreover have "RegisterStoreCollector False False ((collectors @ ?families) @ ?gauges) = None"
    by (simp add: RegisterStoreCollector_def MustRegister_def Describe_def)
  moreover have "full_name (family_name f) \<in> set (collectors @ ?families)" for f using families_complete by auto
  ultimately show ?thesis by blast
qed

end
