(* ===== verification/Spec2Isabelle.thy ===== *)
theory Spec2Isabelle
  imports EndToEnd CronCompletion SchedulerLoop Migrations Connections LeaseTransactions Registry
begin

text \<open>
  PulseQueue: a distributed job queue on PostgreSQL and NATS, written in Go.

  THE PROGRAM. Three kinds of processes share one database. The API (\<open>internal/api\<close>) creates, lists,
  retries and cancels jobs and manages cron jobs. Workers (\<open>internal/worker\<close>) claim due jobs of a
  queue under a lease, run a handler, and complete or fail the attempt; a heartbeat extends their
  leases. The scheduler (\<open>internal/scheduler\<close>) fires cron jobs (\<open>internal/cronexpr\<close>), recovers jobs
  whose lease has expired, and signals queues with work. Signals (\<open>internal/signals\<close>) travel over NATS
  and only shorten the wait for the next poll. All state is in PostgreSQL, behind
  \<open>internal/storage/storage.go\<close>.

  THE THEORIES, in the order of their imports.
    Prelude, GoText, GoTime, GoJson: Go's fixed-width integers on int, SQL's ORDER BY, table rows, and
      the parts of \<open>strings\<close>, \<open>strconv\<close>, \<open>time\<close> (UTC) and \<open>encoding/json\<close> that the program uses, on byte
      strings. An instant is a number of nanoseconds since 1970.
    Cronexpr: \<open>internal/cronexpr/cronexpr.go\<close>, the parser, the matcher and the five-year search.
    Schema: the structs of \<open>storage.go\<close> and the tables as a record \<open>db\<close> of lists of rows; errors; the
      statements and transactions: a statement is answered, lost before it runs, or run without the
      answer arriving (\<open>reply\<close>); a transaction that fails leaves the database as it was, except that the
      answer to a commit may be lost. \<open>store_operation\<close> is the contract of every write operation: it
      commits as a whole or changes nothing, and only a lost answer hides a commit.
    RetryPolicy: \<open>RetryPolicy.Normalize\<close>, \<open>DelayForAttempt\<close>.
    Invariant: \<open>db_ok\<close>, the invariant of the tables: keys, foreign keys, and \<open>job_ok\<close>, which relates the
      row of a job to its attempts.
    JobStore, LeaseStore, WorkerStore, CronStore, Reports: the operations of \<open>Store\<close>. Each has a
      commit relation (what a successful call did), an interpretation of \<open>store_operation\<close>, and the proof
      that it keeps \<open>db_ok\<close>.
    LeaseSystem: the store as a state machine (\<open>store_step\<close>: any write operation with any parameters,
      clocks, identifiers, locks and faults), its invariants over all interleavings, and the refinement
      of the life cycle of jobs (\<open>queue_step\<close>).
    Telemetry: \<open>internal/observability\<close> (metrics, the collector, log fields) and the subjects of
      \<open>internal/signals\<close>.
    Client: the processes' side: a state monad over the database, the number of calls made and the
      events recorded; a \<open>world\<close> says what each call meets, what other clients do before it included;
      \<open>store_only\<close> and Hoare triples.
    Worker, WorkerPool: \<open>internal/worker/worker.go\<close>, first what one goroutine does (\<open>drain\<close>, \<open>execute\<close>,
      \<open>runHandler\<close>, \<open>fail_job\<close>, \<open>heartbeat_once\<close>), then the goroutines of \<open>Run\<close> as a state machine.
    Scheduler, SchedulerLoop: \<open>internal/scheduler/scheduler.go\<close>, a tick, and the loop of ticks.
    Config: \<open>internal/config/config.go\<close> and the settings that \<open>cmd/pulsequeue/main.go\<close> starts the worker
      and the scheduler with.
    Api: \<open>internal/api/server.go\<close>, the handler of every route, the token check and the middleware.
    Completion: a job that the API accepted succeeds in a worker.
    CronCompletion: a job that a tick fired succeeds in a worker.
    Migrations: \<open>Store.ApplyMigrations\<close>, the files of a directory carried out once each, with faults at
      every round trip and other servers doing the same (\<open>others\<close>).
    Rows: the column lists of the statements and the functions that scan a row by position, against the
      tables of \<open>migrations/*.sql\<close>.
    GoUrl: percent-encoding, request targets and queries of \<open>net/url\<close>, \<open>filepath.Clean\<close>.
    Cli: the client commands of \<open>cmd/pulsequeue/main.go\<close> in a state monad over the requests sent and the
      output, and how the server reads such a request (\<open>receive\<close>), which joins them to the routes of Api.
    EndToEnd: a command, the API and a worker in one run, over an HTTP exchange.
    Startup: the commands that start the server, the scheduler and the worker, with everything they acquire
      and release, and the goroutines of the server up to its return as a step relation.
    ReadCommitted, LeaseTransactions: the transactions of \<open>storage.go\<close> that move a job along, statement by
      statement with row and key locks: what programs must observe so that interleaving their statements
      is as good as atomic steps (locale \<open>transactions\<close>), and the programs that do.
    Registry: what \<open>internal/observability/metrics.go\<close> registers with Prometheus.
    Connections: the pool, the NATS client with its ping, the gRPC health service, the trace context that
      travels with a job.
    This theory: all processes together.

  CORRESPONDENCE. Definitions have the names of the functions and types they translate. Parts of an SQL
  statement have definitions of their own: \<open>..._set\<close> for SET, a predicate for WHERE, \<open>..._order\<close> for
  ORDER BY. \<open>gen_random_uuid()\<close>, \<open>uuid.New()\<close>, \<open>now()\<close> and \<open>time.Now()\<close> are arguments; so are the rows that
  other transactions hold locked where the code says SKIP LOCKED, the normal form of \<open>jsonb\<close> text, the
  collation of the database, and the printing and parsing of UUIDs.

  WHAT THE LEMMAS SHOW. Safety over all runs: the invariant, one lease holder and one success per job,
  fencing of lost leases, finality of success, the life cycle. Functional behaviour of each operation,
  refusals included. Cron: the next time is the least match, each slot fires once. Liveness: a due job
  is claimed, every execution settles its attempt, draining ends with nothing due, a tick signals every
  queue with work, fired, recovered or due, a submitted job succeeds, and so does one that a cron schedule fired.
  Migrations: each is carried out once, and a second run finishes what a failed one began. Commands: one
  request, with the token, to the route that the user means, and no success that the server did not
  report. The server's goroutines never block on their error channel, and a shutdown that succeeds leaves no request behind. The scheduler ticks until it is told to stop. Connections: a failed start leaves no pool open,
  a ping answers what NATS answered, the trace of a request reaches the worker. Isolation: at READ
  COMMITTED the row locks and the guards of the statements make interleaved transactions as good as
  atomic ones, and no two of them wait for each other's job rows. Failures that the code allows are
  theorems and lemmas too; the manifest lists them as findings.

  BOUNDS AND FUEL. \<open>Schedule.Next\<close> searches its window of five years as the code does (\<open>first_match\<close>, with
  the distance to the deadline as its measure). The value loop of a cron field, whose counter can
  overflow, is a partial function (\<open>fill_values\<close>: not returning is None); \<open>Next_returns\<close> shows that it always
  returns.
  \<open>drain\<close> has fuel, the number of turns; \<open>drain_returns\<close> shows that one more than the claims which the
  jobs have left is enough when nobody else works. \<open>scheduler_Run\<close> has fuel, the number of ticks; one
  more than the waits before the stop is enough (\<open>scheduler_stops_when_told\<close>).
  Integer columns and conversions keep their width (\<open>int32\<close>, \<open>wrap32\<close>, \<open>wrap64\<close>); the model's \<open>int\<close> is
  exact elsewhere.

  NOT MODELLED. The pool of pgx, the NATS and gRPC libraries, the exporter and the propagator of
  OpenTelemetry and the Prometheus registry: what they answer is an input (\<open>boot\<close>, \<open>up\<close>, \<open>w_publish\<close>,
  the arguments of the definitions of Connections). What a migration script does to PostgreSQL is a parameter;
  that the tables are as \<open>migrations/*.sql\<close> declare them is part of the model. \<open>slog\<close> output and span
  attributes have no effect on the state. The codecs of \<open>encoding/json\<close> for the structs, \<open>strconv.Quote\<close>,
  \<open>time.ParseDuration\<close>, the matching of paths in the chi router and the flag parser are parameters: a
  request body comes decoded, a payload decoder is a function, a router finds the route of a plain path.
  MODELLING CHOICES. \<open>intervalLiteral\<close> rounds half a microsecond up, where the code prints seconds as a
  float and may round it down. \<open>CreateJob\<close> takes its INSERT and the SELECT that follows a conflict, two
  statements of their own, as one step; \<open>migrate\<close> takes a transaction from Begin to Commit as one step, so
  that other servers act between migrations; the sends of \<open>signalWake\<close> are one step of the pool. Of
  \<open>net/http\<close> the states of connections that \<open>Shutdown\<close> looks at are part of the model of the server's end
  (\<open>serving_step\<close>); the ten seconds of its context are a step that may happen at any time.
  PostgreSQL's isolation: most theories take a transaction to be one atomic step. For the transactions of
  LeaseTransactions that is proved from a model of READ COMMITTED in which a statement sees and locks its
  rows at one moment; for \<open>HeartbeatWorker\<close>, which locks many rows one after the other,
  \<open>FireDueCronJobs\<close>, \<open>SetCronJobEnabled\<close> and \<open>ApplyMigrations\<close> it is assumed.
\<close>

section \<open>All processes together\<close>

text \<open>What the processes do, from one point where a process is idle to the next.\<close>

datatype activity =
    Serving trace_context "bool \<times> bool" duration server request
  | Ticking "string list \<Rightarrow> string list" trace_context scheduler
  | Registering runner "string option"
  | Beating runner worker_status
  | Draining payloads "nat \<Rightarrow> nat \<Rightarrow> duration" "nat \<Rightarrow> bool" runner int nat
  | Marking runner worker_status

fun perform :: "world \<Rightarrow> activity \<Rightarrow> unit cmd" where
  "perform w (Serving tc up t sv rq) = do { serve w tc up t sv rq; ret () }"
| "perform w (Ticking order tc r) = run_tick w order tc r"
| "perform w (Registering r hostname) = do { register_call w r hostname; ret () }"
| "perform w (Beating r st) = heartbeat_once w r (worker_status_text st)"
| "perform w (Draining pd since cancelled r sl n) = do { drain w pd since cancelled r sl n; ret () }"
| "perform w (Marking r st) =
     do { store_call w (\<lambda>k. MarkWorkerStatus (w_now w k) (rn_worker_id r) (worker_status_text st) (w_net w k)); ret () }"

text \<open>
  A step of the system: some process finishes an activity, with the activities of all the others in
  between its calls, as a fair world has them.
\<close>

inductive system_step :: "db \<Rightarrow> db \<Rightarrow> bool" where
  activity: "fair w \<Longrightarrow> run_state (perform w a) s = (u, s') \<Longrightarrow> system_step (p_db s) (p_db s')"

inductive_cases system_stepE: "system_step d d'"

lemma store_only_perform: "fair w \<Longrightarrow> store_only (perform w a)"
  by (cases a) (auto intro!: store_only_rules store_only_run_tick intro: store_step.mark)

lemma system_step_run: "system_step d d' \<Longrightarrow> store_step\<^sup>*\<^sup>* d d'"
  by (erule system_stepE) (auto intro: store_onlyD [OF store_only_perform])

interpretation system: refinement system_step empty_db db_ok status_of "queue_step\<^sup>*\<^sup>*"
proof
  show "db_ok empty_db" by (rule db_ok_empty)
  fix d d'
  assume "db_ok d" and step: "system_step d d'"
  show "db_ok d'" by (rule store.good_run [OF system_step_run [OF step]]) fact
  show "queue_step\<^sup>*\<^sup>* (status_of d) (status_of d')" by (rule queue.run_simulated [OF system_step_run [OF step]]) fact
qed

lemma system_run_store: "system_step\<^sup>*\<^sup>* d d' \<Longrightarrow> store_step\<^sup>*\<^sup>* d d'"
  by (induction rule: rtranclp_induct) (auto intro: rtranclp_trans system_step_run)

text \<open>
  C1. The whole system is safe. Whatever requests are served, ticks run, jobs drained, heartbeats sent and
  workers registered or stopped, in any order and interleaved call by call, with any faults: the
  database is one that the store's operations can reach, so that every property of their runs holds of
  it; its invariant holds, and the jobs have moved along the life cycle only.
\<close>

theorem system_is_safe:
  assumes "system_step\<^sup>*\<^sup>* empty_db d"
  shows "store_step\<^sup>*\<^sup>* empty_db d \<and> db_ok d \<and> queue_step\<^sup>*\<^sup>* (status_of empty_db) (status_of d)"
  using system_run_store [OF assms] system.good_run [OF assms db_ok_empty] system.run_simulated [OF assms db_ok_empty]
  by simp

theorem system_is_safe_witness:
  "db_ok (p_db (snd (run_state (perform sample_world (Draining sample_payloads (\<lambda>k i. 5) (\<lambda>k. False) sample_runner 1 4))
     (snd (run_state (perform sample_world (Serving \<lparr>tc_parent = [], tc_state = []\<rparr> (True, True) 5 (NewServer ''secret'' None)
       (sample_request PostJobs))) \<lparr>p_db = empty_db, p_calls = 0, p_events = []\<rparr>)))))"
proof -
  let ?s = "\<lparr>p_db = empty_db, p_calls = 0, p_events = []\<rparr>"
  let ?serve = "perform sample_world (Serving \<lparr>tc_parent = [], tc_state = []\<rparr> (True, True) 5 (NewServer ''secret'' None) (sample_request PostJobs))"
  let ?drain = "perform sample_world (Draining sample_payloads (\<lambda>k i. 5) (\<lambda>k. False) sample_runner 1 4)"
  obtain u s1 where 1: "run_state ?serve ?s = (u, s1)" by (rule prod.exhaust)
  obtain v s2 where 2: "run_state ?drain s1 = (v, s2)" by (rule prod.exhaust)
  have "system_step empty_db (p_db s1)" using system_step.activity [OF sample_world_quiet(2) 1] by simp
  moreover have "system_step (p_db s1) (p_db s2)" by (rule system_step.activity [OF sample_world_quiet(2) 2])
  ultimately have "system_step\<^sup>*\<^sup>* empty_db (p_db s2)" by (meson r_into_rtranclp rtranclp.rtrancl_into_rtrancl)
  then show ?thesis using system_is_safe [of "p_db s2"] 1 2 by (simp del: perform.simps)
qed

end
